(* ===== verification/Confab_Prelude.thy ===== *)
theory Confab_Prelude
  imports Main "HOL-Library.Word" "HOL-Library.AList" "HOL-Library.List_Lexorder"
    "HOL-Library.Multiset" "HOL-Library.Signed_Division"
begin

unbundle bit_operations_syntax

text \<open>
  Shared vocabulary of the development: faults (undefined behaviour, thrown exceptions and
  aborts of the C++ code) as values, the result type that carries them with its sequencing
  combinators, signed 32-bit arithmetic, the byte layout of 64-bit integers, and the two
  interface locales that several components implement (codecs and keyed containers).
\<close>

section \<open>Faults and results\<close>

text \<open>
  A C++ function that may run into undefined behaviour, throw or abort returns a value of
  the sum type \<open>fault + 'a\<close>. Each constructor names one way of leaving the defined
  behaviour; a theorem that a call returns \<open>Inr\<close> shows that none of them happens.
\<close>

datatype fault =
    SignedOverflow      \<comment> \<open>overflow of an \<open>int\<close>\<close>
  | OutOfBounds         \<comment> \<open>index or copy outside an array, vector or buffer\<close>
  | UninitRead          \<comment> \<open>read of a slot that was never written\<close>
  | UseAfterFree        \<comment> \<open>access to a freed object\<close>
  | DoubleFree          \<comment> \<open>free of an object that is not allocated\<close>
  | NullDeref           \<comment> \<open>member access through a null pointer\<close>
  | EmptyTop            \<comment> \<open>\<open>top\<close> of an empty priority queue\<close>
  | InvalidIterator     \<comment> \<open>\<open>key\<close>, \<open>value\<close> or \<open>Next\<close> on an iterator that is not valid\<close>
  | FilesystemError     \<comment> \<open>\<open>filesystem_error\<close> thrown\<close>
  | CheckFailed         \<comment> \<open>a failed \<open>CHECK\<close> macro aborts the process\<close>
  | Unverified          \<comment> \<open>flatbuffer accessor on bytes the verifier rejects\<close>
  | Diverges            \<comment> \<open>a loop that never ends\<close>
  | Terminated          \<comment> \<open>\<open>std::terminate\<close> after a rejected promise\<close>
  | SocketError         \<comment> \<open>exception of a socket that cannot be opened or bound\<close>

fun rbind :: "'e + 'a \<Rightarrow> ('a \<Rightarrow> 'e + 'b) \<Rightarrow> 'e + 'b" where
  "rbind (Inl e) f = Inl e"
| "rbind (Inr a) f = f a"

text \<open>A loop over a list with an early exit on a fault: with a state, and collecting results.\<close>

fun rfold :: "('a \<Rightarrow> 's \<Rightarrow> 'e + 's) \<Rightarrow> 'a list \<Rightarrow> 's \<Rightarrow> 'e + 's" where
  "rfold f [] s = Inr s"
| "rfold f (x # xs) s = rbind (f x s) (rfold f xs)"

fun rmap :: "('a \<Rightarrow> 'e + 'b) \<Rightarrow> 'a list \<Rightarrow> 'e + 'b list" where
  "rmap f [] = Inr []"
| "rmap f (x # xs) = rbind (f x) (\<lambda>y. rbind (rmap f xs) (\<lambda>ys. Inr (y # ys)))"

named_theorems fault_simps \<open>equations that decide which branch of a result is taken\<close>

lemma rbind_Inr_iff [fault_simps]:
  "rbind m f = Inr b \<longleftrightarrow> (\<exists>a. m = Inr a \<and> f a = Inr b)"
  by (cases m) auto

lemma rbind_Inl_iff [fault_simps]:
  "rbind m f = Inl e \<longleftrightarrow> m = Inl e \<or> (\<exists>a. m = Inr a \<and> f a = Inl e)"
  by (cases m) auto

lemma rbind_assoc: "rbind (rbind m f) g = rbind m (\<lambda>a. rbind (f a) g)"
  by (cases m) auto

lemma rbind_Inr_right [simp]: "rbind m Inr = m"
  by (cases m) auto

lemma rfold_append: "rfold f (xs @ ys) s = rbind (rfold f xs s) (rfold f ys)"
proof (induction xs arbitrary: s)
  case (Cons x xs)
  then show ?case by (cases "f x s") auto
qed simp

lemma rmap_Inr: "(\<And>x. x \<in> set xs \<Longrightarrow> f x = Inr (g x)) \<Longrightarrow> rmap f xs = Inr (map g xs)"
  by (induction xs) auto

lemma rmap_bind:
  "(\<And>x. f x = rbind (g x) (\<lambda>y. Inr (h y))) \<Longrightarrow> rmap f xs = rbind (rmap g xs) (\<lambda>ys. Inr (map h ys))"
proof (induction xs)
  case (Cons x xs)
  then show ?case by (cases "g x"; cases "rmap g xs") auto
qed simp

lemma rmap_length: "rmap f xs = Inr ys \<Longrightarrow> length ys = length xs"
  by (induction xs arbitrary: ys) (auto simp: fault_simps)

lemma rmap_Inl: "x \<in> set xs \<Longrightarrow> f x = Inl e \<Longrightarrow> \<exists>e'. rmap f xs = Inl e'"
proof (induction xs)
  case Nil
  then show ?case by simp
next
  case (Cons y ys)
  then show ?case by (cases "f y") auto
qed

text \<open>An invariant of a faulting loop: kept by each iteration, so by the whole loop.\<close>

lemma rfold_invariant:
  assumes "rfold f xs s = Inr t" and "P s"
    and "\<And>x u v. x \<in> set xs \<Longrightarrow> P u \<Longrightarrow> f x u = Inr v \<Longrightarrow> P v"
  shows "P t"
  using assms
proof (induction xs arbitrary: s)
  case Nil
  then show ?case by simp
next
  case (Cons x xs)
  from Cons.prems(1) obtain u where u: "f x s = Inr u" "rfold f xs u = Inr t"
    by (auto simp: fault_simps)
  from u(2) show ?case
    by (rule Cons.IH) (use Cons.prems u in auto)
qed

text \<open>A separator that occurs in neither prefix splits a list in one way only.\<close>

lemma append_Cons_split:
  "c \<notin> set xs \<Longrightarrow> c \<notin> set xs' \<Longrightarrow> xs @ c # ys = xs' @ c # ys' \<Longrightarrow> xs = xs' \<and> ys = ys'"
proof (induction xs arbitrary: xs')
  case Nil
  then show ?case by (cases xs') auto
next
  case (Cons x xs)
  then show ?case by (cases xs') auto
qed

lemma upto_append: "i \<le> j \<Longrightarrow> j \<le> k \<Longrightarrow> [i..j - 1] @ [j..k - 1] = [i..k - (1::int)]"
  using upto_split1 [of i j "k - 1"] by (cases "j = k") auto

section \<open>Signed 32-bit integers\<close>

text \<open>
  C++ \<open>int\<close> is modelled by \<open>int\<close> with the range check written out, because signed
  overflow is undefined behaviour and does not wrap.
\<close>

definition in_i32 :: "int \<Rightarrow> bool" where
  "in_i32 n \<longleftrightarrow> - (2 ^ 31) \<le> n \<and> n < 2 ^ 31"

definition chk_i32 :: "int \<Rightarrow> fault + int" where
  "chk_i32 n = (if in_i32 n then Inr n else Inl SignedOverflow)"

lemma chk_i32_Inr [fault_simps]: "chk_i32 n = Inr m \<longleftrightarrow> in_i32 n \<and> m = n"
  by (auto simp: chk_i32_def)

lemma chk_i32_ok [simp]: "in_i32 n \<Longrightarrow> chk_i32 n = Inr n"
  by (simp add: chk_i32_def)

text \<open>\<open>std::array::operator[]\<close>: an index outside the array is undefined behaviour.\<close>

definition arr_at :: "'a list \<Rightarrow> int \<Rightarrow> fault + 'a" where
  "arr_at xs i = (if 0 \<le> i \<and> i < int (length xs) then Inr (xs ! nat i) else Inl OutOfBounds)"

definition arr_set :: "'a list \<Rightarrow> int \<Rightarrow> 'a \<Rightarrow> fault + 'a list" where
  "arr_set xs i x = (if 0 \<le> i \<and> i < int (length xs) then Inr (xs[nat i := x]) else Inl OutOfBounds)"

lemma smod_nonneg: "0 \<le> (a::int) \<Longrightarrow> 0 < b \<Longrightarrow> a smod b = a mod b"
  by (auto simp: signed_modulo_int_def sgn_if split: if_splits)

section \<open>Bytes and 64-bit integers\<close>

type_synonym byte = "8 word"
type_synonym bytes = "byte list"
type_synonym u64 = "64 word"

text \<open>
  \<open>std::memcpy\<close> of a \<open>uint64_t\<close> on the little-endian hosts the program runs on: the
  least significant byte first.
\<close>

definition le_bytes :: "u64 \<Rightarrow> bytes" where
  "le_bytes w = map (\<lambda>i. ucast (drop_bit (8 * i) w)) [0..<8]"

fun le_word :: "bytes \<Rightarrow> u64" where
  "le_word [] = 0"
| "le_word (b # bs) = ucast b OR push_bit 8 (le_word bs)"

text \<open>A \<open>memcpy\<close> of eight bytes out of a buffer: reading past its end is a fault.\<close>

definition read_u64 :: "bytes \<Rightarrow> fault + u64" where
  "read_u64 bs = (if length bs < 8 then Inl OutOfBounds else Inr (le_word (take 8 bs)))"

definition of_chars :: "string \<Rightarrow> bytes" where
  "of_chars s = map of_char s"

lemma of_chars_simps [simp]:
  "of_chars [] = []" "of_chars (c # cs) = of_char c # of_chars cs"
  "of_chars (s @ t) = of_chars s @ of_chars t"
  by (simp_all add: of_chars_def)

lemma length_of_chars [simp]: "length (of_chars s) = length s"
  by (simp add: of_chars_def)

lemma of_char_byte_inj: "(of_char c :: byte) = of_char d \<longleftrightarrow> c = d"
proof
  assume "(of_char c :: byte) = of_char d"
  then have "word_of_nat (of_char c) = (word_of_nat (of_char d) :: byte)"
    by (simp only: of_nat_of_char)
  then have "(of_char c :: nat) mod 256 = of_char d mod 256"
    by (simp add: word_of_nat_eq_iff take_bit_eq_mod)
  then show "c = d"
    by simp
qed simp

lemma of_chars_inj [simp]: "of_chars s = of_chars t \<longleftrightarrow> s = t"
  unfolding of_chars_def
  by (rule inj_map_eq_map) (auto simp: inj_def of_char_byte_inj)

lemma length_le_bytes [simp]: "length (le_bytes w) = 8"
  by (simp add: le_bytes_def)

lemma bit_le_word:
  "bit (le_word bs) n \<longleftrightarrow> n < 64 \<and> n div 8 < length bs \<and> bit (bs ! (n div 8)) (n mod 8)"
proof (induction bs arbitrary: n)
  case Nil
  then show ?case by simp
next
  case (Cons b bs)
  have head: "bit (ucast b :: u64) n \<longleftrightarrow> n < 8 \<and> bit b n"
    using bit_imp_le_length [of b n] by (auto simp: bit_simps)
  show ?case
  proof (cases "n < 8")
    case True
    then show ?thesis using head by (auto simp: bit_simps)
  next
    case False
    then have "n div 8 = Suc ((n - 8) div 8)" "n mod 8 = (n - 8) mod 8"
      by (auto simp: le_div_geq le_mod_geq)
    with False show ?thesis using head by (auto simp: bit_simps Cons.IH)
  qed
qed

lemma le_word_le_bytes: "le_word (le_bytes w) = w"
proof (rule bit_word_eqI)
  fix n
  assume "n < LENGTH(64)"
  then have "n < 64" "n div 8 < 8" by simp_all
  then show "bit (le_word (le_bytes w)) n = bit w n"
    by (simp add: bit_le_word le_bytes_def bit_simps)
qed

lemma le_bytes_le_word: "length bs = 8 \<Longrightarrow> le_bytes (le_word bs) = bs"
proof (rule nth_equalityI)
  fix i
  assume "length bs = 8" "i < length (le_bytes (le_word bs))"
  then show "le_bytes (le_word bs) ! i = bs ! i"
    by (auto simp: le_bytes_def bit_simps bit_le_word intro!: bit_word_eqI)
qed simp

section \<open>Interfaces\<close>

text \<open>
  A codec: decoding undoes encoding on the well-formed values. The concrete codecs of the
  program are the byte image of a 64-bit key, the hexadecimal text of a key and the
  names of the asset types.
\<close>

locale codec =
  fixes enc :: "'a \<Rightarrow> 'b"
    and dec :: "'b \<Rightarrow> 'a"
    and wf :: "'a \<Rightarrow> bool"
  assumes dec_enc: "wf x \<Longrightarrow> dec (enc x) = x"
begin

lemma enc_eq_iff: "wf x \<Longrightarrow> wf y \<Longrightarrow> enc x = enc y \<longleftrightarrow> x = y"
  by (metis dec_enc)

lemma inj_on_enc: "inj_on enc {x. wf x}"
  by (auto simp: inj_on_def enc_eq_iff)

end

text \<open>
  A codec into lists of one fixed width: encodings can be cut out of a concatenation, so
  two composite keys agree only if they agree component by component.
\<close>

locale fixed_codec = codec enc dec wf
  for enc :: "'a \<Rightarrow> 'b list" and dec :: "'b list \<Rightarrow> 'a" and wf :: "'a \<Rightarrow> bool" +
  fixes width :: nat
  assumes length_enc: "wf x \<Longrightarrow> length (enc x) = width"
begin

lemma enc_append_eq_iff:
  "wf x \<Longrightarrow> wf y \<Longrightarrow> enc x @ r = enc y @ s \<longleftrightarrow> x = y \<and> r = s"
  using append_eq_append_conv [of "enc x" "enc y" r s] by (auto simp: length_enc enc_eq_iff)

lemma dec_take: "wf x \<Longrightarrow> dec (take width (enc x @ r)) = x"
  by (simp add: length_enc dec_enc)

lemma drop_width: "wf x \<Longrightarrow> drop width (enc x @ r) = r"
  by (simp add: length_enc)

end

interpretation le64: fixed_codec le_bytes le_word "\<lambda>_. True" 8
  by unfold_locales (simp_all add: le_word_le_bytes)

lemma read_u64_le_bytes [simp]: "read_u64 (le_bytes w @ r) = Inr w"
  by (simp add: read_u64_def le64.dec_enc)

lemma read_u64_le_bytes_only [simp]: "read_u64 (le_bytes w) = Inr w"
  using read_u64_le_bytes [of w "[]"] by simp

text \<open>
  A keyed container with the operations the code uses of \<open>std::unordered_map\<close>: look up,
  assign through \<open>operator[]\<close>, erase. The contract is that of a finite map.
\<close>

locale keyed_map =
  fixes find :: "'m \<Rightarrow> 'k \<Rightarrow> 'v option"
    and assign :: "'k \<Rightarrow> 'v \<Rightarrow> 'm \<Rightarrow> 'm"
    and erase :: "'k \<Rightarrow> 'm \<Rightarrow> 'm"
    and invar :: "'m \<Rightarrow> bool"
  assumes find_assign: "find (assign k v m) = (find m)(k \<mapsto> v)"
    and find_erase: "find (erase k m) = (find m)(k := None)"
    and invar_assign: "invar m \<Longrightarrow> invar (assign k v m)"
    and invar_erase: "invar m \<Longrightarrow> invar (erase k m)"
begin

lemma find_assign_same: "find (assign k v m) k = Some v"
  by (simp add: find_assign)

lemma find_assign_other: "j \<noteq> k \<Longrightarrow> find (assign k v m) j = find m j"
  by (simp add: find_assign)

lemma dom_assign: "dom (find (assign k v m)) = insert k (dom (find m))"
  by (simp add: find_assign)

lemma dom_erase: "dom (find (erase k m)) = dom (find m) - {k}"
  by (auto simp: find_erase)

end

text \<open>
  The code's hash maps are association lists in the model, without an order the code could
  rely on: where the code iterates, the order is a parameter (\<open>iteration_order\<close>).
\<close>

abbreviation umap_find :: "('k \<times> 'v) list \<Rightarrow> 'k \<Rightarrow> 'v option" where
  "umap_find \<equiv> map_of"

abbreviation umap_assign :: "'k \<Rightarrow> 'v \<Rightarrow> ('k \<times> 'v) list \<Rightarrow> ('k \<times> 'v) list" where
  "umap_assign \<equiv> AList.update"

abbreviation umap_erase :: "'k \<Rightarrow> ('k \<times> 'v) list \<Rightarrow> ('k \<times> 'v) list" where
  "umap_erase \<equiv> AList.delete"

definition umap_ok :: "('k \<times> 'v) list \<Rightarrow> bool" where
  "umap_ok m \<longleftrightarrow> distinct (map fst m)"

definition iteration_order :: "(('k \<times> 'v) list \<Rightarrow> ('k \<times> 'v) list) \<Rightarrow> bool" where
  "iteration_order order \<longleftrightarrow> (\<forall>m. mset (order m) = mset m)"

interpretation umap: keyed_map umap_find umap_assign umap_erase umap_ok
  by unfold_locales (auto simp: umap_ok_def update_conv' delete_conv' distinct_update distinct_delete)

lemma iteration_order_set: "iteration_order order \<Longrightarrow> set (order m) = set m"
  by (metis iteration_order_def set_mset_mset)

lemma iteration_order_distinct:
  "iteration_order order \<Longrightarrow> umap_ok m \<Longrightarrow> distinct (map fst (order m))"
  unfolding iteration_order_def umap_ok_def
  by (metis distinct_map mset_eq_imp_distinct_iff mset_map)

lemma length_umap_assign: "length (umap_assign k v m) \<le> Suc (length m)"
  by (induction m) auto

lemma restrict_remove: "(m(c := None)) |` (- A) = m |` (- insert c A)"
  by (auto simp: restrict_map_def fun_eq_iff)

lemma umap_ok_Nil [simp]: "umap_ok []"
  by (simp add: umap_ok_def)

section \<open>Decimal and hexadecimal text\<close>

text \<open>
  The \<open>%d\<close> and \<open>%lu\<close> conversions of \<open>snprintf\<close>, and digits in a base up to sixteen
  (lower-case letters, as \<open>%x\<close> writes them).
\<close>

definition digit_char :: "nat \<Rightarrow> char" where
  "digit_char d = (if d < 10 then char_of (48 + d) else char_of (87 + d))"

fun show_dec :: "nat \<Rightarrow> string" where
  "show_dec n = (if n < 10 then [digit_char n] else show_dec (n div 10) @ [digit_char (n mod 10)])"

declare show_dec.simps [simp del]

definition show_int :: "int \<Rightarrow> string" where
  "show_int n = (if n < 0 then CHR ''-'' # show_dec (nat (- n)) else show_dec (nat n))"

text \<open>\<open>snprintf(buffer, bufsize, ...)\<close> keeps at most \<open>bufsize - 1\<close> characters of the text.\<close>

definition snprintf :: "nat \<Rightarrow> string \<Rightarrow> string" where
  "snprintf bufsize txt = take (bufsize - 1) txt"

lemma of_char_digit_char:
  "d < 16 \<Longrightarrow> (of_char (digit_char d) :: nat) = (if d < 10 then 48 + d else 87 + d)"
  by (simp add: digit_char_def)

lemma digit_char_inj:
  assumes "d < 16" "e < 16"
  shows "digit_char d = digit_char e \<longleftrightarrow> d = e"
proof
  assume "digit_char d = digit_char e"
  then have "(if d < 10 then 48 + d else 87 + d) = (if e < 10 then 48 + e else 87 + e)"
    using of_char_digit_char [OF assms(1)] of_char_digit_char [OF assms(2)] by presburger
  with assms show "d = e" by (auto split: if_splits)
qed simp

lemma show_dec_nonempty [simp]: "show_dec n \<noteq> []"
  by (subst show_dec.simps) simp

lemma show_dec_inj: "show_dec m = show_dec n \<Longrightarrow> m = n"
proof (induction m arbitrary: n rule: show_dec.induct)
  case (1 m)
  have eq: "(if m < 10 then [digit_char m] else show_dec (m div 10) @ [digit_char (m mod 10)])
    = (if n < 10 then [digit_char n] else show_dec (n div 10) @ [digit_char (n mod 10)])"
    using "1.prems" by (simp add: show_dec.simps [of m] show_dec.simps [of n])
  show ?case
  proof (cases "m < 10 \<longleftrightarrow> n < 10")
    case True
    show ?thesis
    proof (cases "m < 10")
      case True
      with eq \<open>m < 10 \<longleftrightarrow> n < 10\<close> show ?thesis by (simp add: digit_char_inj)
    next
      case False
      with eq \<open>m < 10 \<longleftrightarrow> n < 10\<close> have "show_dec (m div 10) = show_dec (n div 10)"
        and "m mod 10 = n mod 10"
        by (simp_all add: digit_char_inj)
      with "1.IH" False show ?thesis by (metis div_mult_mod_eq)
    qed
  next
    case False
    with eq show ?thesis by (auto split: if_splits simp: append_eq_Cons_conv Cons_eq_append_conv)
  qed
qed

lemma show_dec_chars: "c \<in> set (show_dec n) \<Longrightarrow> \<exists>d < 10. c = digit_char d"
proof (induction n rule: show_dec.induct)
  case (1 n)
  show ?case
  proof (cases "n < 10 \<or> c \<notin> set (show_dec (n div 10))")
    case True
    with "1.prems" have "c = digit_char (n mod 10)"
      by (auto simp: show_dec.simps [of n] split: if_splits)
    then show ?thesis by (intro exI [of _ "n mod 10"]) simp
  next
    case False
    with "1.IH" show ?thesis by simp
  qed
qed

lemma show_dec_length: "n < 10 ^ k \<Longrightarrow> 0 < k \<Longrightarrow> length (show_dec n) \<le> k"
proof (induction n arbitrary: k rule: show_dec.induct)
  case (1 n)
  show ?case
  proof (cases "n < 10")
    case True
    with "1.prems" show ?thesis by (simp add: show_dec.simps [of n])
  next
    case False
    with "1.prems" obtain j where j: "k = Suc j" "0 < j"
      by (cases k; cases "k - 1") auto
    with "1.prems" have "n div 10 < 10 ^ j" by auto
    with "1.IH" False j show ?thesis by (simp add: show_dec.simps [of n])
  qed
qed

end
