(* ===== verification/Version.thy ===== *)
theory Version
  imports Confab_Prelude
begin

text \<open>
  \<open>src/common/Version.cpp\<close>: x.y.z version numbers. The class's private fields are the
  datatype's selectors, its constructor clamps negative parts to zero, the six comparison
  operators are translated one by one with their early returns, and \<open>toString\<close> prints
  through a 128-byte buffer. The lemmas show that the operators are one total
  lexicographic order and that printing neither truncates nor confuses two versions.
\<close>

section \<open>The class\<close>

datatype version = Version (m_major: int) (m_minor: int) (m_patch: int)

text \<open>\<open>Version::Version(int, int, int)\<close>.\<close>

definition mk_version :: "int \<Rightarrow> int \<Rightarrow> int \<Rightarrow> version" where
  "mk_version major minor patch =
     (let v = Version major minor patch
      in Version (max (m_major v) 0) (max (m_minor v) 0) (max (m_patch v) 0))"

text \<open>\<open>Version::operator=\<close>, which the copy constructor calls.\<close>

definition copy_version :: "version \<Rightarrow> version" where
  "copy_version v = Version (m_major v) (m_minor v) (m_patch v)"

definition toString :: "version \<Rightarrow> string" where
  "toString v =
     snprintf 128 (show_int (m_major v) @ ''.'' @ show_int (m_minor v) @ ''.'' @ show_int (m_patch v))"

definition ver_less :: "version \<Rightarrow> version \<Rightarrow> bool" where
  "ver_less v w =
     (if m_major v > m_major w then False
      else if m_major v < m_major w then True
      else if m_minor v > m_minor w then False
      else if m_minor v < m_minor w then True
      else if m_patch v > m_patch w then False
      else if m_patch v < m_patch w then True
      else False)"

definition ver_eq :: "version \<Rightarrow> version \<Rightarrow> bool" where
  "ver_eq v w \<longleftrightarrow> m_major v = m_major w \<and> m_minor v = m_minor w \<and> m_patch v = m_patch w"

definition ver_ne :: "version \<Rightarrow> version \<Rightarrow> bool" where
  "ver_ne v w \<longleftrightarrow> m_major v \<noteq> m_major w \<or> m_minor v \<noteq> m_minor w \<or> m_patch v \<noteq> m_patch w"

definition ver_greater :: "version \<Rightarrow> version \<Rightarrow> bool" where
  "ver_greater v w = (if ver_less v w then False else ver_ne v w)"

definition ver_le :: "version \<Rightarrow> version \<Rightarrow> bool" where
  "ver_le v w \<longleftrightarrow> \<not> ver_greater v w"

definition ver_ge :: "version \<Rightarrow> version \<Rightarrow> bool" where
  "ver_ge v w \<longleftrightarrow> \<not> ver_less v w"

section \<open>A total order\<close>

lemma ver_less_iff:
  "ver_less v w \<longleftrightarrow>
     m_major v < m_major w \<or>
     m_major v = m_major w \<and>
       (m_minor v < m_minor w \<or> m_minor v = m_minor w \<and> m_patch v < m_patch w)"
  by (auto simp: ver_less_def)

lemma ver_eq_iff: "ver_eq v w \<longleftrightarrow> v = w"
  by (cases v; cases w) (auto simp: ver_eq_def)

lemma ver_ne_iff: "ver_ne v w \<longleftrightarrow> v \<noteq> w"
  by (cases v; cases w) (auto simp: ver_ne_def)

lemma ver_less_irrefl: "\<not> ver_less v v"
  by (simp add: ver_less_iff)

lemma ver_less_trans: "ver_less u v \<Longrightarrow> ver_less v w \<Longrightarrow> ver_less u w"
  by (auto simp: ver_less_iff)

lemma ver_less_linear: "ver_less v w \<or> v = w \<or> ver_less w v"
  by (cases v; cases w) (auto simp: ver_less_iff)

text \<open>
  The operators make versions an instance of the library's linear orders, so that its
  sorting and extremum operations apply to them.
\<close>

instantiation version :: linorder
begin

definition less_version :: "version \<Rightarrow> version \<Rightarrow> bool" where
  "less_version v w = ver_less v w"

definition less_eq_version :: "version \<Rightarrow> version \<Rightarrow> bool" where
  "less_eq_version v w = ver_le v w"

instance
proof
  have le: "u \<le> v \<longleftrightarrow> ver_less u v \<or> u = v" for u v :: version
    unfolding less_eq_version_def ver_le_def ver_greater_def ver_ne_iff by auto
  fix u v w :: version
  show "v < w \<longleftrightarrow> v \<le> w \<and> \<not> w \<le> v"
    unfolding less_version_def le using ver_less_irrefl ver_less_trans by blast
  show "v \<le> v" by (simp add: le)
  show "u \<le> v \<Longrightarrow> v \<le> w \<Longrightarrow> u \<le> w"
    unfolding le using ver_less_trans by blast
  show "v \<le> w \<Longrightarrow> w \<le> v \<Longrightarrow> v = w"
    unfolding le using ver_less_irrefl ver_less_trans by blast
  show "v \<le> w \<or> w \<le> v"
    unfolding le using ver_less_linear by blast
qed

end

section \<open>Printing\<close>

text \<open>The values the constructor can build from \<open>int\<close> arguments.\<close>

definition version_ok :: "version \<Rightarrow> bool" where
  "version_ok v \<longleftrightarrow>
     0 \<le> m_major v \<and> in_i32 (m_major v) \<and> 0 \<le> m_minor v \<and> in_i32 (m_minor v) \<and>
     0 \<le> m_patch v \<and> in_i32 (m_patch v)"

lemma version_ok_mk:
  "in_i32 a \<Longrightarrow> in_i32 b \<Longrightarrow> in_i32 c \<Longrightarrow> version_ok (mk_version a b c)"
  by (auto simp: version_ok_def mk_version_def in_i32_def Let_def)

lemma mk_version_id: "version_ok v \<Longrightarrow> mk_version (m_major v) (m_minor v) (m_patch v) = v"
  by (cases v) (simp add: version_ok_def mk_version_def)

definition dotted :: "version \<Rightarrow> string" where
  "dotted v = show_dec (nat (m_major v)) @ ''.'' @ show_dec (nat (m_minor v)) @ ''.'' @
     show_dec (nat (m_patch v))"

lemma show_dec_i32_length: "0 \<le> n \<Longrightarrow> in_i32 n \<Longrightarrow> length (show_dec (nat n)) \<le> 10"
  by (rule show_dec_length) (auto simp: in_i32_def)

lemma toString_dotted: "version_ok v \<Longrightarrow> toString v = dotted v \<and> length (dotted v) \<le> 32"
  using show_dec_i32_length [of "m_major v"] show_dec_i32_length [of "m_minor v"]
    show_dec_i32_length [of "m_patch v"]
  by (auto simp: version_ok_def toString_def dotted_def snprintf_def show_int_def)

lemma show_dec_no_dot: "CHR ''.'' \<notin> set (show_dec n)"
proof
  assume "CHR ''.'' \<in> set (show_dec n)"
  then obtain d where "d < 10" "CHR ''.'' = digit_char d"
    using show_dec_chars by blast
  then have "of_char (CHR ''.'') = (48 + d :: nat)"
    using of_char_digit_char [of d] by simp
  then show False by simp
qed

lemma dotted_inj:
  assumes "version_ok v" "version_ok w" and "dotted v = dotted w"
  shows "v = w"
proof -
  have "show_dec (nat (m_major v)) = show_dec (nat (m_major w)) \<and>
    show_dec (nat (m_minor v)) = show_dec (nat (m_minor w)) \<and>
    show_dec (nat (m_patch v)) = show_dec (nat (m_patch w))"
    using assms(3) unfolding dotted_def
    by (metis append_Cons append_Nil show_dec_no_dot append_Cons_split)
  then have "nat (m_major v) = nat (m_major w)" "nat (m_minor v) = nat (m_minor w)"
    "nat (m_patch v) = nat (m_patch w)"
    using show_dec_inj by blast+
  with assms(1,2) show ?thesis
    by (cases v; cases w) (auto simp: version_ok_def eq_nat_nat_iff)
qed

section \<open>Properties\<close>

text \<open>
  The six comparison operators describe one order, the lexicographic order of
  (major, minor, patch): \<open><\<close> is its strict part, \<open>==\<close> and \<open>!=\<close> are identity and its negation,
  \<open>>\<close>, \<open><=\<close> and \<open>>=\<close> are the converse and the complements, and any two versions are related
  by exactly one of \<open><\<close>, \<open>==\<close> and \<open>>\<close>.
\<close>

lemma operators_agree:
  "ver_less v w = (m_major v < m_major w \<or> m_major v = m_major w \<and>
     (m_minor v < m_minor w \<or> m_minor v = m_minor w \<and> m_patch v < m_patch w)) \<and>
   ver_eq v w = (v = w) \<and> ver_ne v w = (v \<noteq> w) \<and>
   ver_greater v w = ver_less w v \<and>
   ver_le v w = (ver_less v w \<or> ver_eq v w) \<and>
   ver_ge v w = (ver_less w v \<or> ver_eq v w) \<and>
   (if ver_less v w then \<not> ver_eq v w \<and> \<not> ver_greater v w else ver_eq v w \<noteq> ver_greater v w)"
proof -
  note order = ver_less_linear [of v w] ver_less_trans [of v w v] ver_less_irrefl [of v]
  have greater: "ver_greater v w = ver_less w v"
    using order unfolding ver_greater_def ver_ne_iff by metis
  have ge: "ver_ge v w = (ver_less w v \<or> ver_eq v w)"
    using order unfolding ver_ge_def ver_eq_iff by metis
  have le: "ver_le v w = (ver_less v w \<or> ver_eq v w)"
    using order unfolding ver_le_def greater ver_eq_iff by metis
  have "if ver_less v w then \<not> ver_eq v w \<and> \<not> ver_greater v w else ver_eq v w \<noteq> ver_greater v w"
    using order unfolding greater ver_eq_iff by metis
  with greater ge le ver_less_iff [of v w] ver_eq_iff ver_ne_iff show ?thesis by metis
qed

text \<open>
  Two versions built from \<open>int\<close> arguments print the same text only if they are equal;
  the 128-byte buffer of \<open>toString\<close> never truncates (the text has at most 32 characters).
\<close>

lemma toString_injective:
  assumes "in_i32 a" "in_i32 b" "in_i32 c" "in_i32 a'" "in_i32 b'" "in_i32 c'"
  shows "(toString (mk_version a b c) = toString (mk_version a' b' c')) =
      (mk_version a b c = mk_version a' b' c') \<and> length (toString (mk_version a b c)) \<le> 32"
  using toString_dotted version_ok_mk [OF assms(1-3)] version_ok_mk [OF assms(4-6)] dotted_inj
  by metis

end
