(* ===== verification/Chat_Server.thy ===== *)
theory Chat_Server
  imports Confab_Prelude
begin

text \<open>
  \<open>src/confab/ChatServer.cpp\<close>, \<open>ChatServer.hpp\<close>, \<open>ChatCommands.hpp\<close> and
  \<open>ChatCommands.cpp.in\<close>: the state of the chat server and its message handler, branch by
  branch. Messages of the OSC library are objects with an identity: the server's ring of
  128 slots holds pointers to them, so the model has an explicit store of allocated
  messages, and freeing, overwriting and losing a message are visible.
\<close>

section \<open>Messages, commands, state\<close>

text \<open>
  An OSC argument with its type tag: \<open>LO_INT32\<close>, \<open>LO_STRING\<close>, or another tag. A handler's
  \<open>argc\<close>, \<open>types\<close> and \<open>argv\<close> are one list of tagged arguments.
\<close>

datatype osc_arg = LoInt32 int | LoString string | LoOther char

datatype ChatCommands =
    kSignIn | kGetAllClients | kGetMessages | kSendMessage | kChangeName | kSignOut | kNotFound

definition command_table :: "(string \<times> ChatCommands) list" where
  "command_table =
    [(''/chatSignIn'', kSignIn),
     (''/chatGetAllClients'', kGetAllClients),
     (''/chatGetMessages'', kGetMessages),
     (''/chatSendMessage'', kSendMessage),
     (''/chatChangeName'', kChangeName),
     (''/chatSignOut'', kSignOut)]"

definition getCommandNamed :: "string \<Rightarrow> ChatCommands" where
  "getCommandNamed name = (case map_of command_table name of None \<Rightarrow> kNotFound | Some c \<Rightarrow> c)"

text \<open>\<open>steady_clock\<close> time points, in nanoseconds.\<close>

type_synonym time = int

definition seconds :: "int \<Rightarrow> time" where
  "seconds n = n * 1000000000"

definition kMessageArraySize :: int where
  "kMessageArraySize = 128"

type_synonym heap = "(nat \<times> osc_arg list) list"

record chat_server =
  m_lastUpdateTime :: time
  m_userSerial :: int
  m_nameMap :: "(int \<times> string) list"
  m_timeout :: int
  m_clientPings :: "(int \<times> time) list"
  m_maxMessagesPerRequest :: int
  m_messageSerial :: int
  m_paths :: "string option list"
  m_messages :: "nat option list"
  lo_heap :: heap

text \<open>
  What the server takes from its surroundings: the order in which the two hash maps are
  iterated, and the address the OSC library gives to a new message.
\<close>

record chat_env =
  name_order :: "(int \<times> string) list \<Rightarrow> (int \<times> string) list"
  ping_order :: "(int \<times> time) list \<Rightarrow> (int \<times> time) list"
  lo_alloc :: "heap \<Rightarrow> nat"

definition env_ok :: "chat_env \<Rightarrow> bool" where
  "env_ok e \<longleftrightarrow> iteration_order (name_order e) \<and> iteration_order (ping_order e) \<and>
     (\<forall>h. lo_alloc e h \<notin> fst ` set h)"

text \<open>A message handed to the network: destination, OSC path, arguments.\<close>

type_synonym 'a send = "'a \<times> string \<times> osc_arg list"

text \<open>The constructor. The arrays are not initialised by it.\<close>

definition new_ChatServer :: "time \<Rightarrow> int \<Rightarrow> int \<Rightarrow> chat_server" where
  "new_ChatServer now timeout maxMessagesPerRequest =
     \<lparr>m_lastUpdateTime = now, m_userSerial = 0, m_nameMap = [], m_timeout = timeout,
      m_clientPings = [], m_maxMessagesPerRequest = maxMessagesPerRequest, m_messageSerial = 0,
      m_paths = replicate (nat kMessageArraySize) None,
      m_messages = replicate (nat kMessageArraySize) None, lo_heap = []\<rparr>"

section \<open>Message objects\<close>

definition lo_message_new :: "chat_env \<Rightarrow> chat_server \<Rightarrow> nat \<times> chat_server" where
  "lo_message_new e s =
     (let m = lo_alloc e (lo_heap s) in (m, s\<lparr>lo_heap := AList.update m [] (lo_heap s)\<rparr>))"

text \<open>\<open>lo_message_add_int32\<close> and \<open>lo_message_add_string\<close> on a message that is allocated.\<close>

definition lo_message_add :: "nat \<Rightarrow> osc_arg \<Rightarrow> chat_server \<Rightarrow> chat_server" where
  "lo_message_add m x s = s\<lparr>lo_heap := AList.map_entry m (\<lambda>xs. xs @ [x]) (lo_heap s)\<rparr>"

definition lo_message_free :: "nat \<Rightarrow> chat_server \<Rightarrow> fault + chat_server" where
  "lo_message_free m s =
     (if m \<in> fst ` set (lo_heap s) then Inr (s\<lparr>lo_heap := AList.delete m (lo_heap s)\<rparr>)
      else Inl DoubleFree)"

text \<open>A new message with its arguments added one after the other.\<close>

definition lo_build :: "chat_env \<Rightarrow> osc_arg list \<Rightarrow> chat_server \<Rightarrow> nat \<times> chat_server" where
  "lo_build e args s = (let (m, s) = lo_message_new e s in (m, fold (lo_message_add m) args s))"

section \<open>The ring of queued messages\<close>

definition queueMessage :: "string \<Rightarrow> nat \<Rightarrow> chat_server \<Rightarrow> fault + chat_server" where
  "queueMessage path message s =
     (let index = m_messageSerial s smod kMessageArraySize in
      rbind
        (if m_messageSerial s > kMessageArraySize
         then rbind (arr_at (m_messages s) index)
           (\<lambda>old. case old of None \<Rightarrow> Inl UninitRead | Some m \<Rightarrow> lo_message_free m s)
         else Inr s)
        (\<lambda>s. rbind (arr_set (m_paths s) index (Some path)) (\<lambda>paths.
             rbind (arr_set (m_messages s) index (Some message)) (\<lambda>messages.
             rbind (chk_i32 (m_messageSerial s + 1)) (\<lambda>serial.
               Inr (s\<lparr>m_paths := paths, m_messages := messages, m_messageSerial := serial\<rparr>))))))"

text \<open>The handlers build a message and queue it.\<close>

definition queueNew :: "chat_env \<Rightarrow> string \<Rightarrow> osc_arg list \<Rightarrow> chat_server \<Rightarrow> fault + chat_server" where
  "queueNew e path args s = (let (m, s) = lo_build e args s in queueMessage path m s)"

text \<open>One iteration of the reply loop: the stored path and message for a message id.\<close>

definition send_stored :: "'a \<Rightarrow> chat_server \<Rightarrow> int \<Rightarrow> fault + 'a send" where
  "send_stored address s i =
     (let index = i smod kMessageArraySize in
      rbind (arr_at (m_paths s) index) (\<lambda>path.
      rbind (arr_at (m_messages s) index) (\<lambda>message.
        case (path, message) of
          (Some p, Some m) \<Rightarrow>
            (case map_of (lo_heap s) m of
               None \<Rightarrow> Inl UseAfterFree
             | Some args \<Rightarrow> Inr (address, p, args))
        | _ \<Rightarrow> Inl UninitRead)))"

section \<open>The handlers\<close>

definition handleSignIn ::
    "chat_env \<Rightarrow> 'a \<Rightarrow> osc_arg list \<Rightarrow> chat_server \<Rightarrow> fault + chat_server \<times> 'a send list" where
  "handleSignIn e address args s =
     (case args of
        [LoString name] \<Rightarrow>
          rbind (chk_i32 (m_userSerial s + 1)) (\<lambda>userID.
            let s = s\<lparr>m_userSerial := userID\<rparr>;
                s = s\<lparr>m_nameMap := umap_assign userID name (m_nameMap s)\<rparr>;
                reply = (address, ''/chatSignInComplete'', [LoInt32 userID])
            in rbind (queueNew e ''/chatChangeClient''
                  [LoInt32 (m_messageSerial s), LoString ''add'', LoInt32 userID, LoString name] s)
                (\<lambda>s. Inr (s, [reply])))
      | _ \<Rightarrow> Inr (s, []))"

definition handleGetAllClients ::
    "chat_env \<Rightarrow> 'a \<Rightarrow> chat_server \<Rightarrow> fault + chat_server \<times> 'a send list" where
  "handleGetAllClients e address s =
     (let (clientNames, s1) =
            lo_build e (concat (map (\<lambda>(userID, name). [LoInt32 userID, LoString name])
              (name_order e (m_nameMap s)))) s
      in case map_of (lo_heap s1) clientNames of
           None \<Rightarrow> Inl UseAfterFree
         | Some reply \<Rightarrow>
             rbind (lo_message_free clientNames s1)
               (\<lambda>s2. Inr (s2, [(address, ''/chatSetAllClients'', reply)])))"

text \<open>Truncation of a request for too many messages.\<close>

definition truncate_request :: "int \<Rightarrow> chat_server \<Rightarrow> fault + int" where
  "truncate_request messageID s =
     rbind (chk_i32 (m_messageSerial s - messageID)) (\<lambda>count.
       if count > m_maxMessagesPerRequest s
       then rbind (chk_i32 (m_messageSerial s - m_maxMessagesPerRequest s)) (\<lambda>d.
            rbind (chk_i32 (d - 1)) (\<lambda>first. Inr (max 0 first)))
       else Inr messageID)"

text \<open>
  The loop over the clients' ping times. Erasing the current entry leaves the order of the
  others, so the loop visits the entries of the initial map in its iteration order.
\<close>

fun timeout_clients ::
    "chat_env \<Rightarrow> time \<Rightarrow> (int \<times> time) list \<Rightarrow> chat_server \<Rightarrow> fault + chat_server" where
  "timeout_clients e cutTime [] s = Inr s"
| "timeout_clients e cutTime ((client, ping) # rest) s =
     (if ping \<le> cutTime
      then rbind
        (case umap_find (m_nameMap s) client of
           Some name \<Rightarrow>
             rbind (queueNew e ''/chatChangeClient''
                 [LoInt32 (m_messageSerial s), LoString ''timeout'', LoInt32 client, LoString name] s)
               (\<lambda>s. Inr (s\<lparr>m_nameMap := umap_erase client (m_nameMap s)\<rparr>))
         | None \<Rightarrow> Inr s)
        (\<lambda>s. timeout_clients e cutTime rest
               (s\<lparr>m_clientPings := umap_erase client (m_clientPings s)\<rparr>))
      else timeout_clients e cutTime rest s)"

definition handleGetMessages ::
    "chat_env \<Rightarrow> time \<Rightarrow> 'a \<Rightarrow> osc_arg list \<Rightarrow> chat_server \<Rightarrow> fault + chat_server \<times> 'a send list" where
  "handleGetMessages e now address args s =
     (case args of
        [LoInt32 userID, LoInt32 requested] \<Rightarrow>
          rbind (truncate_request requested s) (\<lambda>messageID.
          rbind (chk_i32 (messageID + 1)) (\<lambda>first.
          rbind (rmap (send_stored address s) [first..m_messageSerial s - 1]) (\<lambda>sends.
            let s = s\<lparr>m_clientPings := umap_assign userID now (m_clientPings s)\<rparr>;
                cutTime = now - seconds (m_timeout s)
            in rbind (timeout_clients e cutTime (ping_order e (m_clientPings s)) s)
                 (\<lambda>s. Inr (s, sends)))))
      | _ \<Rightarrow> Inr (s, []))"

text \<open>
  Copying the arguments of a sent message. An argument of another type ends the handler: the
  message built so far is neither queued nor freed.
\<close>

fun copy_args :: "nat \<Rightarrow> osc_arg list \<Rightarrow> chat_server \<Rightarrow> bool \<times> chat_server" where
  "copy_args m [] s = (True, s)"
| "copy_args m (LoInt32 n # args) s = copy_args m args (lo_message_add m (LoInt32 n) s)"
| "copy_args m (LoString t # args) s = copy_args m args (lo_message_add m (LoString t) s)"
| "copy_args m (LoOther c # args) s = (False, s)"

definition handleSendMessage ::
    "chat_env \<Rightarrow> osc_arg list \<Rightarrow> chat_server \<Rightarrow> fault + chat_server \<times> 'a send list" where
  "handleSendMessage e args s =
     (let (chatMessage, s) = lo_message_new e s;
          s = lo_message_add chatMessage (LoInt32 (m_messageSerial s)) s;
          (supported, s) = copy_args chatMessage args s
      in if supported
         then rbind (queueMessage ''/chatReceive'' chatMessage s) (\<lambda>s. Inr (s, []))
         else Inr (s, []))"

definition handleChangeName ::
    "chat_env \<Rightarrow> osc_arg list \<Rightarrow> chat_server \<Rightarrow> fault + chat_server \<times> 'a send list" where
  "handleChangeName e args s =
     (case args of
        [LoInt32 userID, LoString name] \<Rightarrow>
          let s = s\<lparr>m_nameMap := umap_assign userID name (m_nameMap s)\<rparr>
          in rbind (queueNew e ''/chatChangeClient''
                [LoInt32 (m_messageSerial s), LoString ''rename'', LoInt32 userID, LoString name] s)
              (\<lambda>s. Inr (s, []))
      | _ \<Rightarrow> Inr (s, []))"

definition handleSignOut ::
    "chat_env \<Rightarrow> osc_arg list \<Rightarrow> chat_server \<Rightarrow> fault + chat_server \<times> 'a send list" where
  "handleSignOut e args s =
     (case args of
        [LoInt32 userID] \<Rightarrow>
          (case umap_find (m_nameMap s) userID of
             None \<Rightarrow> Inr (s, [])
           | Some name \<Rightarrow>
               rbind (queueNew e ''/chatChangeClient''
                   [LoInt32 (m_messageSerial s), LoString ''remove'', LoInt32 userID, LoString name] s)
                 (\<lambda>s. Inr (s\<lparr>m_nameMap := umap_erase userID (m_nameMap s)\<rparr>, [])))
      | _ \<Rightarrow> Inr (s, []))"

text \<open>
  An incoming message with the two clock readings its handler makes: one on entry, one in
  the \<open>/chatGetMessages\<close> branch.
\<close>

record 'a chat_event =
  ev_entry :: time
  ev_now :: time
  ev_path :: string
  ev_args :: "osc_arg list"
  ev_address :: 'a

definition handleMessage ::
    "chat_env \<Rightarrow> 'a chat_event \<Rightarrow> chat_server \<Rightarrow> fault + chat_server \<times> 'a send list" where
  "handleMessage e ev s =
     (let s = (if ev_entry ev - m_lastUpdateTime s > seconds 60
               then s\<lparr>m_lastUpdateTime := ev_entry ev\<rparr> else s)
      in case getCommandNamed (ev_path ev) of
           kSignIn \<Rightarrow> handleSignIn e (ev_address ev) (ev_args ev) s
         | kGetAllClients \<Rightarrow> handleGetAllClients e (ev_address ev) s
         | kGetMessages \<Rightarrow> handleGetMessages e (ev_now ev) (ev_address ev) (ev_args ev) s
         | kSendMessage \<Rightarrow> handleSendMessage e (ev_args ev) s
         | kChangeName \<Rightarrow> handleChangeName e (ev_args ev) s
         | kSignOut \<Rightarrow> handleSignOut e (ev_args ev) s
         | kNotFound \<Rightarrow> Inr (s, []))"

text \<open>The dispatcher thread handles one message at a time.\<close>

fun chat_run ::
    "chat_env \<Rightarrow> 'a chat_event list \<Rightarrow> chat_server \<Rightarrow> fault + chat_server \<times> 'a send list" where
  "chat_run e [] s = Inr (s, [])"
| "chat_run e (ev # evs) s =
     rbind (handleMessage e ev s) (\<lambda>(s, sends).
     rbind (chat_run e evs s) (\<lambda>(s, more). Inr (s, sends @ more)))"

end
