(* ===== verification/Chat_Ring.thy ===== *)
theory Chat_Ring
  imports Chat_Server
begin

text \<open>
  The ring of queued messages as a bounded log. \<open>ring_ok k log s\<close> relates the server's
  slots and message store to the unbounded log of everything queued so far, with \<open>k\<close> the
  number of messages abandoned by \<open>/chatSendMessage\<close>: the last 128 entries can be read
  back, the slots of those entries own distinct live messages, and the number of live
  messages is known exactly. Queueing appends to the log; the locale \<open>bounded_log\<close> states
  that contract and derives what the reply and timeout loops need.
\<close>

section \<open>The contract\<close>

locale bounded_log =
  fixes holds :: "'e list \<Rightarrow> 's \<Rightarrow> bool"
    and append_entry :: "'e \<Rightarrow> 's \<Rightarrow> fault + 's"
    and read_entry :: "'s \<Rightarrow> int \<Rightarrow> fault + 'e"
    and capacity :: nat
    and limit :: nat
  assumes append_ok:
      "holds log s \<Longrightarrow> length log < limit \<Longrightarrow> \<exists>s'. append_entry x s = Inr s' \<and> holds (log @ [x]) s'"
    and read_ok:
      "holds log s \<Longrightarrow> n < length log \<Longrightarrow> length log \<le> n + capacity \<Longrightarrow>
        read_entry s (int n) = Inr (log ! n)"
begin

lemma append_all_ok:
  "holds log s \<Longrightarrow> length log + length xs \<le> limit \<Longrightarrow>
    \<exists>s'. rfold append_entry xs s = Inr s' \<and> holds (log @ xs) s'"
proof (induction xs arbitrary: log s)
  case Nil
  then show ?case by simp
next
  case (Cons x xs)
  then obtain u where u: "append_entry x s = Inr u" "holds (log @ [x]) u"
    using append_ok [of log s x] by auto
  with Cons.IH [of "log @ [x]" u] Cons.prems show ?case by simp
qed

lemma read_range:
  assumes "holds log s" and "int (length log) - int capacity \<le> lo" and "0 \<le> lo"
  shows "rmap (read_entry s) [lo..int (length log) - 1] = Inr (drop (nat lo) log)"
proof -
  have "rmap (read_entry s) [lo..int (length log) - 1]
      = Inr (map (\<lambda>i. log ! nat i) [lo..int (length log) - 1])"
  proof (rule rmap_Inr)
    fix i
    assume "i \<in> set [lo..int (length log) - 1]"
    then have "nat i < length log" "length log \<le> nat i + capacity" "0 \<le> i"
      using assms(2,3) by auto
    with read_ok [OF assms(1), of "nat i"] show "read_entry s i = Inr (log ! nat i)"
      by simp
  qed
  moreover have "map (\<lambda>i. log ! nat i) [lo..int (length log) - 1] = drop (nat lo) log"
    using assms(3) by (intro nth_equalityI) (auto simp: nat_add_distrib)
  ultimately show ?thesis by simp
qed

end

section \<open>The message store\<close>

lemma map_entry_fresh:
  "m \<notin> fst ` set h \<Longrightarrow> AList.map_entry m f (h @ [(m, xs)]) = h @ [(m, f xs)]"
  by (induction h) auto

lemma update_fresh: "m \<notin> fst ` set h \<Longrightarrow> AList.update m xs h = h @ [(m, xs)]"
  by (induction h) auto

lemma delete_append: "AList.delete m (h @ h') = AList.delete m h @ AList.delete m h'"
  by (simp add: AList.delete_eq)

lemma length_delete_distinct:
  "distinct (map fst h) \<Longrightarrow> m \<in> fst ` set h \<Longrightarrow> Suc (length (AList.delete m h)) = length h"
proof (induction h)
  case (Cons x h)
  then show ?case by (cases "fst x = m") (auto simp: delete_id)
qed simp

text \<open>The server state with one more live message.\<close>

definition with_message :: "nat \<Rightarrow> osc_arg list \<Rightarrow> chat_server \<Rightarrow> chat_server" where
  "with_message m args s = s\<lparr>lo_heap := lo_heap s @ [(m, args)]\<rparr>"

definition fresh_message :: "chat_env \<Rightarrow> chat_server \<Rightarrow> nat" where
  "fresh_message e s = lo_alloc e (lo_heap s)"

lemma fresh_message_notin: "env_ok e \<Longrightarrow> fresh_message e s \<notin> fst ` set (lo_heap s)"
  by (simp add: env_ok_def fresh_message_def)

lemma add_to_message:
  "m \<notin> fst ` set (lo_heap s) \<Longrightarrow>
    lo_message_add m x (with_message m xs s) = with_message m (xs @ [x]) s"
  by (simp add: lo_message_add_def with_message_def map_entry_fresh)

lemma lo_message_new_eq:
  "env_ok e \<Longrightarrow> lo_message_new e s = (fresh_message e s, with_message (fresh_message e s) [] s)"
  using fresh_message_notin [of e s]
  by (simp add: lo_message_new_def with_message_def fresh_message_def update_fresh Let_def)

lemma fold_add_to_message:
  "m \<notin> fst ` set (lo_heap s) \<Longrightarrow>
    fold (lo_message_add m) args (with_message m xs s) = with_message m (xs @ args) s"
  by (induction args arbitrary: xs) (simp_all add: add_to_message)

lemma lo_build_eq:
  "env_ok e \<Longrightarrow> lo_build e args s = (fresh_message e s, with_message (fresh_message e s) args s)"
  by (simp add: lo_build_def lo_message_new_eq fold_add_to_message fresh_message_notin)

lemma queueNew_eq:
  "env_ok e \<Longrightarrow> queueNew e path args s =
    queueMessage path (fresh_message e s) (with_message (fresh_message e s) args s)"
  by (simp add: queueNew_def lo_build_eq)

text \<open>The part of the state that queueing leaves alone.\<close>

definition ring_frame :: "chat_server \<Rightarrow> chat_server \<Rightarrow> bool" where
  "ring_frame s s' \<longleftrightarrow>
     m_lastUpdateTime s' = m_lastUpdateTime s \<and> m_userSerial s' = m_userSerial s \<and>
     m_nameMap s' = m_nameMap s \<and> m_timeout s' = m_timeout s \<and>
     m_clientPings s' = m_clientPings s \<and>
     m_maxMessagesPerRequest s' = m_maxMessagesPerRequest s"

section \<open>The ring as a log\<close>

type_synonym entry = "string \<times> osc_arg list"

definition window :: "nat \<Rightarrow> nat set" where
  "window len = {n. n < len \<and> len \<le> n + 128}"

definition slot :: "chat_server \<Rightarrow> nat \<Rightarrow> nat option" where
  "slot s n = m_messages s ! (n mod 128)"

definition slot_holds :: "chat_server \<Rightarrow> nat \<Rightarrow> entry \<Rightarrow> bool" where
  "slot_holds s n x \<longleftrightarrow>
     m_paths s ! (n mod 128) = Some (fst x) \<and>
     (\<exists>m. slot s n = Some m \<and> map_of (lo_heap s) m = Some (snd x))"

definition ring_ok :: "nat \<Rightarrow> entry list \<Rightarrow> chat_server \<Rightarrow> bool" where
  "ring_ok k log s \<longleftrightarrow>
     m_messageSerial s = int (length log) \<and> in_i32 (int (length log)) \<and>
     length (m_paths s) = 128 \<and> length (m_messages s) = 128 \<and>
     distinct (map fst (lo_heap s)) \<and>
     length (lo_heap s) = min (length log) 129 + k \<and>
     (\<forall>n \<in> window (length log). slot_holds s n (log ! n)) \<and>
     inj_on (slot s) (window (length log))"

lemma ring_ok_cong:
  "m_messageSerial t = m_messageSerial s \<Longrightarrow> m_paths t = m_paths s \<Longrightarrow>
    m_messages t = m_messages s \<Longrightarrow> lo_heap t = lo_heap s \<Longrightarrow> ring_ok k log t = ring_ok k log s"
  by (simp add: ring_ok_def slot_holds_def slot_def [abs_def])

lemma ring_ok_new: "ring_ok 0 [] (new_ChatServer now timeout maxMessages)"
  by (simp add: ring_ok_def new_ChatServer_def kMessageArraySize_def window_def in_i32_def)

lemma window_mod_neq:
  assumes "n < len" and "len < n + 128"
  shows "n mod 128 \<noteq> len mod (128::nat)"
proof
  assume "n mod 128 = len mod (128::nat)"
  then have "128 dvd len - n"
    using assms(1) by (metis less_or_eq_imp_le mod_eq_dvd_iff_nat)
  with assms show False by (auto dest!: dvd_imp_le)
qed

lemma serial_index:
  "int len smod kMessageArraySize = int (len mod 128)" "int len smod 128 = int (len mod 128)"
  by (simp_all add: kMessageArraySize_def smod_nonneg zmod_int)

text \<open>The message displaced from a full ring is live and is not needed by the others.\<close>

lemma displaced_message:
  assumes "ring_ok k log s" and "128 < length log"
  obtains m args where "slot s (length log) = Some m" "map_of (lo_heap s) m = Some args"
    "\<And>n. n \<in> window (length log) \<Longrightarrow> length log < n + 128 \<Longrightarrow> slot s n \<noteq> Some m"
proof -
  define n0 where "n0 = length log - 128"
  have n0: "n0 \<in> window (length log)" "n0 mod 128 = length log mod 128"
    using assms(2) by (auto simp: window_def n0_def mod_if [of "length log"] le_mod_geq)
  with assms(1) obtain m where m: "slot s n0 = Some m"
    "map_of (lo_heap s) m = Some (snd (log ! n0))"
    by (auto simp: ring_ok_def slot_holds_def)
  have "slot s n \<noteq> Some m" if "n \<in> window (length log)" "length log < n + 128" for n
  proof
    assume "slot s n = Some m"
    with m(1) assms(1) n0(1) that(1) have "n = n0"
      by (metis inj_onD ring_ok_def)
    with that(2) assms(2) show False by (simp add: n0_def)
  qed
  moreover have "slot s (length log) = Some m"
    using m(1) n0(2) by (simp add: slot_def)
  ultimately show thesis using that m(2) by blast
qed

text \<open>Writing the next slot, once the displaced message is gone from the store.\<close>

definition write_slot :: "string \<Rightarrow> nat \<Rightarrow> osc_arg list \<Rightarrow> heap \<Rightarrow> nat \<Rightarrow> chat_server \<Rightarrow> chat_server" where
  "write_slot path m args h len s =
     s\<lparr>lo_heap := h @ [(m, args)], m_paths := (m_paths s)[len mod 128 := Some path],
       m_messages := (m_messages s)[len mod 128 := Some m], m_messageSerial := int len + 1\<rparr>"

lemma slot_write_slot:
  assumes "length (m_messages s) = 128"
  shows "slot (write_slot path m args h L s) L = Some m"
    and "n mod 128 \<noteq> L mod 128 \<Longrightarrow> slot (write_slot path m args h L s) n = slot s n"
  using assms by (simp_all add: slot_def write_slot_def)

text \<open>An older message of the window keeps its place when the next one is written.\<close>

lemma window_older:
  assumes "n \<in> window (Suc L)" "n \<noteq> L"
  shows "n \<in> window L" "L < n + 128" "n mod 128 \<noteq> L mod 128"
  using assms window_mod_neq [of n L] by (auto simp: window_def)

lemma inj_slot_write_slot:
  assumes "inj_on (slot s) (window L)" "length (m_messages s) = 128"
    and "\<And>n. n \<in> window L \<Longrightarrow> slot s n \<noteq> Some m"
  shows "inj_on (slot (write_slot path m args h L s)) (window (Suc L))"
proof (rule inj_onI)
  let ?t = "write_slot path m args h L s"
  fix x y
  assume xy: "x \<in> window (Suc L)" "y \<in> window (Suc L)" "slot ?t x = slot ?t y"
  note new = slot_write_slot(1) [OF assms(2), of path m args h L]
  have old: "slot ?t n = slot s n" if "n \<in> window (Suc L)" "n \<noteq> L" for n
    using slot_write_slot(2) [OF assms(2)] window_older(3) [OF that] .
  show "x = y"
  proof (cases "x = L \<or> y = L")
    case True
    then show ?thesis using xy old new window_older(1) assms(3) by metis
  next
    case False
    then show ?thesis using xy old window_older(1) assms(1) by (metis inj_onD)
  qed
qed

lemma ring_ok_write_slot:
  assumes ring: "ring_ok k log s" and room: "in_i32 (int (length log) + 1)"
    and fresh: "m \<notin> fst ` set (lo_heap s)"
    and sub: "fst ` set h \<subseteq> fst ` set (lo_heap s)" "distinct (map fst h)"
    and size: "Suc (length h) = min (Suc (length log)) 129 + k"
    and kept: "\<And>n a. n \<in> window (length log) \<Longrightarrow> length log < n + 128 \<Longrightarrow> slot s n = Some a \<Longrightarrow>
      map_of h a = map_of (lo_heap s) a"
  shows "ring_ok k (log @ [(path, args)]) (write_slot path m args h (length log) s)"
    (is "ring_ok k ?log ?t")
proof -
  let ?L = "length log"
  have len: "length (m_paths s) = 128" "length (m_messages s) = 128"
    using ring by (simp_all add: ring_ok_def)
  note old = window_older [of _ ?L]
  have slot_old: "slot ?t n = slot s n" if "n \<in> window (Suc ?L)" "n \<noteq> ?L" for n
    using slot_write_slot(2) [OF len(2)] old(3) [OF that] .
  note slot_new = slot_write_slot(1) [OF len(2), of path m args h ?L]
  have live: "a \<noteq> m" if "n \<in> window ?L" "slot s n = Some a" for n a
  proof -
    from ring that have "map_of (lo_heap s) a = Some (snd (log ! n))"
      by (auto simp: ring_ok_def slot_holds_def)
    then show ?thesis using fresh by (metis dom_map_of_conv_image_fst domI)
  qed
  have gone: "map_of h m = None"
    using fresh sub(1) by (auto simp: map_of_eq_None_iff)
  have holds: "slot_holds ?t n (?log ! n)" if n: "n \<in> window (Suc ?L)" for n
  proof (cases "n = ?L")
    case True
    then show ?thesis
      using len slot_new gone by (auto simp: slot_holds_def write_slot_def map_add_def)
  next
    case False
    have "slot_holds s n (log ! n)"
      using ring old(1) [OF n False] by (simp add: ring_ok_def)
    then obtain a where a: "m_paths s ! (n mod 128) = Some (fst (log ! n))"
      "slot s n = Some a" "map_of (lo_heap s) a = Some (snd (log ! n))"
      by (auto simp: slot_holds_def)
    have "map_of (h @ [(m, args)]) a = Some (snd (log ! n))"
      using kept [OF old(1,2) [OF n False] a(2)] a(3) by (simp add: map_add_Some_iff)
    moreover have "?log ! n = log ! n"
      using n False by (auto simp: window_def nth_append)
    ultimately show ?thesis
      using a old [OF n False] slot_old [OF n False]
      by (auto simp: slot_holds_def write_slot_def)
  qed
  have "inj_on (slot ?t) (window (Suc ?L))"
    using ring live by (intro inj_slot_write_slot [OF _ len(2)]) (auto simp: ring_ok_def)
  moreover have "in_i32 (1 + int ?L)" using room by (simp add: add.commute)
  ultimately show ?thesis
    using ring sub size len holds fresh
    by (auto simp: ring_ok_def write_slot_def slot_holds_def slot_def [abs_def])
qed

text \<open>Queueing a message that is in the store but in no slot.\<close>

lemma queueMessage_ok:
  assumes ring: "ring_ok k log s" and room: "in_i32 (int (length log) + 1)"
    and fresh: "m \<notin> fst ` set (lo_heap s)"
  shows "\<exists>s'. queueMessage path m (with_message m args s) = Inr s' \<and>
    ring_ok k (log @ [(path, args)]) s' \<and> ring_frame s s'"
proof -
  let ?L = "length log"
  have len: "length (m_paths s) = 128" "length (m_messages s) = 128"
    and serial: "m_messageSerial s = int ?L"
    using ring by (simp_all add: ring_ok_def)
  obtain h where h: "queueMessage path m (with_message m args s) = Inr (write_slot path m args h ?L s)"
    "ring_ok k (log @ [(path, args)]) (write_slot path m args h ?L s)"
  proof (cases "128 < ?L")
    case True
    from displaced_message [OF ring True] obtain d old where
      d: "slot s ?L = Some d" "map_of (lo_heap s) d = Some old" and
      others: "\<And>n. n \<in> window ?L \<Longrightarrow> ?L < n + 128 \<Longrightarrow> slot s n \<noteq> Some d"
      by blast
    have d_in: "d \<in> fst ` set (lo_heap s)" and dm: "d \<noteq> m"
      using d(2) fresh by (metis dom_map_of_conv_image_fst domI)+
    let ?h = "AList.delete d (lo_heap s)"
    have "queueMessage path m (with_message m args s) = Inr (write_slot path m args ?h ?L s)"
      using True d dm d_in room len serial
      by (simp add: queueMessage_def serial_index arr_at_def arr_set_def lo_message_free_def
          with_message_def slot_def write_slot_def delete_append kMessageArraySize_def)
    moreover have "Suc (length ?h) = min (Suc ?L) 129 + k"
      using length_delete_distinct [OF _ d_in] ring True by (simp add: ring_ok_def)
    then have "ring_ok k (log @ [(path, args)]) (write_slot path m args ?h ?L s)"
      using others ring
      by (intro ring_ok_write_slot [OF ring room fresh dom_delete_subset])
        (auto simp: ring_ok_def delete_conv' distinct_delete)
    ultimately show thesis using that by blast
  next
    case False
    have "queueMessage path m (with_message m args s)
        = Inr (write_slot path m args (lo_heap s) ?L s)"
      using False room len serial
      by (simp add: queueMessage_def serial_index arr_set_def
          with_message_def write_slot_def kMessageArraySize_def)
    moreover have "ring_ok k (log @ [(path, args)]) (write_slot path m args (lo_heap s) ?L s)"
      using ring False by (intro ring_ok_write_slot [OF ring room fresh]) (auto simp: ring_ok_def)
    ultimately show thesis using that by blast
  qed
  then show ?thesis by (auto simp: ring_frame_def write_slot_def)
qed

lemma queueNew_ok:
  assumes "env_ok e" and "ring_ok k log s" and "in_i32 (int (length log) + 1)"
  shows "\<exists>s'. queueNew e path args s = Inr s' \<and>
    ring_ok k (log @ [(path, args)]) s' \<and> ring_frame s s'"
  using assms by (simp add: queueNew_eq queueMessage_ok fresh_message_notin)

text \<open>Reading a slot whose entry is still in the window.\<close>

lemma send_stored_ok:
  assumes "ring_ok k log s" and "n < length log" and "length log \<le> n + 128"
  shows "send_stored address s (int n) = Inr (address, log ! n)"
proof -
  from assms obtain m where "m_paths s ! (n mod 128) = Some (fst (log ! n))"
    "m_messages s ! (n mod 128) = Some m" "map_of (lo_heap s) m = Some (snd (log ! n))"
    by (auto simp: ring_ok_def slot_holds_def slot_def window_def)
  with assms show ?thesis
    by (simp add: send_stored_def serial_index arr_at_def ring_ok_def)
qed

text \<open>A message that is built and dropped stays in the store.\<close>

lemma ring_ok_abandon:
  assumes "ring_ok k log s" and fresh: "m \<notin> fst ` set (lo_heap s)"
  shows "ring_ok (Suc k) log (with_message m xs s)"
proof -
  have "map_of (lo_heap s @ [(m, xs)]) a = Some y" if "map_of (lo_heap s) a = Some y" for a y
    using that by (simp add: map_add_Some_iff)
  with assms show ?thesis
    by (fastforce simp: ring_ok_def with_message_def slot_holds_def slot_def [abs_def])
qed

section \<open>The ring implements the contract\<close>

text \<open>
  One entry of the log is a queued message; reading is the body of the reply loop for a
  fixed destination. The serial number is a 32-bit \<open>int\<close>, so the log is limited.
\<close>

definition max_serial :: nat where
  "max_serial = 2 ^ 31 - 1"

definition ring_holds :: "chat_env \<Rightarrow> nat \<Rightarrow> entry list \<Rightarrow> chat_server \<Rightarrow> bool" where
  "ring_holds e k log s \<longleftrightarrow> env_ok e \<and> ring_ok k log s"

definition read_slot :: "chat_server \<Rightarrow> int \<Rightarrow> fault + entry" where
  "read_slot s i = rbind (send_stored () s i) (\<lambda>r. Inr (snd r))"

lemma in_i32_max_serial: "n < max_serial \<Longrightarrow> in_i32 (int n + 1)"
  by (simp add: in_i32_def max_serial_def)

interpretation ring: bounded_log "ring_holds e k" "\<lambda>(path, args). queueNew e path args" read_slot 128 max_serial
  for e k
proof
  fix log s x
  assume "ring_holds e k log s" "length log < max_serial"
  then show "\<exists>s'. (case x of (path, args) \<Rightarrow> queueNew e path args) s = Inr s' \<and>
      ring_holds e k (log @ [x]) s'"
    using queueNew_ok [of e k log s "fst x" "snd x"] in_i32_max_serial
    by (auto simp: ring_holds_def split: prod.split)
next
  fix log s n
  assume "ring_holds e k log s" "n < length log" "length log \<le> n + 128"
  then show "read_slot s (int n) = Inr (log ! n)"
    using send_stored_ok [of k log s n "()"] by (simp add: ring_holds_def read_slot_def)
qed

end
