(* ===== verification/Chat_Spec.thy ===== *)
theory Chat_Spec
  imports Chat_Ring
begin

text \<open>
  What the chat server promises, without slots, pointers or hash maps: a log of all
  messages ever queued, the signed-in names, the last ping of each client. The steps are an
  inductive relation, because the order in which clients are listed or timed out is not
  determined. The lemmas show that every call of \<open>handleMessage\<close> that returns is a step of
  this machine, and give the conditions under which it returns.
\<close>

section \<open>The abstract server\<close>

record chat_spec =
  sp_users :: int
  sp_names :: "int \<rightharpoonup> string"
  sp_pings :: "int \<rightharpoonup> time"
  sp_log :: "entry list"
  sp_abandoned :: nat

definition init_spec :: chat_spec where
  "init_spec = \<lparr>sp_users = 0, sp_names = Map.empty, sp_pings = Map.empty, sp_log = [],
     sp_abandoned = 0\<rparr>"

text \<open>A \<open>/chatChangeClient\<close> announcement, stamped with its position in the log.\<close>

definition announce :: "string \<Rightarrow> int \<times> string \<Rightarrow> entry list \<Rightarrow> entry list" where
  "announce kind client log =
     log @ [(''/chatChangeClient'',
       [LoInt32 (int (length log)), LoString kind, LoInt32 (fst client), LoString (snd client)])]"

definition announce_all :: "string \<Rightarrow> (int \<times> string) list \<Rightarrow> entry list \<Rightarrow> entry list" where
  "announce_all kind clients log = foldl (\<lambda>log client. announce kind client log) log clients"

text \<open>The id of the first message sent in reply to \<open>/chatGetMessages userID messageID\<close>.\<close>

definition first_reply :: "int \<Rightarrow> nat \<Rightarrow> int \<Rightarrow> int" where
  "first_reply max_messages len messageID =
     (if int len - messageID > max_messages then max 0 (int len - max_messages - 1) else messageID) + 1"

definition supported :: "osc_arg list \<Rightarrow> bool" where
  "supported args \<longleftrightarrow> (\<forall>x \<in> set args. \<forall>c. x \<noteq> LoOther c)"

definition stale :: "time \<Rightarrow> (int \<rightharpoonup> time) \<Rightarrow> int set" where
  "stale cutTime pings = {c. \<exists>t. pings c = Some t \<and> t \<le> cutTime}"

definition listing :: "(int \<times> string) list \<Rightarrow> osc_arg list" where
  "listing names = concat (map (\<lambda>(userID, name). [LoInt32 userID, LoString name]) names)"

text \<open>Events that change nothing and get no reply.\<close>

definition ignored :: "'a chat_event \<Rightarrow> (int \<rightharpoonup> string) \<Rightarrow> bool" where
  "ignored ev names \<longleftrightarrow>
     (case getCommandNamed (ev_path ev) of
        kSignIn \<Rightarrow> (\<nexists>name. ev_args ev = [LoString name])
      | kGetAllClients \<Rightarrow> False
      | kGetMessages \<Rightarrow> (\<nexists>u m. ev_args ev = [LoInt32 u, LoInt32 m])
      | kSendMessage \<Rightarrow> False
      | kChangeName \<Rightarrow> (\<nexists>u name. ev_args ev = [LoInt32 u, LoString name])
      | kSignOut \<Rightarrow> (\<nexists>u. ev_args ev = [LoInt32 u] \<and> u \<in> dom names)
      | kNotFound \<Rightarrow> True)"

inductive spec_step ::
    "int \<Rightarrow> int \<Rightarrow> 'a chat_event \<Rightarrow> chat_spec \<Rightarrow> chat_spec \<Rightarrow> 'a send list \<Rightarrow> bool"
  for timeout max_messages :: int and ev :: "'a chat_event" where
  step_ignored: "ignored ev (sp_names a) \<Longrightarrow> spec_step timeout max_messages ev a a []"
| step_sign_in:
    "getCommandNamed (ev_path ev) = kSignIn \<Longrightarrow> ev_args ev = [LoString name] \<Longrightarrow>
     u = sp_users a + 1 \<Longrightarrow>
     spec_step timeout max_messages ev a
       (a\<lparr>sp_users := u, sp_names := (sp_names a)(u \<mapsto> name),
          sp_log := announce ''add'' (u, name) (sp_log a)\<rparr>)
       [(ev_address ev, ''/chatSignInComplete'', [LoInt32 u])]"
| step_get_all:
    "getCommandNamed (ev_path ev) = kGetAllClients \<Longrightarrow>
     distinct (map fst names) \<Longrightarrow> map_of names = sp_names a \<Longrightarrow>
     spec_step timeout max_messages ev a a
       [(ev_address ev, ''/chatSetAllClients'', listing names)]"
| step_get_messages:
    "getCommandNamed (ev_path ev) = kGetMessages \<Longrightarrow> ev_args ev = [LoInt32 u, LoInt32 m] \<Longrightarrow>
     pings = (sp_pings a)(u \<mapsto> ev_now ev) \<Longrightarrow>
     gone = stale (ev_now ev - seconds timeout) pings \<Longrightarrow>
     distinct (map fst leaving) \<Longrightarrow> map_of leaving = sp_names a |` gone \<Longrightarrow>
     first = first_reply max_messages (length (sp_log a)) m \<Longrightarrow> 0 \<le> first \<Longrightarrow>
     spec_step timeout max_messages ev a
       (a\<lparr>sp_names := sp_names a |` (- gone), sp_pings := pings |` (- gone),
          sp_log := announce_all ''timeout'' leaving (sp_log a)\<rparr>)
       (map (Pair (ev_address ev)) (drop (nat first) (sp_log a)))"
| step_send:
    "getCommandNamed (ev_path ev) = kSendMessage \<Longrightarrow> supported (ev_args ev) \<Longrightarrow>
     spec_step timeout max_messages ev a
       (a\<lparr>sp_log := sp_log a @
          [(''/chatReceive'', LoInt32 (int (length (sp_log a))) # ev_args ev)]\<rparr>) []"
| step_abandon:
    "getCommandNamed (ev_path ev) = kSendMessage \<Longrightarrow> \<not> supported (ev_args ev) \<Longrightarrow>
     spec_step timeout max_messages ev a (a\<lparr>sp_abandoned := Suc (sp_abandoned a)\<rparr>) []"
| step_change_name:
    "getCommandNamed (ev_path ev) = kChangeName \<Longrightarrow> ev_args ev = [LoInt32 u, LoString name] \<Longrightarrow>
     spec_step timeout max_messages ev a
       (a\<lparr>sp_names := (sp_names a)(u \<mapsto> name),
          sp_log := announce ''rename'' (u, name) (sp_log a)\<rparr>) []"
| step_sign_out:
    "getCommandNamed (ev_path ev) = kSignOut \<Longrightarrow> ev_args ev = [LoInt32 u] \<Longrightarrow>
     sp_names a u = Some name \<Longrightarrow>
     spec_step timeout max_messages ev a
       (a\<lparr>sp_names := (sp_names a)(u := None),
          sp_log := announce ''remove'' (u, name) (sp_log a)\<rparr>) []"

inductive spec_run ::
    "int \<Rightarrow> int \<Rightarrow> 'a chat_event list \<Rightarrow> chat_spec \<Rightarrow> chat_spec \<Rightarrow> 'a send list \<Rightarrow> bool"
  for timeout max_messages :: int where
  run_done: "spec_run timeout max_messages [] a a []"
| run_step: "spec_step timeout max_messages ev a b out \<Longrightarrow> spec_run timeout max_messages evs b c out' \<Longrightarrow>
    spec_run timeout max_messages (ev # evs) a c (out @ out')"

inductive_cases spec_run_NilE: "spec_run timeout max_messages [] a b out"
inductive_cases spec_run_ConsE: "spec_run timeout max_messages (ev # evs) a b out"

section \<open>The refinement relation\<close>

definition chat_refines :: "chat_env \<Rightarrow> chat_spec \<Rightarrow> chat_server \<Rightarrow> bool" where
  "chat_refines e a s \<longleftrightarrow>
     ring_holds e (sp_abandoned a) (sp_log a) s \<and> m_userSerial s = sp_users a \<and>
     umap_ok (m_nameMap s) \<and> map_of (m_nameMap s) = sp_names a \<and>
     umap_ok (m_clientPings s) \<and> map_of (m_clientPings s) = sp_pings a"

lemma chat_refines_new: "env_ok e \<Longrightarrow> chat_refines e init_spec (new_ChatServer now timeout maxm)"
  using ring_ok_new [of now timeout maxm]
  by (simp add: chat_refines_def init_spec_def ring_holds_def) (simp add: new_ChatServer_def)

lemma chat_refines_last_update:
  "chat_refines e a (s\<lparr>m_lastUpdateTime := t\<rparr>) = chat_refines e a s"
  by (simp add: chat_refines_def ring_holds_def ring_ok_cong [of "s\<lparr>m_lastUpdateTime := t\<rparr>" s])

lemma queueMessage_serial: "queueMessage path m s = Inr s' \<Longrightarrow> in_i32 (m_messageSerial s + 1)"
  by (auto simp: queueMessage_def fault_simps Let_def lo_message_free_def
      split: if_splits option.splits)

text \<open>Queueing an announcement from related states.\<close>

lemma queue_entry:
  assumes "ring_holds e k log s" and "queueNew e path args s = Inr s'"
  shows "ring_holds e k (log @ [(path, args)]) s' \<and> ring_frame s s'"
proof -
  have e: "env_ok e" and ring: "ring_ok k log s"
    using assms(1) by (simp_all add: ring_holds_def)
  have "in_i32 (m_messageSerial s + 1)"
    using queueMessage_serial assms(2) queueNew_eq [OF e]
    by (metis chat_server.select_convs(7) chat_server.surjective chat_server.update_convs(10) with_message_def)
  then have "in_i32 (int (length log) + 1)"
    using ring by (simp add: ring_ok_def)
  from queueNew_ok [OF e ring this, of path args] assms(2) e show ?thesis
    by (auto simp: ring_holds_def)
qed

section \<open>The reply loop\<close>

lemma send_stored_read_slot:
  "send_stored address s i = rbind (read_slot s i) (\<lambda>x. Inr (address, x))"
  by (cases "arr_at (m_paths s) (i smod kMessageArraySize)";
      cases "arr_at (m_messages s) (i smod kMessageArraySize)")
    (auto simp: read_slot_def send_stored_def Let_def split: option.split)

lemma send_stored_negative:
  "send_stored address s (- 1) = Inl OutOfBounds"
  by (simp add: send_stored_def arr_at_def kMessageArraySize_def signed_modulo_int_def)

text \<open>
  The loop over the requested ids: with at most 128 messages per request it returns exactly
  the tail of the log, and a negative first id is an access outside the array.
\<close>

lemma reply_loop:
  assumes "ring_holds e k log s"
    and "int (length log) - 128 \<le> first"
    and "rmap (send_stored address s) [first..m_messageSerial s - 1] = Inr sends"
  shows "0 \<le> first \<and> sends = map (Pair address) (drop (nat first) log)"
proof -
  have serial: "m_messageSerial s = int (length log)"
    using assms(1) by (simp add: ring_holds_def ring_ok_def)
  have "0 \<le> first"
  proof (rule ccontr)
    assume "\<not> 0 \<le> first"
    then have "- 1 \<in> set [first..m_messageSerial s - 1]" using serial by simp
    from rmap_Inl [OF this, of "send_stored address s"] send_stored_negative assms(3)
    show False by fastforce
  qed
  moreover have "rmap (send_stored address s) [first..m_messageSerial s - 1]
      = Inr (map (Pair address) (drop (nat first) log))"
    using ring.read_range [OF assms(1)] assms(2) calculation serial
    by (simp add: rmap_bind [OF send_stored_read_slot])
  ultimately show ?thesis using assms(3) by simp
qed

lemma truncate_request_Inr:
  "truncate_request m s = Inr m' \<Longrightarrow>
    m' + 1 = (if m_messageSerial s - m > m_maxMessagesPerRequest s
      then max 0 (m_messageSerial s - m_maxMessagesPerRequest s - 1) else m) + 1"
  by (auto simp: truncate_request_def fault_simps split: if_splits)

lemma first_reply_window:
  "0 \<le> max_messages \<Longrightarrow> max_messages \<le> 128 \<Longrightarrow> int len - 128 \<le> first_reply max_messages len m"
  by (auto simp: first_reply_def)

section \<open>The timeout loop\<close>

text \<open>The clients that leave, in the order in which the loop meets them.\<close>

fun leaving :: "time \<Rightarrow> (int \<times> time) list \<Rightarrow> (int \<rightharpoonup> string) \<Rightarrow> (int \<times> string) list" where
  "leaving cutTime [] names = []"
| "leaving cutTime ((c, t) # pings) names =
     (if t \<le> cutTime
      then (case names c of None \<Rightarrow> [] | Some n \<Rightarrow> [(c, n)]) @
        leaving cutTime pings (names(c := None))
      else leaving cutTime pings names)"

lemma leaving_dom: "fst ` set (leaving cutTime pings names) \<subseteq> fst ` set pings \<inter> dom names"
proof (induction pings arbitrary: names)
  case (Cons p pings)
  obtain c t where "p = (c, t)" by (cases p)
  define rest where "rest = leaving cutTime pings (names(c := None))"
  have "fst ` set rest \<subseteq> fst ` set pings \<inter> (dom names - {c})"
    using Cons.IH [of "names(c := None)"] unfolding rest_def by (simp only: dom_fun_upd simp_thms if_True)
  with Cons.IH [of names] \<open>p = (c, t)\<close> show ?case
    by (cases "names c") (auto simp: rest_def [symmetric])
qed simp

lemma leaving_spec:
  "distinct (map fst pings) \<Longrightarrow>
    distinct (map fst (leaving cutTime pings names)) \<and>
    map_of (leaving cutTime pings names) = names |` stale cutTime (map_of pings)"
proof (induction pings arbitrary: names)
  case Nil
  then show ?case by (simp add: stale_def fun_eq_iff restrict_map_def)
next
  case (Cons p pings)
  obtain c t where p: "p = (c, t)" by (cases p)
  have none: "map_of pings c = None" and distinct: "distinct (map fst pings)"
    using Cons.prems p by (auto simp: map_of_eq_None_iff)
  show ?case
  proof (cases "t \<le> cutTime")
    case False
    then have "stale cutTime (map_of (p # pings)) = stale cutTime (map_of pings)"
      using none p by (auto simp: stale_def)
    moreover have "leaving cutTime (p # pings) names = leaving cutTime pings names"
      using False p by simp
    ultimately show ?thesis using Cons.IH [OF distinct] by presburger
  next
    case True
    then have st: "stale cutTime (map_of (p # pings)) = insert c (stale cutTime (map_of pings))"
      using p by (auto simp: stale_def)
    let ?rest = "leaving cutTime pings (names(c := None))"
    have "c \<notin> fst ` set ?rest"
      using leaving_dom [of cutTime pings "names(c := None)"] by auto
    moreover have "distinct (map fst ?rest)"
      and "map_of ?rest = (names(c := None)) |` stale cutTime (map_of pings)"
      using Cons.IH [OF distinct, of "names(c := None)"] by blast+
    moreover have "c \<notin> stale cutTime (map_of pings)"
      using none by (simp add: stale_def)
    ultimately show ?thesis
      unfolding st using True p
      by (cases "names c") (auto simp: fun_eq_iff restrict_map_def)
  qed
qed

definition same_config :: "chat_server \<Rightarrow> chat_server \<Rightarrow> bool" where
  "same_config s s' \<longleftrightarrow> m_timeout s' = m_timeout s \<and>
     m_maxMessagesPerRequest s' = m_maxMessagesPerRequest s"

lemma same_config_trans: "same_config s t \<Longrightarrow> same_config t u \<Longrightarrow> same_config s u"
  by (simp add: same_config_def)

text \<open>A client that is timed out is announced if it has a name, and forgotten.\<close>

lemma timeout_one_client:
  assumes "(case umap_find (m_nameMap s) c of
        Some name \<Rightarrow>
          rbind (queueNew e ''/chatChangeClient''
              [LoInt32 (m_messageSerial s), LoString ''timeout'', LoInt32 c, LoString name] s)
            (\<lambda>s. Inr (s\<lparr>m_nameMap := umap_erase c (m_nameMap s)\<rparr>))
      | None \<Rightarrow> Inr s) = Inr u"
    and "ring_holds e k log s" "umap_ok (m_nameMap s)" "umap_ok (m_clientPings s)"
    and "v = u\<lparr>m_clientPings := umap_erase c (m_clientPings u)\<rparr>"
  shows "ring_holds e k
      (announce_all ''timeout'' (case map_of (m_nameMap s) c of None \<Rightarrow> [] | Some n \<Rightarrow> [(c, n)]) log) v \<and>
    umap_ok (m_nameMap v) \<and> map_of (m_nameMap v) = (map_of (m_nameMap s))(c := None) \<and>
    umap_ok (m_clientPings v) \<and> map_of (m_clientPings v) = (map_of (m_clientPings s))(c := None) \<and>
    m_userSerial v = m_userSerial s \<and> same_config s v"
proof (cases "map_of (m_nameMap s) c")
  case None
  with assms show ?thesis
    using ring_ok_cong [of v u]
    by (auto simp: announce_all_def ring_holds_def umap.invar_erase umap.find_erase fun_upd_idem same_config_def)
next
  case (Some n)
  with assms(1) obtain w where w: "queueNew e ''/chatChangeClient''
      [LoInt32 (m_messageSerial s), LoString ''timeout'', LoInt32 c, LoString n] s = Inr w"
    and uw: "u = w\<lparr>m_nameMap := umap_erase c (m_nameMap w)\<rparr>"
    by (auto simp: fault_simps)
  have "m_messageSerial s = int (length log)"
    using assms(2) by (simp add: ring_holds_def ring_ok_def)
  with queue_entry [OF assms(2) w] Some uw assms(3-5) show ?thesis
    using ring_ok_cong [of v w]
    by (auto simp: announce_all_def announce_def ring_holds_def ring_frame_def
        umap.invar_erase umap.find_erase same_config_def)
qed

lemma timeout_clients_refines:
  assumes "timeout_clients e cutTime pings s = Inr s'" and "ring_holds e k log s"
    and "umap_ok (m_nameMap s)" and "umap_ok (m_clientPings s)" and "distinct (map fst pings)"
  shows "ring_holds e k (announce_all ''timeout'' (leaving cutTime pings (map_of (m_nameMap s))) log) s' \<and>
    umap_ok (m_nameMap s') \<and>
    map_of (m_nameMap s') = map_of (m_nameMap s) |` (- stale cutTime (map_of pings)) \<and>
    umap_ok (m_clientPings s') \<and>
    map_of (m_clientPings s') = map_of (m_clientPings s) |` (- stale cutTime (map_of pings)) \<and>
    m_userSerial s' = m_userSerial s \<and> same_config s s'"
  using assms
proof (induction pings arbitrary: s log)
  case Nil
  then show ?case
    by (simp add: announce_all_def stale_def same_config_def)
next
  case (Cons p pings)
  obtain c t where p: "p = (c, t)" by (cases p)
  have none: "map_of pings c = None" and distinct: "distinct (map fst pings)"
    using Cons.prems(5) p by (auto simp: map_of_eq_None_iff)
  show ?case
  proof (cases "t \<le> cutTime")
    case False
    then have "stale cutTime (map_of (p # pings)) = stale cutTime (map_of pings)"
      using none p by (auto simp: stale_def)
    moreover have "timeout_clients e cutTime pings s = Inr s'"
      and "leaving cutTime (p # pings) names = leaving cutTime pings names" for names
      using Cons.prems(1) False p by simp_all
    ultimately show ?thesis
      using Cons.IH [of s log] Cons.prems(2-4) distinct by presburger
  next
    case True
    then have st: "stale cutTime (map_of (p # pings)) = insert c (stale cutTime (map_of pings))"
      using p by (auto simp: stale_def)
    obtain u where u: "(case umap_find (m_nameMap s) c of
           Some name \<Rightarrow>
             rbind (queueNew e ''/chatChangeClient''
                 [LoInt32 (m_messageSerial s), LoString ''timeout'', LoInt32 c, LoString name] s)
               (\<lambda>s. Inr (s\<lparr>m_nameMap := umap_erase c (m_nameMap s)\<rparr>))
         | None \<Rightarrow> Inr s) = Inr u"
      and rest: "timeout_clients e cutTime pings
        (u\<lparr>m_clientPings := umap_erase c (m_clientPings u)\<rparr>) = Inr s'"
      using Cons.prems(1) True p by (auto simp: fault_simps)
    let ?v = "u\<lparr>m_clientPings := umap_erase c (m_clientPings u)\<rparr>"
    let ?gone = "case map_of (m_nameMap s) c of None \<Rightarrow> [] | Some n \<Rightarrow> [(c, n)]"
    note v = timeout_one_client [OF u Cons.prems(2-4) refl]
    have "leaving cutTime (p # pings) (map_of (m_nameMap s))
        = ?gone @ leaving cutTime pings (map_of (m_nameMap ?v))"
      using True p v by simp
    then have "announce_all ''timeout'' (leaving cutTime (p # pings) (map_of (m_nameMap s))) log
        = announce_all ''timeout'' (leaving cutTime pings (map_of (m_nameMap ?v)))
            (announce_all ''timeout'' ?gone log)"
      by (simp add: announce_all_def)
    moreover note Cons.IH [OF rest, of "announce_all ''timeout'' ?gone log"]
    ultimately show ?thesis
      using v distinct unfolding st restrict_remove [symmetric] by (metis same_config_trans)
  qed
qed

section \<open>Each handler is a step\<close>

definition refines_step ::
    "chat_env \<Rightarrow> 'a chat_event \<Rightarrow> chat_spec \<Rightarrow> chat_server \<Rightarrow> chat_server \<Rightarrow> 'a send list \<Rightarrow> bool" where
  "refines_step e ev a s s' out \<longleftrightarrow>
     (\<exists>b. spec_step (m_timeout s) (m_maxMessagesPerRequest s) ev a b out \<and> chat_refines e b s' \<and>
       same_config s s')"

lemma refines_stepI:
  "spec_step (m_timeout s) (m_maxMessagesPerRequest s) ev a b out \<Longrightarrow> chat_refines e b s' \<Longrightarrow>
    same_config s s' \<Longrightarrow> refines_step e ev a s s' out"
  by (auto simp: refines_step_def)

lemma refines_ignored:
  "chat_refines e a s \<Longrightarrow> ignored ev (sp_names a) \<Longrightarrow> refines_step e ev a s s []"
  by (rule refines_stepI [OF step_ignored]) (simp_all add: same_config_def)

text \<open>A handler that changes the name map and queues one announcement.\<close>

lemma queue_announcement:
  assumes rel: "chat_refines e a s"
    and queue: "queueNew e ''/chatChangeClient''
      [LoInt32 (m_messageSerial s), LoString kind, LoInt32 u, LoString name] t = Inr s'"
    and t: "t = s\<lparr>m_userSerial := n, m_nameMap := names\<rparr>" and names: "umap_ok names"
  shows "chat_refines e
      (a\<lparr>sp_users := n, sp_names := map_of names, sp_log := announce kind (u, name) (sp_log a)\<rparr>) s' \<and>
    same_config s s' \<and> m_nameMap s' = names"
proof -
  have "ring_holds e (sp_abandoned a) (sp_log a) t"
    using rel t ring_ok_cong [of t s] by (simp add: chat_refines_def ring_holds_def)
  from queue_entry [OF this queue] rel t names show ?thesis
    by (auto simp: chat_refines_def ring_frame_def announce_def same_config_def ring_holds_def ring_ok_def)
qed

lemma handleSignIn_refines:
  assumes rel: "chat_refines e a s" and cmd: "getCommandNamed (ev_path ev) = kSignIn"
    and ret: "handleSignIn e (ev_address ev) (ev_args ev) s = Inr (s', out)"
  shows "refines_step e ev a s s' out"
proof (cases "\<exists>name. ev_args ev = [LoString name]")
  case False
  then have "s' = s" "out = []"
    using ret by (auto simp: handleSignIn_def split: list.splits osc_arg.splits)
  with rel False cmd show ?thesis by (simp add: refines_ignored ignored_def)
next
  case True
  then obtain name where args: "ev_args ev = [LoString name]" by blast
  let ?u = "sp_users a + 1"
  have user: "m_userSerial s = sp_users a" "map_of (m_nameMap s) = sp_names a" "umap_ok (m_nameMap s)"
    using rel by (simp_all add: chat_refines_def)
  let ?names = "umap_assign ?u name (m_nameMap s)"
  have "queueNew e ''/chatChangeClient''
      [LoInt32 (m_messageSerial s), LoString ''add'', LoInt32 ?u, LoString name]
      (s\<lparr>m_userSerial := ?u, m_nameMap := ?names\<rparr>) = Inr s'"
    and out: "out = [(ev_address ev, ''/chatSignInComplete'', [LoInt32 ?u])]"
    using ret args user by (auto simp: handleSignIn_def Let_def fault_simps)
  from queue_announcement [OF rel this(1) refl] user
  have "chat_refines e (a\<lparr>sp_users := ?u, sp_names := (sp_names a)(?u \<mapsto> name),
      sp_log := announce ''add'' (?u, name) (sp_log a)\<rparr>) s'" "same_config s s'"
    by (simp_all add: umap.find_assign umap.invar_assign)
  with step_sign_in [OF cmd args refl] show ?thesis unfolding out by (rule refines_stepI)
qed

lemma handleChangeName_refines:
  assumes rel: "chat_refines e a s" and cmd: "getCommandNamed (ev_path ev) = kChangeName"
    and ret: "handleChangeName e (ev_args ev) s = Inr (s', out)"
  shows "refines_step e ev a s s' out"
proof (cases "\<exists>u name. ev_args ev = [LoInt32 u, LoString name]")
  case False
  then have "s' = s" "out = []"
    using ret by (auto simp: handleChangeName_def split: list.splits osc_arg.splits)
  with rel False cmd show ?thesis by (simp add: refines_ignored ignored_def)
next
  case True
  then obtain u name where args: "ev_args ev = [LoInt32 u, LoString name]" by blast
  have user: "m_userSerial s = sp_users a" "map_of (m_nameMap s) = sp_names a" "umap_ok (m_nameMap s)"
    using rel by (simp_all add: chat_refines_def)
  let ?names = "umap_assign u name (m_nameMap s)"
  have "queueNew e ''/chatChangeClient''
      [LoInt32 (m_messageSerial s), LoString ''rename'', LoInt32 u, LoString name]
      (s\<lparr>m_userSerial := sp_users a, m_nameMap := ?names\<rparr>) = Inr s'" and out: "out = []"
    using ret args user(1) [symmetric] by (auto simp: handleChangeName_def Let_def fault_simps)
  from queue_announcement [OF rel this(1) refl] user
  have "chat_refines e (a\<lparr>sp_names := (sp_names a)(u \<mapsto> name),
      sp_log := announce ''rename'' (u, name) (sp_log a)\<rparr>) s'" "same_config s s'"
    by (simp_all add: umap.find_assign umap.invar_assign)
  with step_change_name [OF cmd args] show ?thesis unfolding out by (rule refines_stepI)
qed

lemma handleSignOut_refines:
  assumes rel: "chat_refines e a s" and cmd: "getCommandNamed (ev_path ev) = kSignOut"
    and ret: "handleSignOut e (ev_args ev) s = Inr (s', out)"
  shows "refines_step e ev a s s' out"
proof (cases "\<exists>u. ev_args ev = [LoInt32 u] \<and> u \<in> dom (sp_names a)")
  case False
  have "map_of (m_nameMap s) = sp_names a"
    using rel by (simp add: chat_refines_def)
  with False have "s' = s" "out = []"
    using ret by (auto simp: handleSignOut_def split: list.splits osc_arg.splits option.splits)
  with rel False cmd show ?thesis by (simp add: refines_ignored ignored_def)
next
  case True
  then obtain u name where args: "ev_args ev = [LoInt32 u]" and name: "sp_names a u = Some name"
    by blast
  have user: "m_userSerial s = sp_users a" "map_of (m_nameMap s) = sp_names a" "umap_ok (m_nameMap s)"
    using rel by (simp_all add: chat_refines_def)
  obtain t where t: "queueNew e ''/chatChangeClient''
      [LoInt32 (m_messageSerial s), LoString ''remove'', LoInt32 u, LoString name]
      (s\<lparr>m_userSerial := sp_users a, m_nameMap := m_nameMap s\<rparr>) = Inr t"
    and s': "s' = t\<lparr>m_nameMap := umap_erase u (m_nameMap t)\<rparr>" and out: "out = []"
    using ret args name user(2) user(1) [symmetric]
    by (auto simp: handleSignOut_def Let_def fault_simps)
  from queue_announcement [OF rel t refl user(3)]
  have "chat_refines e (a\<lparr>sp_names := (sp_names a)(u := None),
      sp_log := announce ''remove'' (u, name) (sp_log a)\<rparr>) s'" "same_config s s'"
    using user s' ring_ok_cong [of s' t]
    by (auto simp: umap.find_erase umap.invar_erase chat_refines_def ring_holds_def same_config_def)
  with step_sign_out [OF cmd args name] show ?thesis unfolding out by (rule refines_stepI)
qed

lemma handleGetAllClients_refines:
  assumes rel: "chat_refines e a s" and cmd: "getCommandNamed (ev_path ev) = kGetAllClients"
    and ret: "handleGetAllClients e (ev_address ev) s = Inr (s', out)"
  shows "refines_step e ev a s s' out"
proof -
  have env: "env_ok e" and names: "umap_ok (m_nameMap s)" "map_of (m_nameMap s) = sp_names a"
    using rel by (simp_all add: chat_refines_def ring_holds_def)
  let ?m = "fresh_message e s" and ?names = "name_order e (m_nameMap s)"
  have fresh: "?m \<notin> fst ` set (lo_heap s)" by (rule fresh_message_notin [OF env])
  then have "map_of (lo_heap s) ?m = None" by (simp add: map_of_eq_None_iff)
  then have "s' = s" "out = [(ev_address ev, ''/chatSetAllClients'', listing ?names)]"
    using ret fresh
    by (auto simp: handleGetAllClients_def lo_build_eq [OF env] with_message_def listing_def
        lo_message_free_def delete_append delete_id map_add_def)
  moreover have order: "iteration_order (name_order e)" using env by (simp add: env_ok_def)
  then have "distinct (map fst ?names)" using names(1) by (rule iteration_order_distinct)
  moreover have "map_of ?names = sp_names a"
    using calculation(3) iteration_order_set [OF order] names
    by (metis map_of_inject_set umap_ok_def)
  ultimately show ?thesis
    using step_get_all [OF cmd, of ?names a] rel
    by (simp add: refines_step_def same_config_def) blast
qed

lemma copy_args_eq:
  "m \<notin> fst ` set (lo_heap s) \<Longrightarrow>
    copy_args m args (with_message m xs s) =
      (supported args, with_message m (xs @ takeWhile (\<lambda>x. supported [x]) args) s)"
proof (induction args arbitrary: xs)
  case Nil
  then show ?case by (simp add: supported_def)
next
  case (Cons x args)
  then show ?case by (cases x) (auto simp: supported_def add_to_message)
qed

lemma copy_args_supported:
  assumes "supported args" and "m \<notin> fst ` set (lo_heap s)"
  shows "copy_args m args (with_message m xs s) = (True, with_message m (xs @ args) s)"
proof -
  have "takeWhile (\<lambda>x. supported [x]) args = args"
    using assms(1) by (auto simp: supported_def takeWhile_eq_all_conv)
  with copy_args_eq [OF assms(2), of args xs] assms(1) show ?thesis by metis
qed

lemma handleSendMessage_refines:
  assumes rel: "chat_refines e a s" and cmd: "getCommandNamed (ev_path ev) = kSendMessage"
    and ret: "handleSendMessage e (ev_args ev) s = Inr (s', out)"
  shows "refines_step e ev a s s' out"
proof -
  have env: "env_ok e" and ring: "ring_ok (sp_abandoned a) (sp_log a) s"
    using rel by (simp_all add: chat_refines_def ring_holds_def)
  let ?m = "fresh_message e s"
  let ?x = "LoInt32 (int (length (sp_log a)))"
  have fresh: "?m \<notin> fst ` set (lo_heap s)" by (rule fresh_message_notin [OF env])
  have serial: "m_messageSerial (with_message ?m xs s) = int (length (sp_log a))" for xs
    using ring by (simp add: ring_ok_def with_message_def)
  show ?thesis
  proof (cases "supported (ev_args ev)")
    case True
    have q: "queueMessage ''/chatReceive'' ?m (with_message ?m (?x # ev_args ev) s) = Inr s'"
      and out: "out = []"
      using ret serial
      by (auto simp: handleSendMessage_def lo_message_new_eq [OF env] add_to_message [OF fresh]
          copy_args_supported [OF True fresh] fault_simps)
    have "queueNew e ''/chatReceive'' (?x # ev_args ev) s = Inr s'"
      using q by (simp add: queueNew_eq [OF env])
    from queue_entry [OF _ this, of "sp_abandoned a" "sp_log a"] rel
    have "chat_refines e (a\<lparr>sp_log := sp_log a @ [(''/chatReceive'', ?x # ev_args ev)]\<rparr>) s'"
      "same_config s s'"
      by (auto simp: chat_refines_def ring_frame_def same_config_def)
    with step_send [OF cmd True] show ?thesis unfolding out by (rule refines_stepI)
  next
    case False
    obtain xs where s': "s' = with_message ?m xs s" and out: "out = []"
      using ret False
      by (auto simp: handleSendMessage_def lo_message_new_eq [OF env] add_to_message [OF fresh]
          copy_args_eq [OF fresh])
    have "chat_refines e (a\<lparr>sp_abandoned := Suc (sp_abandoned a)\<rparr>) s'"
      using rel ring_ok_abandon [OF ring fresh] s'
      by (simp add: chat_refines_def ring_holds_def) (simp add: with_message_def)
    moreover have "same_config s s'" by (simp add: s' same_config_def with_message_def)
    ultimately show ?thesis
      using step_abandon [OF cmd False] unfolding out by (auto intro: refines_stepI)
  qed
qed

lemma handleGetMessages_refines:
  assumes rel: "chat_refines e a s" and cmd: "getCommandNamed (ev_path ev) = kGetMessages"
    and ret: "handleGetMessages e (ev_now ev) (ev_address ev) (ev_args ev) s = Inr (s', out)"
    and small: "0 \<le> m_maxMessagesPerRequest s" "m_maxMessagesPerRequest s \<le> 128"
  shows "refines_step e ev a s s' out"
proof (cases "\<exists>u m. ev_args ev = [LoInt32 u, LoInt32 m]")
  case False
  then have "s' = s" "out = []"
    using ret by (auto simp: handleGetMessages_def split: list.splits osc_arg.splits)
  with rel False cmd show ?thesis by (simp add: refines_ignored ignored_def)
next
  case True
  then obtain u m where args: "ev_args ev = [LoInt32 u, LoInt32 m]" by blast
  let ?pings = "umap_assign u (ev_now ev) (m_clientPings s)"
  let ?t = "s\<lparr>m_clientPings := ?pings\<rparr>"
  let ?cut = "ev_now ev - seconds (m_timeout s)"
  let ?first = "first_reply (m_maxMessagesPerRequest s) (length (sp_log a)) m"
  have env: "env_ok e" and ring: "ring_holds e (sp_abandoned a) (sp_log a) s"
    and serial: "m_messageSerial s = int (length (sp_log a))"
    and names: "umap_ok (m_nameMap s)" "map_of (m_nameMap s) = sp_names a"
    and pings: "umap_ok (m_clientPings s)" "map_of (m_clientPings s) = sp_pings a"
    using rel by (simp_all add: chat_refines_def ring_holds_def ring_ok_def)
  obtain m' where m': "truncate_request m s = Inr m'"
    and loop: "rmap (send_stored (ev_address ev) s) [m' + 1..m_messageSerial s - 1] = Inr out"
    and timeouts: "timeout_clients e ?cut (ping_order e ?pings) ?t = Inr s'"
    using ret args by (auto simp: handleGetMessages_def Let_def fault_simps)
  have first: "m' + 1 = ?first"
    using truncate_request_Inr [OF m'] serial by (simp add: first_reply_def)
  from reply_loop [OF ring _ loop] first_reply_window [OF small]
  have out: "0 \<le> ?first" "out = map (Pair (ev_address ev)) (drop (nat ?first) (sp_log a))"
    unfolding first by blast+
  have order: "iteration_order (ping_order e)" and ok: "umap_ok ?pings"
    using env pings by (simp_all add: env_ok_def umap.invar_assign)
  have distinct: "distinct (map fst (ping_order e ?pings))"
    using order ok by (rule iteration_order_distinct)
  have map: "map_of (ping_order e ?pings) = (sp_pings a)(u \<mapsto> ev_now ev)"
    using distinct iteration_order_set [OF order] ok pings
    by (metis map_of_inject_set umap_ok_def umap.find_assign)
  let ?gone = "stale ?cut ((sp_pings a)(u \<mapsto> ev_now ev))"
  let ?leaving = "leaving ?cut (ping_order e ?pings) (sp_names a)"
  have "ring_holds e (sp_abandoned a) (sp_log a) ?t"
    using ring ring_ok_cong [of ?t s] by (simp add: ring_holds_def)
  from timeout_clients_refines [OF timeouts this _ _ distinct] names ok pings map rel
  have "chat_refines e (a\<lparr>sp_names := sp_names a |` (- ?gone),
      sp_pings := (sp_pings a)(u \<mapsto> ev_now ev) |` (- ?gone),
      sp_log := announce_all ''timeout'' ?leaving (sp_log a)\<rparr>) s'" "same_config s s'"
    by (simp_all add: chat_refines_def same_config_def umap.find_assign)
  moreover have "distinct (map fst ?leaving)" "map_of ?leaving = sp_names a |` ?gone"
    using leaving_spec [OF distinct] map by simp_all
  ultimately show ?thesis
    unfolding out(2)
    by (intro refines_stepI [OF step_get_messages [OF cmd args refl refl _ _ refl out(1)]])
qed

text \<open>The whole handler: the keep-alive bookkeeping and the dispatch on the command.\<close>

lemma handleMessage_refines:
  assumes rel: "chat_refines e a s" and ret: "handleMessage e ev s = Inr (s', out)"
    and small: "0 \<le> m_maxMessagesPerRequest s" "m_maxMessagesPerRequest s \<le> 128"
  shows "refines_step e ev a s s' out"
proof -
  define t where "t = (if ev_entry ev - m_lastUpdateTime s > seconds 60
               then s\<lparr>m_lastUpdateTime := ev_entry ev\<rparr> else s)"
  have rel_t: "chat_refines e a t" and config: "same_config s t" "same_config t s"
    using rel by (simp_all add: t_def chat_refines_last_update same_config_def)
  have small_t: "0 \<le> m_maxMessagesPerRequest t" "m_maxMessagesPerRequest t \<le> 128"
    using small config by (simp_all add: same_config_def)
  have "refines_step e ev a t s' out"
    using ret small_t rel_t
    by (cases "getCommandNamed (ev_path ev)")
      (auto simp: handleMessage_def t_def [symmetric] ignored_def
        intro: handleSignIn_refines handleGetAllClients_refines handleGetMessages_refines
          handleSendMessage_refines handleChangeName_refines handleSignOut_refines refines_ignored)
  with config show ?thesis
    by (auto simp: refines_step_def same_config_def)
qed

section \<open>Runs\<close>

lemma chat_run_refines:
  assumes "chat_run e evs s = Inr (s', out)" and "chat_refines e a s"
    and "0 \<le> m_maxMessagesPerRequest s" "m_maxMessagesPerRequest s \<le> 128"
  shows "\<exists>b. spec_run (m_timeout s) (m_maxMessagesPerRequest s) evs a b out \<and> chat_refines e b s' \<and>
    same_config s s'"
  using assms
proof (induction evs arbitrary: s a out)
  case Nil
  then show ?case by (auto simp: same_config_def intro: run_done)
next
  case (Cons ev evs)
  then obtain t out1 out2 where t: "handleMessage e ev s = Inr (t, out1)"
    and rest: "chat_run e evs t = Inr (s', out2)" and out: "out = out1 @ out2"
    by (auto simp: fault_simps)
  from handleMessage_refines [OF Cons.prems(2) t Cons.prems(3,4)] obtain b where
    b: "spec_step (m_timeout s) (m_maxMessagesPerRequest s) ev a b out1" "chat_refines e b t"
      "same_config s t"
    by (auto simp: refines_step_def)
  from Cons.IH [OF rest b(2)] Cons.prems(3,4) b(3) obtain c where
    "spec_run (m_timeout s) (m_maxMessagesPerRequest s) evs b c out2" "chat_refines e c s'"
      "same_config t s'"
    by (auto simp: same_config_def)
  with b out show ?case by (blast intro: run_step same_config_trans)
qed

lemma spec_run_invariant:
  fixes evs :: "'a chat_event list"
  assumes "spec_run timeout max_messages evs a b out" and "P a"
    and "\<And>(ev :: 'a chat_event) a b out. spec_step timeout max_messages ev a b out \<Longrightarrow> P a \<Longrightarrow> P b"
  shows "P b"
  using assms by (induction rule: spec_run.induct) blast+

text \<open>The messages in the log carry their serial number as first argument.\<close>

definition stamped :: "entry list \<Rightarrow> bool" where
  "stamped log \<longleftrightarrow> (\<forall>n < length log. \<exists>args. snd (log ! n) = LoInt32 (int n) # args)"

lemma stamped_snoc: "stamped log \<Longrightarrow> stamped (log @ [(p, LoInt32 (int (length log)) # args)])"
  by (auto simp: stamped_def nth_append less_Suc_eq)

lemma stamped_announce_all: "stamped log \<Longrightarrow> stamped (announce_all kind clients log)"
  by (induction clients arbitrary: log) (auto simp: announce_all_def announce_def stamped_snoc)

lemma spec_step_stamped:
  "spec_step timeout max_messages ev a b out \<Longrightarrow> stamped (sp_log a) \<Longrightarrow> stamped (sp_log b)"
  by (induction rule: spec_step.induct)
    (auto simp: announce_def stamped_snoc stamped_announce_all)

text \<open>The log only grows.\<close>

lemma announce_all_prefix: "\<exists>xs. announce_all kind clients log = log @ xs"
proof (induction clients arbitrary: log)
  case (Cons c clients)
  from Cons.IH [of "announce kind c log"] show ?case
    by (auto simp: announce_all_def announce_def)
qed (simp add: announce_all_def)

lemma spec_step_log_grows:
  "spec_step timeout max_messages ev a b out \<Longrightarrow> \<exists>xs. sp_log b = sp_log a @ xs"
  by (induction rule: spec_step.induct) (auto simp: announce_def announce_all_prefix)

section \<open>When the handler returns\<close>

text \<open>
  The conditions under which nothing undefined happens: the counters stay below the range of
  \<open>int\<close>, counting one possible timeout per known client, and a request does not name an id
  below -1.
\<close>

definition safe_event :: "chat_server \<Rightarrow> 'a chat_event \<Rightarrow> bool" where
  "safe_event s ev \<longleftrightarrow>
     in_i32 (m_userSerial s + 1) \<and>
     m_messageSerial s + int (length (m_clientPings s)) + 1 < 2 ^ 31 - 1 \<and>
     (\<forall>u m. getCommandNamed (ev_path ev) = kGetMessages \<longrightarrow> ev_args ev = [LoInt32 u, LoInt32 m] \<longrightarrow>
       - 1 \<le> m \<and> m < 2 ^ 31 - 1)"

lemma timeout_clients_returns:
  assumes "ring_holds e k log s" and "length log + length pings \<le> max_serial"
  shows "\<exists>s'. timeout_clients e cutTime pings s = Inr s'"
  using assms
proof (induction pings arbitrary: s log)
  case Nil
  then show ?case by simp
next
  case (Cons p pings)
  obtain c t where p: "p = (c, t)" by (cases p)
  have erase: "ring_holds e k l (x\<lparr>m_clientPings := f\<rparr>) = ring_holds e k l x"
    "ring_holds e k l (x\<lparr>m_nameMap := g\<rparr>) = ring_holds e k l x" for l x f g
    using ring_ok_cong [of "x\<lparr>m_clientPings := f\<rparr>" x] ring_ok_cong [of "x\<lparr>m_nameMap := g\<rparr>" x]
    by (simp_all add: ring_holds_def)
  show ?case
  proof (cases "t \<le> cutTime \<and> map_of (m_nameMap s) c \<noteq> None")
    case False
    have "\<exists>s'. timeout_clients e cutTime pings u = Inr s'" if "ring_holds e k log u" for u
      using Cons.IH [OF that] Cons.prems(2) by simp
    with False p Cons.prems(1) erase show ?thesis by auto
  next
    case True
    then obtain n where n: "map_of (m_nameMap s) c = Some n" by blast
    let ?x = "(''/chatChangeClient'',
      [LoInt32 (m_messageSerial s), LoString ''timeout'', LoInt32 c, LoString n])"
    obtain u where "queueNew e (fst ?x) (snd ?x) s = Inr u" "ring_holds e k (log @ [?x]) u"
      using ring.append_ok [OF Cons.prems(1), of ?x] Cons.prems(2) by auto
    moreover have "\<exists>s'. timeout_clients e cutTime pings v = Inr s'"
      if "ring_holds e k (log @ [?x]) v" for v
      using Cons.IH [OF that] Cons.prems(2) by simp
    ultimately show ?thesis using True p n erase by auto
  qed
qed

lemma handleGetMessages_returns:
  assumes rel: "chat_refines e a s" and args: "args = [LoInt32 u, LoInt32 m]"
    and small: "0 \<le> m_maxMessagesPerRequest s" "m_maxMessagesPerRequest s \<le> 128"
    and m: "- 1 \<le> m" "m < 2 ^ 31 - 1"
    and room: "m_messageSerial s + int (length (m_clientPings s)) + 1 < 2 ^ 31 - 1"
  shows "\<exists>r. handleGetMessages e now address args s = Inr r"
proof -
  let ?pings = "umap_assign u now (m_clientPings s)"
  let ?t = "s\<lparr>m_clientPings := ?pings\<rparr>"
  have ring: "ring_holds e (sp_abandoned a) (sp_log a) s"
    and serial: "m_messageSerial s = int (length (sp_log a))" and env: "env_ok e"
    using rel by (simp_all add: chat_refines_def ring_holds_def ring_ok_def)
  let ?m = "if m_messageSerial s - m > m_maxMessagesPerRequest s
      then max 0 (m_messageSerial s - m_maxMessagesPerRequest s - 1) else m"
  have trunc: "truncate_request m s = Inr ?m"
    using m small room serial by (auto simp: truncate_request_def chk_i32_def in_i32_def)
  have next_id: "chk_i32 (?m + 1) = Inr (?m + 1)" "0 \<le> ?m + 1"
    "int (length (sp_log a)) - 128 \<le> ?m + 1"
    using m small room serial by (auto simp: in_i32_def)
  have loop: "rmap (send_stored address s) [?m + 1..m_messageSerial s - 1]
      = Inr (map (Pair address) (drop (nat (?m + 1)) (sp_log a)))"
    using ring.read_range [OF ring, of "?m + 1"] next_id(2,3) serial
    by (simp add: rmap_bind [OF send_stored_read_slot])
  have "length (ping_order e ?pings) \<le> Suc (length (m_clientPings s))"
  proof -
    have "length (ping_order e ?pings) = length ?pings"
      using env by (metis env_ok_def iteration_order_def size_mset)
    also have "\<dots> \<le> Suc (length (m_clientPings s))"
      by (rule length_umap_assign)
    finally show ?thesis .
  qed
  with room serial have "length (sp_log a) + length (ping_order e ?pings) \<le> max_serial"
    by (simp add: max_serial_def)
  moreover have "ring_holds e (sp_abandoned a) (sp_log a) ?t"
    using ring ring_ok_cong [of ?t s] by (simp add: ring_holds_def)
  ultimately obtain s' where
    "timeout_clients e (now - seconds (m_timeout s)) (ping_order e ?pings) ?t = Inr s'"
    using timeout_clients_returns by blast
  with loop show ?thesis
    using trunc next_id(1) unfolding args handleGetMessages_def
    by (auto simp: Let_def split del: if_split)
qed

lemma queueNew_returns:
  assumes "chat_refines e a s" and "m_messageSerial s + 1 < 2 ^ 31"
    and "m_messageSerial t = m_messageSerial s" "m_paths t = m_paths s"
      "m_messages t = m_messages s" "lo_heap t = lo_heap s"
  shows "\<exists>s'. queueNew e path args t = Inr s'"
proof -
  have "env_ok e" "ring_ok (sp_abandoned a) (sp_log a) t"
    using assms(1) ring_ok_cong [OF assms(3-6)] by (simp_all add: chat_refines_def ring_holds_def)
  moreover have "in_i32 (int (length (sp_log a)) + 1)"
    using assms(1,2) by (simp add: chat_refines_def ring_holds_def ring_ok_def in_i32_def)
  ultimately show ?thesis using queueNew_ok by blast
qed

lemma handleSendMessage_returns:
  assumes rel: "chat_refines e a s" and room: "m_messageSerial s + 1 < 2 ^ 31"
  shows "\<exists>r. handleSendMessage e args s = Inr r"
proof (cases "supported args")
  case True
  have env: "env_ok e" using rel by (simp add: chat_refines_def ring_holds_def)
  let ?m = "fresh_message e s"
  have fresh: "?m \<notin> fst ` set (lo_heap s)" by (rule fresh_message_notin [OF env])
  have serial: "m_messageSerial (with_message ?m [] s) = m_messageSerial s"
    by (simp add: with_message_def)
  from queueNew_returns [OF rel room refl refl refl refl] obtain s' where
    "queueMessage ''/chatReceive'' ?m (with_message ?m (LoInt32 (m_messageSerial s) # args) s) = Inr s'"
    by (auto simp: queueNew_eq [OF env])
  then show ?thesis
    by (simp add: handleSendMessage_def lo_message_new_eq [OF env] add_to_message [OF fresh] serial
        copy_args_supported [OF True fresh])
next
  case False
  then show ?thesis
    using rel fresh_message_notin [of e s]
    by (simp add: handleSendMessage_def lo_message_new_eq add_to_message copy_args_eq
        chat_refines_def ring_holds_def)
qed

lemma handleGetAllClients_returns:
  assumes "chat_refines e a s"
  shows "\<exists>r. handleGetAllClients e address s = Inr r"
proof -
  have env: "env_ok e" using assms by (simp add: chat_refines_def ring_holds_def)
  from fresh_message_notin [OF env] have "map_of (lo_heap s) (fresh_message e s) = None"
    by (simp add: map_of_eq_None_iff)
  then show ?thesis
    by (simp add: handleGetAllClients_def lo_build_eq [OF env] with_message_def
        lo_message_free_def map_add_def)
qed

lemma handleMessage_returns:
  assumes rel: "chat_refines e a s" and safe: "safe_event s ev"
    and small: "0 \<le> m_maxMessagesPerRequest s" "m_maxMessagesPerRequest s \<le> 128"
  shows "\<exists>r. handleMessage e ev s = Inr r"
proof -
  define t where "t = (if ev_entry ev - m_lastUpdateTime s > seconds 60
               then s\<lparr>m_lastUpdateTime := ev_entry ev\<rparr> else s)"
  have rel_t: "chat_refines e a t" and safe_t: "safe_event t ev"
    and small_t: "0 \<le> m_maxMessagesPerRequest t" "m_maxMessagesPerRequest t \<le> 128"
    using rel safe small by (simp_all add: t_def chat_refines_last_update safe_event_def)
  have room: "m_messageSerial t + 1 < 2 ^ 31" using safe_t by (simp add: safe_event_def)
  note q = queueNew_returns [OF rel_t room]
  show ?thesis
  proof (cases "getCommandNamed (ev_path ev)")
    case kGetMessages
    have "\<exists>r. handleGetMessages e (ev_now ev) (ev_address ev) (ev_args ev) t = Inr r"
    proof (cases "\<exists>u m. ev_args ev = [LoInt32 u, LoInt32 m]")
      case True
      then obtain u m where "ev_args ev = [LoInt32 u, LoInt32 m]" by blast
      with safe_t kGetMessages show ?thesis
        by (intro handleGetMessages_returns [OF rel_t _ small_t]) (auto simp: safe_event_def)
    qed (auto simp: handleGetMessages_def split: list.splits osc_arg.splits)
    with kGetMessages show ?thesis by (simp add: handleMessage_def t_def [symmetric])
  next
    case kSignIn
    have "in_i32 (m_userSerial t + 1)" using safe_t by (simp add: safe_event_def)
    with kSignIn q show ?thesis
      by (fastforce simp: handleMessage_def t_def [symmetric] handleSignIn_def Let_def fault_simps
          split: list.split osc_arg.split)
  next
    case kChangeName
    with q show ?thesis
      by (fastforce simp: handleMessage_def t_def [symmetric] handleChangeName_def Let_def fault_simps
          split: list.split osc_arg.split)
  next
    case kSignOut
    with q show ?thesis
      by (fastforce simp: handleMessage_def t_def [symmetric] handleSignOut_def Let_def fault_simps
          split: list.split osc_arg.split option.split)
  qed (use rel_t room handleGetAllClients_returns handleSendMessage_returns in
      \<open>auto simp: handleMessage_def t_def [symmetric]\<close>)
qed

end
