(* ===== verification/Chat_Properties.thy ===== *)
theory Chat_Properties
  imports Chat_Spec
begin

text \<open>
  The properties of the chat server, stated over \<open>handleMessage\<close> and \<open>chat_run\<close> and proved
  through the abstract server of \<open>Chat_Spec\<close>. Each has a witness on a concrete run with the
  environment \<open>example_env\<close>.
\<close>

section \<open>An environment\<close>

text \<open>Maps listed in storage order, and the address above all live ones for a new message.\<close>

definition example_env :: chat_env where
  "example_env = \<lparr>name_order = (\<lambda>m. m), ping_order = (\<lambda>m. m),
     lo_alloc = (\<lambda>h. Suc (foldr (\<lambda>x. max (fst x)) h 0))\<rparr>"

lemma foldr_max_ge: "x \<in> set h \<Longrightarrow> fst x \<le> foldr (\<lambda>x. max (fst x)) h (0::nat)"
  by (induction h) (auto simp: le_max_iff_disj)

lemma env_ok_example: "env_ok example_env"
  by (auto simp: env_ok_def example_env_def iteration_order_def dest: foldr_max_ge)

abbreviation message :: "time \<Rightarrow> string \<Rightarrow> osc_arg list \<Rightarrow> nat chat_event" where
  "message t path args \<equiv> \<lparr>ev_entry = t, ev_now = t, ev_path = path, ev_args = args, ev_address = 7\<rparr>"

section \<open>From a new server\<close>

lemma run_refines:
  assumes "env_ok e" and "0 \<le> maxm" "maxm \<le> 128"
    and "chat_run e evs (new_ChatServer now timeout maxm) = Inr (s, out)"
  shows "\<exists>b. spec_run timeout maxm evs init_spec b out \<and> chat_refines e b s \<and>
    m_timeout s = timeout \<and> m_maxMessagesPerRequest s = maxm"
  using chat_run_refines [OF assms(4) chat_refines_new [OF assms(1)]] assms(2,3)
  by (auto simp: new_ChatServer_def same_config_def)

lemma run_stamped:
  "spec_run timeout maxm evs init_spec b out \<Longrightarrow> stamped (sp_log b)"
  by (erule spec_run_invariant) (auto simp: init_spec_def stamped_def spec_step_stamped [unfolded stamped_def])

text \<open>What the reply to \<open>/chatGetMessages\<close> is, in any state that refines an abstract one.\<close>

lemma getMessages_reply:
  assumes rel: "chat_refines e a s" and small: "0 \<le> m_maxMessagesPerRequest s" "m_maxMessagesPerRequest s \<le> 128"
    and ev: "getCommandNamed (ev_path ev) = kGetMessages" "ev_args ev = [LoInt32 u, LoInt32 m]"
    and ret: "handleMessage e ev s = Inr (s', out)"
  shows "out = map (Pair (ev_address ev))
      (drop (nat (first_reply (m_maxMessagesPerRequest s) (length (sp_log a)) m)) (sp_log a)) \<and>
    0 \<le> first_reply (m_maxMessagesPerRequest s) (length (sp_log a)) m \<and>
    (let pings = (sp_pings a)(u \<mapsto> ev_now ev); gone = stale (ev_now ev - seconds (m_timeout s)) pings in
      map_of (m_nameMap s') = sp_names a |` (- gone) \<and> map_of (m_clientPings s') = pings |` (- gone) \<and>
      m_messageSerial s' = m_messageSerial s + int (card (dom (sp_names a) \<inter> gone)))"
proof -
  from handleMessage_refines [OF rel ret small] obtain b where
    step: "spec_step (m_timeout s) (m_maxMessagesPerRequest s) ev a b out" and b: "chat_refines e b s'"
    by (auto simp: refines_step_def)
  have len: "length (announce_all k cs l) = length l + length cs" for k cs l
    by (induction cs arbitrary: l) (auto simp: announce_all_def announce_def)
  have card: "length l = card (dom f)" if "distinct (map fst l)" "map_of l = f" for l and f :: "int \<rightharpoonup> string"
    using that by (metis distinct_card dom_map_of_conv_image_fst length_map list.set_map)
  from step show ?thesis
    by cases (use ev rel b in \<open>auto simp: ignored_def chat_refines_def ring_holds_def ring_ok_def len card Let_def\<close>)
qed

lemma announce_path: "x \<in> set (announce_all k cs l) \<Longrightarrow> x \<in> set l \<or> fst x = ''/chatChangeClient''"
  by (induction cs arbitrary: l) (force simp: announce_all_def announce_def)+

text \<open>User ids are handed out in order.\<close>

definition sign_in_ids :: "'a send list \<Rightarrow> osc_arg list" where
  "sign_in_ids out = concat (map (\<lambda>(_, path, args). if path = ''/chatSignInComplete'' then args else []) out)"

definition no_sign_in_paths :: "entry list \<Rightarrow> bool" where
  "no_sign_in_paths log \<longleftrightarrow> (\<forall>x \<in> set log. fst x \<noteq> ''/chatSignInComplete'')"

lemma sign_in_ids_entries:
  "no_sign_in_paths log \<Longrightarrow> sign_in_ids (map (Pair address) (drop n log)) = []"
  by (fastforce simp: sign_in_ids_def no_sign_in_paths_def dest: in_set_dropD)

lemma spec_step_ids:
  "spec_step timeout maxm ev a b out \<Longrightarrow> no_sign_in_paths (sp_log a) \<Longrightarrow>
    no_sign_in_paths (sp_log b) \<and>
    sign_in_ids out = map LoInt32 [sp_users a + 1..sp_users b] \<and> sp_users a \<le> sp_users b"
  by (induction rule: spec_step.induct)
    (auto simp: sign_in_ids_entries,
     auto simp: no_sign_in_paths_def sign_in_ids_def announce_def dest: announce_path)

lemma spec_run_ids:
  "spec_run timeout maxm evs a b out \<Longrightarrow> no_sign_in_paths (sp_log a) \<Longrightarrow>
    sign_in_ids out = map LoInt32 [sp_users a + 1..sp_users b] \<and> sp_users a \<le> sp_users b"
proof (induction rule: spec_run.induct)
  case (run_step ev a b out evs c out')
  from spec_step_ids [OF run_step.hyps(1) run_step.prems] run_step.IH
  have "sign_in_ids (out @ out') = map LoInt32 ([sp_users a + 1..sp_users b] @ [sp_users b + 1..sp_users c])"
    "sp_users a \<le> sp_users b" "sp_users b \<le> sp_users c"
    by (auto simp: sign_in_ids_def)
  moreover have "[sp_users a + 1..sp_users b] @ [sp_users b + 1..sp_users c]
      = [sp_users a + 1..sp_users c]"
    using upto_append [of "sp_users a + 1" "sp_users b + 1" "sp_users c + 1"] calculation(2,3) by simp
  ultimately show ?case by (metis order_trans)
qed (simp add: sign_in_ids_def)

text \<open>Abandoned messages are the events with an unsupported argument.\<close>

definition abandons :: "'a chat_event \<Rightarrow> bool" where
  "abandons ev \<longleftrightarrow> getCommandNamed (ev_path ev) = kSendMessage \<and> \<not> supported (ev_args ev)"

lemma spec_run_abandoned:
  "spec_run timeout maxm evs a b out \<Longrightarrow>
    sp_abandoned b = sp_abandoned a + length (filter abandons evs)"
proof (induction rule: spec_run.induct)
  case (run_step ev a b out evs c out')
  from run_step.hyps(1) have "sp_abandoned b = sp_abandoned a + (if abandons ev then 1 else 0)"
    by cases (auto simp: abandons_def ignored_def)
  with run_step.IH show ?case by simp
qed simp

text \<open>Clients that never poll.\<close>

definition acts_for :: "int \<Rightarrow> 'a chat_event \<Rightarrow> bool" where
  "acts_for c ev \<longleftrightarrow>
     getCommandNamed (ev_path ev) = kGetMessages \<and> (\<exists>m. ev_args ev = [LoInt32 c, LoInt32 m]) \<or>
     getCommandNamed (ev_path ev) = kSignOut \<and> ev_args ev = [LoInt32 c]"

lemma spec_run_silent:
  "spec_run timeout maxm evs a b out \<Longrightarrow> c \<in> dom (sp_names a) \<Longrightarrow> sp_pings a c = None \<Longrightarrow>
    \<forall>ev \<in> set evs. \<not> acts_for c ev \<Longrightarrow> c \<in> dom (sp_names b)"
proof (induction rule: spec_run.induct)
  case (run_step ev a b out evs d out')
  from run_step.hyps(1) have "c \<in> dom (sp_names b) \<and> sp_pings b c = None"
    by cases (use run_step.prems in
        \<open>auto simp: acts_for_def stale_def restrict_map_def split: if_splits\<close>)
  with run_step.IH run_step.prems show ?case by simp
qed simp

section \<open>Properties\<close>

text \<open>
  C1: every run of the server that returns is a run of the abstract server of \<open>Chat_Spec\<close>
  with the same replies, and its ring, maps and counters represent the abstract state at
  the end: the last 128 log entries are readable, everything else follows the log.
\<close>

theorem chat_run_simulates:
  assumes "env_ok e" and "0 \<le> maxm" "maxm \<le> 128"
    and "chat_run e evs (new_ChatServer now timeout maxm) = Inr (s, out)"
  shows "\<exists>b. spec_run timeout maxm evs init_spec b out \<and> chat_refines e b s"
  using run_refines [OF assms] by blast


text \<open>
  C39: a request for messages after an id below -1, small enough not to be truncated, makes
  the handler index the ring with a negative number: an access outside the array.
\<close>

theorem negative_request_out_of_bounds:
  assumes "env_ok e" and "0 \<le> maxm" "maxm \<le> 128"
    and "chat_run e evs (new_ChatServer now timeout maxm) = Inr (s, out)"
    and "getCommandNamed (ev_path ev) = kGetMessages" "ev_args ev = [LoInt32 u, LoInt32 m]"
    and "m < - 1" "m_messageSerial s - m \<le> maxm"
  shows "handleMessage e ev s = Inl OutOfBounds"
proof -
  obtain b where "chat_refines e b s" and max: "m_maxMessagesPerRequest s = maxm"
    using run_refines [OF assms(1-4)] by blast
  then have serial: "0 \<le> m_messageSerial s"
    by (simp add: chat_refines_def ring_holds_def ring_ok_def)
  have ids: "[m + 1..m_messageSerial s - 1] = (m + 1) # [m + 2..m_messageSerial s - 1]"
    using assms(7) serial by (subst upto.simps) (simp add: add.commute)
  have "(m + 1) smod 128 < 0"
  proof -
    have "(m + 1) smod 128 = m + 1"
      using assms(3,7,8) serial by (simp add: signed_modulo_int_def div_pos_pos_trivial)
    with assms(7) show ?thesis by simp
  qed
  then have "send_stored (ev_address ev) t (m + 1) = Inl OutOfBounds" for t
    by (simp add: send_stored_def arr_at_def kMessageArraySize_def Let_def)
  then show ?thesis
    using assms(2,3,5-8) serial max
    by (simp add: handleMessage_def handleGetMessages_def truncate_request_def in_i32_def ids Let_def)
qed

text \<open>
  C24: the reply to a request after message \<open>m \<ge> 0\<close> consists of the stored messages with
  consecutive ids up to the newest one, starting after \<open>m\<close> or, when more than the
  maximum are pending, with the last \<open>maxm\<close> of them; all go to the requester.
\<close>

theorem reply_is_recent_tail:
  assumes "env_ok e" and "0 \<le> maxm" "maxm \<le> 128"
    and "chat_run e evs (new_ChatServer now timeout maxm) = Inr (s, out)"
    and "getCommandNamed (ev_path ev) = kGetMessages" "ev_args ev = [LoInt32 u, LoInt32 m]"
    and "handleMessage e ev s = Inr (s', replies)" and "0 \<le> m"
  shows "map (\<lambda>(_, _, args). hd args) replies
      = map LoInt32 [max (m + 1) (m_messageSerial s - maxm)..m_messageSerial s - 1]
    \<and> (\<forall>(address, _, _) \<in> set replies. address = ev_address ev)"
proof -
  obtain b where b: "spec_run timeout maxm evs init_spec b out" "chat_refines e b s"
    and max: "m_maxMessagesPerRequest s = maxm"
    using run_refines [OF assms(1-4)] by blast
  have serial: "m_messageSerial s = int (length (sp_log b))"
    using b(2) by (simp add: chat_refines_def ring_holds_def ring_ok_def)
  let ?first = "first_reply maxm (length (sp_log b)) m"
  have replies: "replies = map (Pair (ev_address ev)) (drop (nat ?first) (sp_log b))"
    using getMessages_reply [OF b(2) _ _ assms(5-7)] assms(2,3) max by simp
  have first: "?first = max (m + 1) (m_messageSerial s - maxm)"
    using assms(2,8) serial by (auto simp: first_reply_def)
  have "map (\<lambda>(_, _, args). hd args) replies = map LoInt32 [?first..m_messageSerial s - 1]"
  proof (rule nth_equalityI)
    fix i
    assume i: "i < length (map (\<lambda>(_, _, args). hd args) replies)"
    then have "nat ?first + i < length (sp_log b)"
      using replies by simp
    then obtain args where "snd (sp_log b ! (nat ?first + i)) = LoInt32 (int (nat ?first + i)) # args"
      using run_stamped [OF b(1)] unfolding stamped_def by blast
    with i replies first assms(8) serial
    show "map (\<lambda>(_, _, args). hd args) replies ! i = map LoInt32 [?first..m_messageSerial s - 1] ! i"
      by (simp add: case_prod_unfold)
  qed (use replies serial first assms(8) in simp)
  with replies first show ?thesis by auto
qed


text \<open>
  C30: the user ids acknowledged to signing-in clients during a run are 1, 2, 3, ... in
  this order: no id is given to two clients.
\<close>

theorem user_ids_fresh:
  assumes "env_ok e" and "0 \<le> maxm" "maxm \<le> 128"
    and "chat_run e evs (new_ChatServer now timeout maxm) = Inr (s, out)"
  shows "sign_in_ids out = map LoInt32 [1..m_userSerial s]"
proof -
  obtain b where "spec_run timeout maxm evs init_spec b out" "chat_refines e b s"
    using run_refines [OF assms] by blast
  with spec_run_ids [of timeout maxm evs init_spec b out] show ?thesis
    by (simp add: init_spec_def no_sign_in_paths_def chat_refines_def)
qed

text \<open>
  C31: the message objects allocated after a run are the queued ones up to 129 and one for
  every \<open>/chatSendMessage\<close> with an argument that is neither an integer nor a string. The ring
  has 128 slots: the message displaced first is never freed, and neither is any abandoned
  one, so clients can make the store grow without bound.
\<close>

theorem live_messages:
  assumes "env_ok e" and "0 \<le> maxm" "maxm \<le> 128"
    and "chat_run e evs (new_ChatServer now timeout maxm) = Inr (s, out)"
  shows "distinct (map fst (lo_heap s)) \<and>
    length (lo_heap s) = min (nat (m_messageSerial s)) 129 + length (filter abandons evs)"
proof -
  obtain b where "spec_run timeout maxm evs init_spec b out" "chat_refines e b s"
    using run_refines [OF assms] by blast
  with spec_run_abandoned [of timeout maxm evs init_spec b out] show ?thesis
    by (simp add: init_spec_def chat_refines_def ring_holds_def ring_ok_def)
qed

text \<open>
  C29: after a request of client \<open>u\<close>, exactly the clients whose last ping is at least the
  timeout old are gone from the ping table and the name table; \<open>u\<close>'s own ping is the
  current time, every other entry is unchanged, and one message is queued for each client
  that lost its name.
\<close>

theorem timeouts_after_request:
  assumes "env_ok e" and "0 \<le> maxm" "maxm \<le> 128"
    and "chat_run e evs (new_ChatServer now timeout maxm) = Inr (s, out)"
    and "getCommandNamed (ev_path ev) = kGetMessages" "ev_args ev = [LoInt32 u, LoInt32 m]"
    and "handleMessage e ev s = Inr (s', replies)"
  defines "pings \<equiv> (map_of (m_clientPings s))(u \<mapsto> ev_now ev)"
  defines "gone \<equiv> {c. \<exists>t. pings c = Some t \<and> t \<le> ev_now ev - seconds timeout}"
  shows "map_of (m_clientPings s') = pings |` (- gone) \<and>
    map_of (m_nameMap s') = map_of (m_nameMap s) |` (- gone) \<and>
    m_messageSerial s' = m_messageSerial s + int (card (dom (map_of (m_nameMap s)) \<inter> gone))"
proof -
  obtain b where b: "chat_refines e b s" and config: "m_timeout s = timeout" "m_maxMessagesPerRequest s = maxm"
    using run_refines [OF assms(1-4)] by blast
  then have maps: "map_of (m_nameMap s) = sp_names b" "map_of (m_clientPings s) = sp_pings b"
    by (simp_all add: chat_refines_def)
  show ?thesis
    using getMessages_reply [OF b _ _ assms(5-7)] assms(2,3) config maps
    by (simp add: pings_def gone_def stale_def Let_def)
qed

text \<open>
  A client that is signed in but has never asked for messages is never timed out: it
  keeps its name through every run in which it neither asks nor signs out, however long.
\<close>

theorem silent_client_stays:
  assumes "env_ok e" and "0 \<le> maxm" "maxm \<le> 128"
    and "chat_run e evs (new_ChatServer now timeout maxm) = Inr (s, out)"
    and "c \<in> dom (map_of (m_nameMap s))" "map_of (m_clientPings s) c = None"
    and "chat_run e evs' s = Inr (s', out')" and "\<forall>ev \<in> set evs'. \<not> acts_for c ev"
  shows "c \<in> dom (map_of (m_nameMap s'))"
proof -
  obtain a where a: "chat_refines e a s" "m_maxMessagesPerRequest s = maxm" "m_timeout s = timeout"
    using run_refines [OF assms(1-4)] by blast
  with chat_run_refines [OF assms(7) a(1)] assms(2,3) obtain b where
    "spec_run timeout maxm evs' a b out'" "chat_refines e b s'"
    by auto
  with spec_run_silent [of timeout maxm evs' a b out' c] a(1) assms(5,6,8) show ?thesis
    by (simp add: chat_refines_def)
qed

section \<open>Witnesses\<close>

definition demo_events :: "nat chat_event list" where
  "demo_events =
    [message 0 ''/chatSignIn'' [LoString ''ann''],
     message 1 ''/chatSignIn'' [LoString ''bob''],
     message 2 ''/chatGetMessages'' [LoInt32 1, LoInt32 0],
     message 3 ''/chatSendMessage'' [LoInt32 1, LoString ''hello'', LoInt32 0],
     message 4 ''/chatSendMessage'' [LoInt32 1, LoOther CHR ''b'']]"

definition demo_result :: "chat_server \<times> nat send list" where
  "demo_result = projr (chat_run example_env demo_events (new_ChatServer 0 10 3))"

abbreviation demo_server :: chat_server where
  "demo_server \<equiv> fst demo_result"

text \<open>The definitions a run unfolds to.\<close>

lemmas chat_eval = demo_events_def handleMessage_def getCommandNamed_def command_table_def
  handleSignIn_def queueNew_def lo_build_def lo_message_new_def lo_message_add_def
  queueMessage_def new_ChatServer_def kMessageArraySize_def smod_nonneg arr_set_def arr_at_def
  seconds_def example_env_def chk_i32_def in_i32_def handleGetMessages_def truncate_request_def
  send_stored_def handleSendMessage_def upto_rec1

lemma demo_run:
  "chat_run example_env demo_events (new_ChatServer 0 10 3) = Inr (demo_server, snd demo_result)"
  by (simp add: demo_result_def chat_eval)

lemma demo_state:
  "m_messageSerial demo_server = 3" "m_userSerial demo_server = 2"
  "m_nameMap demo_server = [(1, ''ann''), (2, ''bob'')]" "m_clientPings demo_server = [(1, 2)]"
  by (simp_all add: demo_result_def chat_eval)

definition demo_request :: "nat chat_event" where
  "demo_request = message (seconds 100) ''/chatGetMessages'' [LoInt32 2, LoInt32 0]"

definition demo_reply :: "chat_server \<times> nat send list" where
  "demo_reply = projr (handleMessage example_env demo_request demo_server)"

lemma demo_request:
  "getCommandNamed (ev_path demo_request) = kGetMessages"
  "ev_args demo_request = [LoInt32 2, LoInt32 0]" "ev_now demo_request = seconds 100"
  by (simp_all add: demo_request_def getCommandNamed_def command_table_def)

lemma demo_handle:
  "handleMessage example_env demo_request demo_server = Inr (fst demo_reply, snd demo_reply)"
  by (simp add: demo_reply_def demo_request_def demo_result_def chat_eval)

theorem chat_run_simulates_witness:
  "\<exists>b. spec_run 10 3 demo_events init_spec b (snd demo_result) \<and> chat_refines example_env b demo_server"
  by (rule chat_run_simulates [OF env_ok_example _ _ demo_run]) simp_all


theorem negative_request_out_of_bounds_witness:
  "handleMessage example_env (message 5 ''/chatGetMessages'' [LoInt32 2, LoInt32 (- 3)])
     (new_ChatServer 0 10 3) = Inl OutOfBounds"
  by (rule negative_request_out_of_bounds [OF env_ok_example, of 3 "[]" 0 10 _ "[]" _ 2 "- 3"])
    (simp_all add: getCommandNamed_def command_table_def new_ChatServer_def)

theorem reply_is_recent_tail_witness:
  "map (\<lambda>(_, _, args). hd args) (snd demo_reply) = [LoInt32 1, LoInt32 2]"
  using reply_is_recent_tail [OF env_ok_example _ _ demo_run demo_request(1,2) demo_handle]
  by (simp add: demo_state upto_rec1)

definition demo_later :: "nat chat_event list" where
  "demo_later = [message (seconds 101) ''/chatSendMessage'' [LoInt32 2, LoString ''hi'']]"

definition demo_again :: "nat chat_event" where
  "demo_again = message (seconds 102) ''/chatGetMessages'' [LoInt32 2, LoInt32 2]"

definition demo_later_result :: "chat_server \<times> nat send list" where
  "demo_later_result =
     projr (chat_run example_env (demo_events @ demo_request # demo_later) (new_ChatServer 0 10 3))"

definition demo_again_reply :: "chat_server \<times> nat send list" where
  "demo_again_reply = projr (handleMessage example_env demo_again (fst demo_later_result))"

lemma demo_later:
  "chat_run example_env (demo_events @ demo_request # demo_later) (new_ChatServer 0 10 3)
    = Inr (fst demo_later_result, snd demo_later_result)"
  "m_messageSerial (fst demo_later_result) = 5"
  by (simp_all add: demo_later_result_def demo_request_def demo_later_def chat_eval)

lemma demo_again:
  "handleMessage example_env demo_again (fst demo_later_result)
    = Inr (fst demo_again_reply, snd demo_again_reply)"
  by (simp add: demo_again_reply_def demo_later_result_def demo_request_def demo_again_def
      demo_later_def chat_eval)


theorem user_ids_fresh_witness: "sign_in_ids (snd demo_result) = [LoInt32 1, LoInt32 2]"
  using user_ids_fresh [OF env_ok_example _ _ demo_run] by (simp add: demo_state upto_rec1)

theorem live_messages_witness:
  "distinct (map fst (lo_heap demo_server)) \<and> length (lo_heap demo_server) = 4"
  using live_messages [OF env_ok_example _ _ demo_run]
  by (simp add: demo_state demo_events_def abandons_def supported_def getCommandNamed_def
      command_table_def)

theorem timeouts_after_request_witness:
  "map_of (m_nameMap (fst demo_reply)) 1 = None \<and> map_of (m_nameMap (fst demo_reply)) 2 = Some ''bob''"
  using timeouts_after_request [OF env_ok_example _ _ demo_run demo_request(1,2) demo_handle]
  by (auto simp: demo_state demo_request seconds_def restrict_map_def split: if_splits)

theorem silent_client_stays_witness:
  "2 \<in> dom (map_of (m_nameMap (projr (map_sum id fst (chat_run example_env
      [message (seconds 100) ''/chatGetMessages'' [LoInt32 1, LoInt32 0]] demo_server)))))"
proof -
  let ?evs = "[message (seconds 100) ''/chatGetMessages'' [LoInt32 1, LoInt32 0]]"
  obtain s' out' where run: "chat_run example_env ?evs demo_server = Inr (s', out')"
    by (simp add: demo_result_def chat_eval)
  from silent_client_stays [OF env_ok_example _ _ demo_run _ _ run, of 2]
  show ?thesis
    by (simp add: run demo_state acts_for_def getCommandNamed_def command_table_def
        del: chat_run.simps)
qed

end
