(* ===== verification/Chat_Main.thy ===== *)
theory Chat_Main
  imports Chat_Server
begin

text \<open>
  The life of the chat server: the methods of \<open>src/confab/ChatServer.cpp\<close> around the message
  handler, which start and stop its OSC thread, and \<open>src/confab/confab-server.cpp\<close>, the program
  that runs it. What the OSC library and the system answer are parameters.
\<close>

section \<open>The listener\<close>

text \<open>The OSC thread: whether its handler is installed and whether it runs.\<close>

record lo_thread =
  lo_port :: string
  lo_installed :: bool
  lo_running :: bool

record listener =
  m_tcpThread :: "lo_thread option"
  threads_freed :: nat

record lo_answers =
  lo_new_ok :: bool
  lo_start_ok :: bool
  lo_stop_ok :: bool

definition new_listener :: listener where
  "new_listener = \<lparr>m_tcpThread = None, threads_freed = 0\<rparr>"

definition chat_create :: "lo_answers \<Rightarrow> string \<Rightarrow> listener \<Rightarrow> bool \<times> listener" where
  "chat_create lo bindPort l =
     (let thread = (if lo_new_ok lo then Some \<lparr>lo_port = bindPort, lo_installed = False, lo_running = False\<rparr> else None);
          l = l\<lparr>m_tcpThread := thread\<rparr>
      in case thread of
           None \<Rightarrow> (False, l)
         | Some t \<Rightarrow> (True, l\<lparr>m_tcpThread := Some (t\<lparr>lo_installed := True\<rparr>)\<rparr>))"

definition chat_start :: "lo_answers \<Rightarrow> listener \<Rightarrow> fault + bool \<times> listener" where
  "chat_start lo l =
     (case m_tcpThread l of
        None \<Rightarrow> Inl NullDeref
      | Some t \<Rightarrow>
          if \<not> lo_start_ok lo then Inr (False, l)
          else Inr (True, l\<lparr>m_tcpThread := Some (t\<lparr>lo_running := True\<rparr>)\<rparr>))"

text \<open>A failed stop is only logged.\<close>

definition chat_stop :: "lo_answers \<Rightarrow> listener \<Rightarrow> fault + listener" where
  "chat_stop lo l =
     (case m_tcpThread l of
        None \<Rightarrow> Inl NullDeref
      | Some t \<Rightarrow>
          if \<not> lo_stop_ok lo then Inr l
          else Inr (l\<lparr>m_tcpThread := Some (t\<lparr>lo_running := False\<rparr>)\<rparr>))"

definition chat_destroy :: "listener \<Rightarrow> listener" where
  "chat_destroy l =
     (case m_tcpThread l of
        None \<Rightarrow> l
      | Some t \<Rightarrow> l\<lparr>m_tcpThread := None, threads_freed := threads_freed l + 1\<rparr>)"

text \<open>The callback of the OSC library hands every message to the server object.\<close>

definition loHandle :: "chat_env \<Rightarrow> 'a chat_event \<Rightarrow> chat_server \<Rightarrow> fault + chat_server \<times> 'a send list" where
  "loHandle e ev s = handleMessage e ev s"

section \<open>The program\<close>

record server_flags =
  FLAGS_chatPort :: int
  FLAGS_timeout :: int
  FLAGS_maxMessagesPerRequest :: int

text \<open>
  The values without a command line; three messages for each request are within the 128 of
  the ring, as the properties of a poll require.
\<close>

definition default_server_flags :: server_flags where
  "default_server_flags = \<lparr>FLAGS_chatPort = 61010, FLAGS_timeout = 10, FLAGS_maxMessagesPerRequest = 3\<rparr>"

lemma default_limit:
  "0 \<le> FLAGS_maxMessagesPerRequest default_server_flags" "FLAGS_maxMessagesPerRequest default_server_flags \<le> 128"
  by (simp_all add: default_server_flags_def)

text \<open>The messages that arrive, each handed over by the callback, with what is sent back.\<close>

definition chat_listen :: "chat_env \<Rightarrow> 'a chat_event list \<Rightarrow> chat_server \<Rightarrow> fault + chat_server \<times> 'a send list" where
  "chat_listen e events s =
     rfold (\<lambda>ev (s, sent). rbind (loHandle e ev s) (\<lambda>(s, out). Inr (s, sent @ out))) events (s, [])"

text \<open>
  \<open>main\<close>: the exit code, the listener, the server after the messages that arrived before the
  termination signal, and what it sent.
\<close>

definition server_main :: "lo_answers \<Rightarrow> bool \<Rightarrow> server_flags \<Rightarrow> chat_env \<Rightarrow> time \<Rightarrow> 'a chat_event list \<Rightarrow>
    fault + int \<times> listener \<times> chat_server \<times> 'a send list" where
  "server_main lo mask_ok fl e now events =
     (let chatServer = new_ChatServer now (FLAGS_timeout fl) (FLAGS_maxMessagesPerRequest fl); l = new_listener
      in if \<not> mask_ok then Inr (-1, l, chatServer, [])
         else
           let (ok, l) = chat_create lo (show_int (FLAGS_chatPort fl)) l
           in if \<not> ok then Inr (-1, l, chatServer, [])
              else rbind (chat_start lo l) (\<lambda>(ok, l).
                if \<not> ok then Inr (-1, l, chatServer, [])
                else rbind (chat_listen e events chatServer) (\<lambda>(chatServer, sent).
                     rbind (chat_stop lo l) (\<lambda>l. Inr (0, chat_destroy l, chatServer, sent)))))"

section \<open>The program runs the message handler\<close>

lemma chat_listen_acc:
  "rfold (\<lambda>ev (s, sent). rbind (loHandle e ev s) (\<lambda>(s, out). Inr (s, sent @ out))) events (s, sent) =
    rbind (chat_run e events s) (\<lambda>(s, out). Inr (s, sent @ out))"
proof (induction events arbitrary: s sent)
  case Nil
  then show ?case by simp
next
  case (Cons ev events)
  show ?case
  proof (cases "handleMessage e ev s")
    case (Inl f)
    then show ?thesis by (simp add: loHandle_def)
  next
    case (Inr r)
    obtain s1 out where r: "r = (s1, out)" by (cases r)
    have "loHandle e ev s = Inr (s1, out)" by (simp add: loHandle_def Inr r)
    then show ?thesis
      by (cases "chat_run e events s1") (auto simp: Inr r Cons.IH)
  qed
qed

text \<open>
  When the OSC library answers well, the program is the run of the handler over the messages,
  and ends with its thread stopped and freed once.
\<close>

lemma server_main_runs:
  assumes "lo_new_ok lo" "lo_start_ok lo" "lo_stop_ok lo"
  shows "server_main lo True fl e now events =
    rbind (chat_run e events (new_ChatServer now (FLAGS_timeout fl) (FLAGS_maxMessagesPerRequest fl)))
      (\<lambda>(s, sent). Inr (0, \<lparr>m_tcpThread = None, threads_freed = 1\<rparr>, s, sent))"
proof -
  let ?run = "chat_run e events (new_ChatServer now (FLAGS_timeout fl) (FLAGS_maxMessagesPerRequest fl))"
  show ?thesis
    using assms chat_listen_acc [of e events _ "[]"]
    by (cases ?run)
      (auto simp: server_main_def new_listener_def chat_create_def chat_start_def chat_stop_def chat_destroy_def
        chat_listen_def)
qed

end
