(* ===== verification/C_Text.thy ===== *)
theory C_Text
  imports Confab_Prelude
begin

text \<open>
  The text conversions of the C library that the asset code uses: \<open>c_str\<close>, the padded
  hexadecimal conversion \<open>%016lx\<close> and \<open>strtoull\<close> in base sixteen with the position it
  stops at. The lemmas show how \<open>strtoull\<close> reads back what \<open>%016lx\<close> wrote.
\<close>

section \<open>C strings\<close>

text \<open>\<open>std::string(p->c_str())\<close> stops at the first NUL character.\<close>

definition c_str :: "string \<Rightarrow> string" where
  "c_str s = takeWhile (\<lambda>c. c \<noteq> CHR 0x00) s"

lemma c_str_id: "CHR 0x00 \<notin> set s \<Longrightarrow> c_str s = s"
  by (auto simp: c_str_def takeWhile_eq_all_conv)

lemma c_str_Nil [simp]: "c_str [] = []"
  by (simp add: c_str_def)

definition to_chars :: "bytes \<Rightarrow> string" where
  "to_chars bs = map (\<lambda>b. char_of (unat b)) bs"

lemma unat_of_char: "unat (of_char c :: byte) = of_char c"
proof -
  have "unat (of_char c :: byte) = (of_char c::nat) mod 256"
    using unat_of_nat [where ?'a=8 and x="of_char c"] by (simp add: of_nat_of_char)
  then show ?thesis by simp
qed

lemma to_chars_of_chars [simp]: "to_chars (of_chars s) = s"
  by (simp add: to_chars_def of_chars_def unat_of_char map_idI)

section \<open>Hexadecimal output\<close>

fun show_hex :: "nat \<Rightarrow> string" where
  "show_hex n = (if n < 16 then [digit_char n] else show_hex (n div 16) @ [digit_char (n mod 16)])"

declare show_hex.simps [simp del]

definition pad0 :: "nat \<Rightarrow> string \<Rightarrow> string" where
  "pad0 w s = replicate (w - length s) (CHR ''0'') @ s"

text \<open>The low \<open>w\<close> hexadecimal digits of a number, most significant first.\<close>

fun hex_digits :: "nat \<Rightarrow> nat \<Rightarrow> string" where
  "hex_digits 0 n = []"
| "hex_digits (Suc w) n = hex_digits w (n div 16) @ [digit_char (n mod 16)]"

lemma length_hex_digits [simp]: "length (hex_digits w n) = w"
  by (induction w arbitrary: n) auto

lemma hex_digits_0: "hex_digits w 0 = replicate w (CHR ''0'')"
proof -
  have "digit_char 0 = CHR ''0''" by code_simp
  then show ?thesis
    by (induction w) (simp_all add: replicate_append_same)
qed

lemma pad0_show_hex: "n < 16 ^ w \<Longrightarrow> 0 < w \<Longrightarrow> pad0 w (show_hex n) = hex_digits w n"
proof (induction w arbitrary: n)
  case 0
  then show ?case by simp
next
  case (Suc w)
  show ?case
  proof (cases "n < 16")
    case True
    then show ?thesis by (simp add: show_hex.simps [of n] pad0_def hex_digits_0)
  next
    case False
    with Suc.prems have "n div 16 < 16 ^ w" "0 < w"
      by (auto simp: gr0_conv_Suc) (cases w; simp)
    with Suc.IH have "pad0 w (show_hex (n div 16)) = hex_digits w (n div 16)" by blast
    with False show ?thesis by (simp add: show_hex.simps [of n] pad0_def)
  qed
qed

section \<open>\<open>strtoull\<close> in base sixteen\<close>

definition hex_value :: "char \<Rightarrow> nat option" where
  "hex_value c =
     (let n = of_char c :: nat
      in if 48 \<le> n \<and> n \<le> 57 then Some (n - 48)
         else if 97 \<le> n \<and> n \<le> 102 then Some (n - 87)
         else if 65 \<le> n \<and> n \<le> 70 then Some (n - 55)
         else None)"

definition is_hex :: "char \<Rightarrow> bool" where
  "is_hex c \<longleftrightarrow> hex_value c \<noteq> None"

text \<open>The characters \<open>isspace\<close> accepts in the C locale: blank and the codes 9 to 13.\<close>

definition is_space :: "char \<Rightarrow> bool" where
  "is_space c \<longleftrightarrow> (let n = of_char c :: nat in n = 32 \<or> 9 \<le> n \<and> n \<le> 13)"

definition hex_number :: "string \<Rightarrow> nat" where
  "hex_number ds = foldl (\<lambda>n c. 16 * n + the (hex_value c)) 0 ds"

text \<open>
  The value and the number of characters consumed (zero when there is no digit). The
  terminating NUL is not a digit, so the end of the list and an embedded NUL both stop the
  scan. A number that does not fit saturates; a minus sign negates modulo \<open>2 ^ 64\<close>.
\<close>

definition sign_width :: "string \<Rightarrow> nat" where
  "sign_width s = (case s of [] \<Rightarrow> 0 | c # _ \<Rightarrow> if c = CHR ''-'' \<or> c = CHR ''+'' then 1 else 0)"

definition prefix_width :: "string \<Rightarrow> nat" where
  "prefix_width s =
     (case s of
        c0 # c1 # c2 # _ \<Rightarrow>
          if c0 = CHR ''0'' \<and> (c1 = CHR ''x'' \<or> c1 = CHR ''X'') \<and> is_hex c2 then 2 else 0
      | _ \<Rightarrow> 0)"

definition strtoull16 :: "string \<Rightarrow> u64 \<times> nat" where
  "strtoull16 s =
     (let sp = length (takeWhile is_space s);
          s1 = drop sp s;
          sg = sign_width s1;
          s2 = drop sg s1;
          px = prefix_width s2;
          ds = takeWhile is_hex (drop px s2);
          n = hex_number ds
      in if ds = [] then (0, 0)
         else (if n \<ge> 2 ^ 64 then - 1
               else if sg = 1 \<and> hd s1 = CHR ''-'' then - of_nat n else of_nat n,
               sp + sg + px + length ds))"

lemma hex_value_digit_char: "d < 16 \<Longrightarrow> hex_value (digit_char d) = Some d"
  by (simp add: hex_value_def of_char_digit_char Let_def)

lemma is_hex_digit_char [simp]: "d < 16 \<Longrightarrow> is_hex (digit_char d)"
  by (simp add: is_hex_def hex_value_digit_char)

lemma hex_digits_is_hex: "c \<in> set (hex_digits w n) \<Longrightarrow> is_hex c"
  by (induction w arbitrary: n) auto

lemma hex_not_space_sign: "is_hex c \<Longrightarrow> \<not> is_space c \<and> c \<noteq> CHR ''-'' \<and> c \<noteq> CHR ''+'' \<and> c \<noteq> CHR ''x'' \<and> c \<noteq> CHR ''X''"
  by (auto simp: is_hex_def is_space_def hex_value_def Let_def split: if_splits)

lemma hex_number_append: "hex_number (s @ [c]) = 16 * hex_number s + the (hex_value c)"
  by (simp add: hex_number_def)

lemma hex_number_hex_digits: "n < 16 ^ w \<Longrightarrow> hex_number (hex_digits w n) = n"
proof (induction w arbitrary: n)
  case 0
  then show ?case by (simp add: hex_number_def)
next
  case (Suc w)
  then have "n div 16 < 16 ^ w" by auto
  with Suc.IH show ?case by (simp add: hex_number_append hex_value_digit_char)
qed

text \<open>At least two hexadecimal digits at the front: no blank, sign or \<open>0x\<close> is skipped.\<close>

lemma strtoull16_digits:
  assumes "ds \<noteq> []" "\<And>c. c \<in> set ds \<Longrightarrow> is_hex c" "length ds > 1"
    and "case r of [] \<Rightarrow> True | c # _ \<Rightarrow> \<not> is_hex c" and "hex_number ds < 2 ^ 64"
  shows "strtoull16 (ds @ r) = (of_nat (hex_number ds), length ds)"
proof -
  obtain c d cs where ds: "ds = c # d # cs"
    using assms(3) by (cases ds; cases "tl ds") auto
  have c: "\<not> is_space c" "c \<noteq> CHR ''-''" "c \<noteq> CHR ''+''" "d \<noteq> CHR ''x''" "d \<noteq> CHR ''X''"
    using assms(2) [of c] assms(2) [of d] hex_not_space_sign by (auto simp: ds)
  have "takeWhile is_hex (ds @ r) = ds"
    using assms(2,4) by (auto simp: takeWhile_append split: list.splits)
  moreover have "takeWhile is_space (ds @ r) = []" "sign_width (ds @ r) = 0"
    "prefix_width (ds @ r) = 0"
    using c by (auto simp: ds sign_width_def prefix_width_def split: list.splits)
  ultimately show ?thesis
    using assms(1,5) by (simp add: strtoull16_def Let_def)
qed

lemma strtoull16_Nil [simp]: "strtoull16 [] = (0, 0)"
  by (simp add: strtoull16_def sign_width_def prefix_width_def)

end
