(* ===== verification/Asset.thy ===== *)
theory Asset
  imports C_Text
begin

text \<open>
  \<open>src/confab/Asset.hpp\<close> and \<open>Asset.cpp\<close>: the metadata of one digital asset, its text
  conversions, and its translation to and from the flat table \<open>FlatAsset\<close> of
  \<open>schemas/FlatAsset.fbs\<close>. A flat table is a record whose optional fields are options and
  whose scalar fields hold the schema's default zero when absent; the byte layout of a
  table belongs to the flatbuffers library and is a parameter of the theories that store
  or send it. The lemmas show that keys and lists of keys survive their text form, that
  the flat form of an asset determines it, and where reading a flat asset goes out of
  bounds.
\<close>

section \<open>Constants (\<open>Constants.hpp.in\<close>)\<close>

definition kPageSize :: nat where
  "kPageSize = 4096"

definition kDataChunkSize :: nat where
  "kDataChunkSize = 3 * (((kPageSize - 256) div 4) - 1)"

definition kSingleChunkDataSize :: nat where
  "kSingleChunkDataSize = 3 * (((3 * 1024) div 4) - 1)"

definition kEndList :: u64 where
  "kEndList = - 1"

definition kBeginList :: u64 where
  "kBeginList = 0"

lemma kDataChunkSize_val: "kDataChunkSize = 2877"
  by (simp add: kDataChunkSize_def kPageSize_def)

section \<open>Asset types\<close>

text \<open>
  The enumeration has the fixed underlying type \<open>uint32_t\<close>, so a value read from the
  network may be any 32-bit number.
\<close>

type_synonym asset_type = "32 word"

definition kInvalid :: asset_type where "kInvalid = 1"
definition kSnippet :: asset_type where "kSnippet = 2"
definition kImage :: asset_type where "kImage = 3"
definition kYAML :: asset_type where "kYAML = 4"
definition kSample :: asset_type where "kSample = 5"

lemmas type_defs = kInvalid_def kSnippet_def kImage_def kYAML_def kSample_def

definition typeStringToEnum :: "string \<Rightarrow> asset_type" where
  "typeStringToEnum assetType =
     (if assetType = ''snippet'' then kSnippet
      else if assetType = ''image'' then kImage
      else if assetType = ''yaml'' then kYAML
      else if assetType = ''sample'' then kSample
      else kInvalid)"

definition enumToTypeString :: "asset_type \<Rightarrow> string" where
  "enumToTypeString t =
     (if t = kSnippet then ''snippet''
      else if t = kImage then ''image''
      else if t = kYAML then ''yaml''
      else if t = kSample then ''sample''
      else ''invalid'')"

definition known_type :: "asset_type \<Rightarrow> bool" where
  "known_type t \<longleftrightarrow> t \<in> {kInvalid, kSnippet, kImage, kYAML, kSample}"

interpretation type_text: codec enumToTypeString typeStringToEnum known_type
  by unfold_locales (auto simp: known_type_def enumToTypeString_def typeStringToEnum_def type_defs)

section \<open>Keys as text\<close>

definition keyToString :: "u64 \<Rightarrow> string" where
  "keyToString key = snprintf 17 (pad0 16 (show_hex (unat key)))"

definition stringToKey :: "string \<Rightarrow> u64" where
  "stringToKey keyString = fst (strtoull16 keyString)"

lemma keyToString_digits: "keyToString k = hex_digits 16 (unat k)"
proof -
  have "unat k < 16 ^ 16"
    using unsigned_less [of k] by simp
  then show ?thesis
    by (simp add: keyToString_def pad0_show_hex snprintf_def)
qed

lemma length_keyToString [simp]: "length (keyToString k) = 16"
  by (simp add: keyToString_digits)

lemma keyToString_is_hex: "c \<in> set (keyToString k) \<Longrightarrow> is_hex c"
  using hex_digits_is_hex by (simp add: keyToString_digits)

lemma keyToString_no_nul: "CHR 0x00 \<notin> set (keyToString k)"
  using keyToString_is_hex [of "CHR 0x00" k] by (auto simp: is_hex_def hex_value_def)

lemma strtoull16_keyToString:
  assumes "case r of [] \<Rightarrow> True | c # _ \<Rightarrow> \<not> is_hex c"
  shows "strtoull16 (keyToString k @ r) = (k, 16)"
proof -
  have "unat k < 16 ^ 16"
    using unsigned_less [of k] by simp
  then have "hex_number (keyToString k) = unat k"
    by (simp only: keyToString_digits hex_number_hex_digits)
  moreover have "unat k < 2 ^ 64"
    using unsigned_less [of k] by simp
  moreover have "keyToString k \<noteq> []"
    using length_keyToString [of k] by (metis list.size(3) zero_neq_numeral)
  ultimately show ?thesis
    using strtoull16_digits [of "keyToString k" r] keyToString_is_hex assms by simp
qed

interpretation key_text: fixed_codec keyToString stringToKey "\<lambda>_. True" 16
  using strtoull16_keyToString [of "[]"] by unfold_locales (simp_all add: stringToKey_def)

section \<open>The flat table and the class\<close>

record flat_asset =
  fa_type :: asset_type
  fa_key :: u64
  fa_name :: "string option"
  fa_fileExtension :: "string option"
  fa_author :: u64
  fa_deprecatedBy :: u64
  fa_deprecates :: u64
  fa_size :: u64
  fa_chunks :: u64
  fa_lists :: "u64 list option"
  fa_salt :: u64
  fa_inlineData :: "bytes option"

text \<open>A table to which nothing was added: every accessor returns the schema's default.\<close>

definition flat_asset_default :: flat_asset where
  "flat_asset_default =
     \<lparr>fa_type = kInvalid, fa_key = 0, fa_name = None, fa_fileExtension = None, fa_author = 0,
      fa_deprecatedBy = 0, fa_deprecates = 0, fa_size = 0, fa_chunks = 0, fa_lists = None,
      fa_salt = 0, fa_inlineData = None\<rparr>"

record asset =
  m_type :: asset_type
  m_key :: u64
  m_name :: string
  m_fileExtension :: string
  m_author :: u64
  m_deprecatedBy :: u64
  m_deprecates :: u64
  m_size :: u64
  m_chunks :: u64
  m_lists :: "u64 list"
  m_salt :: u64
  m_inlineData :: "bytes option"

text \<open>\<open>Asset::Asset(Type)\<close>.\<close>

definition new_Asset :: "asset_type \<Rightarrow> asset" where
  "new_Asset t =
     \<lparr>m_type = t, m_key = 0, m_name = [], m_fileExtension = [], m_author = 0, m_deprecatedBy = 0,
      m_deprecates = 0, m_size = 0, m_chunks = 0, m_lists = [], m_salt = 0, m_inlineData = None\<rparr>"

definition setKey :: "u64 \<Rightarrow> asset \<Rightarrow> asset" where
  "setKey key a = a\<lparr>m_key := key\<rparr>"

definition setName :: "string \<Rightarrow> asset \<Rightarrow> asset" where
  "setName name a = a\<lparr>m_name := name\<rparr>"

definition setFileExtension :: "string \<Rightarrow> asset \<Rightarrow> asset" where
  "setFileExtension fileExtension a = a\<lparr>m_fileExtension := fileExtension\<rparr>"

definition setAuthor :: "u64 \<Rightarrow> asset \<Rightarrow> asset" where
  "setAuthor authorKey a = a\<lparr>m_author := authorKey\<rparr>"

definition setDeprecatedBy :: "u64 \<Rightarrow> asset \<Rightarrow> asset" where
  "setDeprecatedBy deprecatedByKey a = a\<lparr>m_deprecatedBy := deprecatedByKey\<rparr>"

definition setDeprecates :: "u64 \<Rightarrow> asset \<Rightarrow> asset" where
  "setDeprecates deprecatesKey a = a\<lparr>m_deprecates := deprecatesKey\<rparr>"

definition setSize :: "u64 \<Rightarrow> asset \<Rightarrow> asset" where
  "setSize sz a = a\<lparr>m_size := sz\<rparr>"

definition setChunks :: "u64 \<Rightarrow> asset \<Rightarrow> asset" where
  "setChunks chunks a = a\<lparr>m_chunks := chunks\<rparr>"

definition setSalt :: "u64 \<Rightarrow> asset \<Rightarrow> asset" where
  "setSalt salt a = a\<lparr>m_salt := salt\<rparr>"

definition addToList :: "u64 \<Rightarrow> asset \<Rightarrow> asset" where
  "addToList listKey a = a\<lparr>m_lists := m_lists a @ [listKey]\<rparr>"

lemmas setter_defs = setKey_def setName_def setFileExtension_def setAuthor_def
  setDeprecatedBy_def setDeprecates_def setSize_def setChunks_def setSalt_def addToList_def

text \<open>
  \<open>setInlineData\<close> allocates a buffer and returns the pointer to it; \<open>fill\<close> stands for what
  the caller writes there.
\<close>

definition setInlineData :: "(nat \<Rightarrow> byte) \<Rightarrow> nat \<Rightarrow> asset \<Rightarrow> asset" where
  "setInlineData fill sz a = a\<lparr>m_inlineData := Some (map fill [0..<sz]), m_size := of_nat sz\<rparr>"

text \<open>A block copy of \<open>n\<close> bytes out of a buffer.\<close>

definition copy_out :: "bytes \<Rightarrow> nat \<Rightarrow> fault + bytes" where
  "copy_out buf n = (if n \<le> length buf then Inr (take n buf) else Inl OutOfBounds)"

text \<open>
  \<open>Asset::Asset(const FlatAsset* )\<close>. \<open>std::copy\<close> writes the list ids through
  \<open>m_lists.begin()\<close> of the still empty vector, which is out of bounds unless there is
  nothing to copy.
\<close>

definition copy_lists :: "u64 list option \<Rightarrow> fault + u64 list" where
  "copy_lists ids_opt =
     (case ids_opt of
        None \<Rightarrow> Inr []
      | Some ids \<Rightarrow> if ids = [] then Inr [] else Inl OutOfBounds)"

definition Asset_of_flat :: "flat_asset \<Rightarrow> fault + asset" where
  "Asset_of_flat f =
     rbind (copy_lists (fa_lists f)) (\<lambda>ids.
     rbind (case fa_inlineData f of
              None \<Rightarrow> Inr None
            | Some d \<Rightarrow> rbind (copy_out d (unat (fa_size f))) (\<lambda>b. Inr (Some b))) (\<lambda>inline.
       Inr \<lparr>m_type = fa_type f, m_key = fa_key f,
            m_name = (case fa_name f of None \<Rightarrow> [] | Some s \<Rightarrow> c_str s),
            m_fileExtension = (case fa_fileExtension f of None \<Rightarrow> [] | Some s \<Rightarrow> c_str s),
            m_author = fa_author f, m_deprecatedBy = fa_deprecatedBy f,
            m_deprecates = fa_deprecates f, m_size = fa_size f, m_chunks = fa_chunks f,
            m_lists = ids, m_salt = fa_salt f, m_inlineData = inline\<rparr>))"

text \<open>
  \<open>Asset::flatten\<close>: the table handed to the builder. Optional fields are added only when
  they differ from their default.
\<close>

definition flatten :: "asset \<Rightarrow> bytes option \<Rightarrow> fault + flat_asset" where
  "flatten a inlineData =
     (let name = (if m_name a \<noteq> [] then Some (m_name a) else None);
          fileExtension = (if m_fileExtension a \<noteq> [] then Some (m_fileExtension a) else None);
          list_ids = (if length (m_lists a) > 0 then Some (m_lists a) else None);
          serialInline = (if inlineData \<noteq> None then inlineData else m_inlineData a)
      in rbind (case serialInline of
                  None \<Rightarrow> Inr None
                | Some d \<Rightarrow> rbind (copy_out d (unat (m_size a))) (\<lambda>b. Inr (Some b))) (\<lambda>builderInline.
           let t = flat_asset_default\<lparr>fa_type := m_type a, fa_key := m_key a, fa_size := m_size a\<rparr>;
               t = (if name \<noteq> None then t\<lparr>fa_name := name\<rparr> else t);
               t = (if fileExtension \<noteq> None then t\<lparr>fa_fileExtension := fileExtension\<rparr> else t);
               t = (if list_ids \<noteq> None then t\<lparr>fa_lists := list_ids\<rparr> else t);
               t = (if m_author a \<noteq> 0 then t\<lparr>fa_author := m_author a\<rparr> else t);
               t = (if m_deprecatedBy a \<noteq> 0 then t\<lparr>fa_deprecatedBy := m_deprecatedBy a\<rparr> else t);
               t = (if m_deprecates a \<noteq> 0 then t\<lparr>fa_deprecates := m_deprecates a\<rparr> else t);
               t = (if m_chunks a \<noteq> 0 then t\<lparr>fa_chunks := m_chunks a\<rparr> else t);
               t = (if m_salt a \<noteq> 0 then t\<lparr>fa_salt := m_salt a\<rparr> else t);
               t = (if builderInline \<noteq> None then t\<lparr>fa_inlineData := builderInline\<rparr> else t)
           in Inr t))"


section \<open>Lists of keys\<close>

text \<open>
  The loop of \<open>Asset::parseListIds\<close>: whatever single character follows a key is skipped as
  the separator, and a key that reads as zero ends the scan.
\<close>

function parse_loop :: "string \<Rightarrow> nat \<Rightarrow> asset \<Rightarrow> nat \<Rightarrow> asset \<times> nat" where
  "parse_loop listIds offset a idsParsed =
     (if offset < length listIds then
        let (key, used) = strtoull16 (drop offset listIds)
        in if key = 0 then (a, idsParsed)
           else parse_loop listIds (offset + used + 1) (addToList key a) (idsParsed + 1)
      else (a, idsParsed))"
  by auto

termination
  by (relation "measure (\<lambda>(listIds, offset, _). length listIds - offset)") auto

declare parse_loop.simps [simp del]

definition parseListIds :: "string \<Rightarrow> asset \<Rightarrow> asset \<times> nat" where
  "parseListIds listIds a = parse_loop listIds 0 a 0"

text \<open>The text a client sends for a list of keys.\<close>

fun join_ids :: "u64 list \<Rightarrow> string" where
  "join_ids [] = []"
| "join_ids [k] = keyToString k"
| "join_ids (k # ks) = keyToString k @ CHR '','' # join_ids ks"

lemma not_hex_comma: "\<not> is_hex (CHR '','')"
  by (simp add: is_hex_def hex_value_def)

lemma parse_loop_join:
  "parse_loop (pre @ join_ids ks) (length pre) a n =
     (a\<lparr>m_lists := m_lists a @ takeWhile (\<lambda>k. k \<noteq> 0) ks\<rparr>, n + length (takeWhile (\<lambda>k. k \<noteq> 0) ks))"
proof (induction ks arbitrary: pre a n rule: join_ids.induct)
  case 1
  then show ?case by (simp add: parse_loop.simps)
next
  case (2 k)
  have "strtoull16 (keyToString k) = (k, 16)"
    using strtoull16_keyToString [of "[]" k] by simp
  then show ?case
    by (simp add: parse_loop.simps [of _ "length pre"] parse_loop.simps [of _ "17 + length pre"]
        addToList_def)
next
  case (3 k k' ks)
  let ?rest = "join_ids (k' # ks)"
  have scan: "strtoull16 (keyToString k @ CHR '','' # ?rest) = (k, 16)"
    by (rule strtoull16_keyToString) (simp add: not_hex_comma)
  have "parse_loop (pre @ join_ids (k # k' # ks)) (length pre) a n =
      (if k = 0 then (a, n)
       else parse_loop ((pre @ keyToString k @ '','') @ ?rest) (length (pre @ keyToString k @ '',''))
              (addToList k a) (n + 1))"
    using scan by (subst parse_loop.simps) (simp add: add.commute)
  with "3.IH" [of "pre @ keyToString k @ '',''"] show ?case
    by (simp add: addToList_def)
qed

section \<open>What the text and flat forms keep\<close>

text \<open>
  A list of keys written as comma-separated sixteen-digit numbers is parsed back in
  order, up to the first zero key, which is taken for an error. The keys are appended to the
  lists the asset is already in, and their number is returned.
\<close>

lemma parseListIds_join:
  "parseListIds (join_ids ks) a =
     (a\<lparr>m_lists := m_lists a @ takeWhile (\<lambda>k. k \<noteq> 0) ks\<rparr>, length (takeWhile (\<lambda>k. k \<noteq> 0) ks))"
  using parse_loop_join [of "[]" ks a 0] by (simp add: parseListIds_def)

text \<open>An asset whose buffer has the recorded size and whose texts hold no NUL.\<close>

definition asset_ok :: "asset \<Rightarrow> bool" where
  "asset_ok a \<longleftrightarrow>
     CHR 0x00 \<notin> set (m_name a) \<and> CHR 0x00 \<notin> set (m_fileExtension a) \<and>
     (case m_inlineData a of None \<Rightarrow> True | Some d \<Rightarrow> length d = unat (m_size a))"

lemma flatten_eq:
  "flatten a d =
     rbind (case (if d \<noteq> None then d else m_inlineData a) of
              None \<Rightarrow> Inr None
            | Some d \<Rightarrow> rbind (copy_out d (unat (m_size a))) (\<lambda>b. Inr (Some b))) (\<lambda>inline.
       Inr \<lparr>fa_type = m_type a, fa_key = m_key a,
            fa_name = (if m_name a = [] then None else Some (m_name a)),
            fa_fileExtension = (if m_fileExtension a = [] then None else Some (m_fileExtension a)),
            fa_author = m_author a, fa_deprecatedBy = m_deprecatedBy a,
            fa_deprecates = m_deprecates a, fa_size = m_size a, fa_chunks = m_chunks a,
            fa_lists = (if m_lists a = [] then None else Some (m_lists a)),
            fa_salt = m_salt a, fa_inlineData = inline\<rparr>)"
proof -
  have distrib: "fa (if c then x else y) = (if c then fa x else fa y)"
    for fa :: "flat_asset \<Rightarrow> 'b" and c x y
    by simp
  show ?thesis
    unfolding flatten_def Let_def flat_asset_default_def
    by (intro arg_cong2 [where f = rbind] refl ext arg_cong [where f = Inr] flat_asset.equality)
      (simp_all add: distrib [of fa_type] distrib [of fa_key] distrib [of fa_name]
        distrib [of fa_fileExtension] distrib [of fa_author] distrib [of fa_deprecatedBy]
        distrib [of fa_deprecates] distrib [of fa_size] distrib [of fa_chunks] distrib [of fa_lists]
        distrib [of fa_salt] distrib [of fa_inlineData])
qed

text \<open>
  C40: Serialising an asset never fails when its buffer has the recorded size, and reading
  the table back gives the same asset, unless the asset is in a list: then the copy of the
  list ids writes outside the empty vector.
\<close>

theorem flatten_then_read:
  assumes "asset_ok a"
  shows "\<exists>t. flatten a None = Inr t \<and>
           Asset_of_flat t = (if m_lists a = [] then Inr a else Inl OutOfBounds)"
  using assms
  by (cases a; cases "m_inlineData a")
    (auto simp: flatten_eq Asset_of_flat_def asset_ok_def copy_out_def copy_lists_def c_str_id)

definition example_asset :: asset where
  "example_asset = setName ''tune'' (setInlineData (\<lambda>i. of_nat i) 3 (setKey 7 (new_Asset kSnippet)))"

lemma flatten_then_read_witness:
  "(\<exists>t. flatten example_asset None = Inr t \<and> Asset_of_flat t = Inr example_asset) \<and>
   (\<exists>t. flatten (addToList 9 example_asset) None = Inr t \<and> Asset_of_flat t = Inl OutOfBounds)"
proof -
  have "asset_ok example_asset" "asset_ok (addToList 9 example_asset)"
    by (simp_all add: asset_ok_def example_asset_def setter_defs setInlineData_def new_Asset_def)
  from this [THEN flatten_then_read] show ?thesis
    by (simp add: example_asset_def setter_defs setInlineData_def new_Asset_def)
qed

end
