(* ===== verification/Records.thy ===== *)
theory Records
  imports Asset
begin

text \<open>
  \<open>SizedPointer.hpp\<close>, \<open>Record.hpp\<close> and the two record classes of \<open>AssetDatabase.cpp\<close> and
  \<open>HttpClient.cpp\<close>, with the two libraries they wrap: the key-value store and the flat
  tables. Both libraries are parameters: a store is a record of its operations, an iterator
  is the list of entries it has not passed yet, and what the code relies on is stated by
  \<open>leveldb_ok\<close> and \<open>flat_ok\<close>.
\<close>

section \<open>Sized pointers\<close>

text \<open>
  A pointer together with the bytes it covers; a reinterpreted pointer covers the same
  bytes, so the constructors for \<open>char\<close> and \<open>uint8_t\<close> data coincide.
\<close>

datatype sized_pointer = NullPointer | SizedPointer bytes

fun sp_data :: "sized_pointer \<Rightarrow> fault + bytes" where
  "sp_data NullPointer = Inl NullDeref"
| "sp_data (SizedPointer d) = Inr d"

fun sp_size :: "sized_pointer \<Rightarrow> nat" where
  "sp_size NullPointer = 0"
| "sp_size (SizedPointer d) = length d"

section \<open>The key-value store\<close>

type_synonym entry = "bytes \<times> bytes"
type_synonym iterator = "entry list"

record ldb_options =
  create_if_missing :: bool
  error_if_exists :: bool
  block_cache :: "int option"

record 'db leveldb =
  ldb_open :: "ldb_options \<Rightarrow> string \<Rightarrow> 'db option"
  ldb_write :: "entry list \<Rightarrow> 'db \<Rightarrow> bool \<times> 'db"
  ldb_entries :: "'db \<Rightarrow> entry list"

text \<open>A write batch holds insertions only, which take effect in order.\<close>

definition apply_batch :: "entry list \<Rightarrow> (bytes \<rightharpoonup> bytes) \<Rightarrow> (bytes \<rightharpoonup> bytes)" where
  "apply_batch batch m = fold (\<lambda>(k, v) m. m(k \<mapsto> v)) batch m"

text \<open>
  The documented behaviour of the store: an iterator yields the entries in the strict
  bytewise lexicographic order of their keys, and a write is atomic.
\<close>

definition leveldb_ok :: "'db leveldb \<Rightarrow> bool" where
  "leveldb_ok ldb \<longleftrightarrow>
     (\<forall>db. sorted_wrt (<) (map fst (ldb_entries ldb db))) \<and>
     (\<forall>batch db ok db'. ldb_write ldb batch db = (ok, db') \<longrightarrow>
        (if ok then map_of (ldb_entries ldb db') = apply_batch batch (map_of (ldb_entries ldb db))
         else ldb_entries ldb db' = ldb_entries ldb db))"

definition it_seek :: "bytes \<Rightarrow> entry list \<Rightarrow> iterator" where
  "it_seek key es = dropWhile (\<lambda>e. fst e < key) es"

definition it_valid :: "iterator \<Rightarrow> bool" where
  "it_valid it \<longleftrightarrow> it \<noteq> []"

fun it_key :: "iterator \<Rightarrow> fault + bytes" where
  "it_key [] = Inl InvalidIterator"
| "it_key ((k, v) # es) = Inr k"

fun it_value :: "iterator \<Rightarrow> fault + bytes" where
  "it_value [] = Inl InvalidIterator"
| "it_value ((k, v) # es) = Inr v"

fun it_next :: "iterator \<Rightarrow> fault + iterator" where
  "it_next [] = Inl InvalidIterator"
| "it_next (e # es) = Inr es"

section \<open>Records\<close>

text \<open>
  \<open>EmptyRecord\<close>, \<open>DatabaseRecord\<close> (an iterator) and \<open>ClientRecord\<close> (decoded bytes). A
  database record is never empty, because the iterator object exists even when it is not
  valid.
\<close>

datatype record_ptr = EmptyRecord | DatabaseRecord iterator | ClientRecord sized_pointer

text \<open>The methods of \<open>ClientRecord\<close>, whose pointer is null when it was built over nothing.\<close>

definition client_record_empty :: "sized_pointer \<Rightarrow> bool" where
  [simp]: "client_record_empty p \<longleftrightarrow> p = NullPointer"

definition client_record_data :: "sized_pointer \<Rightarrow> fault + sized_pointer" where
  [simp]: "client_record_data p = Inr p"

definition client_record_key :: "sized_pointer \<Rightarrow> fault + sized_pointer" where
  [simp]: "client_record_key p = Inr NullPointer"

fun record_empty :: "record_ptr \<Rightarrow> bool" where
  "record_empty EmptyRecord \<longleftrightarrow> True"
| "record_empty (DatabaseRecord it) \<longleftrightarrow> False"
| "record_empty (ClientRecord p) \<longleftrightarrow> client_record_empty p"

fun record_data :: "record_ptr \<Rightarrow> fault + sized_pointer" where
  "record_data EmptyRecord = Inr NullPointer"
| "record_data (DatabaseRecord it) = rbind (it_value it) (\<lambda>v. Inr (SizedPointer v))"
| "record_data (ClientRecord p) = client_record_data p"

fun record_key :: "record_ptr \<Rightarrow> fault + sized_pointer" where
  "record_key EmptyRecord = Inr NullPointer"
| "record_key (DatabaseRecord it) = rbind (it_key it) (\<lambda>k. Inr (SizedPointer k))"
| "record_key (ClientRecord p) = client_record_key p"

section \<open>Flat tables as bytes\<close>

record flat_asset_data =
  fd_data :: "bytes option"
  fd_hash :: u64

record flat_list =
  fl_key :: u64
  fl_name :: "string option"

text \<open>
  For each table the bytes the builder produces, the root accessor and the verifier. An
  accessor on bytes the verifier rejects is undefined behaviour.
\<close>

record flat_lib =
  asset_bytes :: "flat_asset \<Rightarrow> bytes"
  asset_root :: "bytes \<Rightarrow> flat_asset"
  asset_valid :: "bytes \<Rightarrow> bool"
  data_bytes :: "flat_asset_data \<Rightarrow> bytes"
  data_root :: "bytes \<Rightarrow> flat_asset_data"
  data_valid :: "bytes \<Rightarrow> bool"
  list_bytes :: "flat_list \<Rightarrow> bytes"
  list_root :: "bytes \<Rightarrow> flat_list"
  list_valid :: "bytes \<Rightarrow> bool"

definition GetFlatAsset :: "flat_lib \<Rightarrow> bytes \<Rightarrow> fault + flat_asset" where
  "GetFlatAsset F bs = (if asset_valid F bs then Inr (asset_root F bs) else Inl Unverified)"

definition GetFlatAssetData :: "flat_lib \<Rightarrow> bytes \<Rightarrow> fault + flat_asset_data" where
  "GetFlatAssetData F bs = (if data_valid F bs then Inr (data_root F bs) else Inl Unverified)"

definition GetFlatList :: "flat_lib \<Rightarrow> bytes \<Rightarrow> fault + flat_list" where
  "GetFlatList F bs = (if list_valid F bs then Inr (list_root F bs) else Inl Unverified)"

text \<open>
  A flatbuffer may not exceed two gigabytes; below that the builder's bytes verify and read
  back as the table. The bytes of a data table exceed its data by the fixed table, the
  vector length and the alignment only.
\<close>

definition opt_length :: "'a list option \<Rightarrow> nat" where
  "opt_length xs = (case xs of None \<Rightarrow> 0 | Some ys \<Rightarrow> length ys)"

definition asset_fits :: "flat_asset \<Rightarrow> bool" where
  "asset_fits a \<longleftrightarrow>
     opt_length (fa_name a) + opt_length (fa_fileExtension a) + 8 * opt_length (fa_lists a) +
       opt_length (fa_inlineData a) < 2 ^ 30"

definition flat_ok :: "flat_lib \<Rightarrow> bool" where
  "flat_ok F \<longleftrightarrow>
     (\<forall>a. asset_fits a \<longrightarrow> asset_valid F (asset_bytes F a) \<and> asset_root F (asset_bytes F a) = a) \<and>
     (\<forall>d. opt_length (fd_data d) < 2 ^ 30 \<longrightarrow>
        data_valid F (data_bytes F d) \<and> data_root F (data_bytes F d) = d \<and>
        length (data_bytes F d) \<le> opt_length (fd_data d) + 64) \<and>
     (\<forall>l. opt_length (fl_name l) < 2 ^ 30 \<longrightarrow>
        list_valid F (list_bytes F l) \<and> list_root F (list_bytes F l) = l)"

section \<open>Iterators over sorted entries\<close>

lemma it_seek_present:
  assumes "sorted_wrt (<) (map fst es)" "(k, v) \<in> set es"
  shows "\<exists>r. it_seek k es = (k, v) # r"
  using assms
proof (induction es)
  case Nil
  then show ?case by simp
next
  case (Cons e es)
  show ?case
  proof (cases "e = (k, v)")
    case True
    then show ?thesis by (simp add: it_seek_def)
  next
    case False
    with Cons.prems have "(k, v) \<in> set es" "fst e < k"
      by (auto simp: rev_image_eqI)
    with Cons show ?thesis by (auto simp: it_seek_def)
  qed
qed

lemma it_seek_subset: "set (it_seek k es) \<subseteq> set es"
  unfolding it_seek_def by (meson set_dropWhileD subsetI)

lemma sorted_distinct_keys: "sorted_wrt (<) (map fst es) \<Longrightarrow> distinct (map fst (es :: entry list))"
  by (simp add: strict_sorted_iff)

lemma apply_batch_append: "apply_batch (b @ c) m = apply_batch c (apply_batch b m)"
  by (simp add: apply_batch_def)

lemma apply_batch_simps [simp]:
  "apply_batch [] m = m" "apply_batch ((k, v) # b) m = apply_batch b (m(k \<mapsto> v))"
  by (simp_all add: apply_batch_def)

end
