(* ===== verification/AssetDatabase.thy ===== *)
theory AssetDatabase
  imports Records
begin

text \<open>
  \<open>src/confab/AssetDatabase.cpp\<close>: assets, their data chunks and lists of assets in one
  sorted key-value store. The store is a parameter (\<open>Records\<close>); each method is translated
  with the batch it writes or the seeks it makes. The lookup that follows deprecations is a
  loop that may not end, so it is a partial function into options.
\<close>

section \<open>Keys of the store\<close>

definition kAsset :: byte where "kAsset = of_char (CHR ''a'')"
definition kAssetData :: byte where "kAssetData = of_char (CHR ''d'')"
definition kList :: byte where "kList = of_char (CHR ''l'')"
definition kListEntry :: byte where "kListEntry = of_char (CHR ''e'')"

lemmas prefix_defs = kAsset_def kAssetData_def kList_def kListEntry_def

definition kAssetNamePrefix :: string where "kAssetNamePrefix = ''na''"
definition kListNamePrefix :: string where "kListNamePrefix = ''nl''"

definition kListEntryKeySize :: nat where "kListEntryKeySize = 25"
definition kAssetMaxListEntries :: nat where "kAssetMaxListEntries = 8"

definition makeAssetKey :: "u64 \<Rightarrow> bytes" where
  "makeAssetKey key = kAsset # le_bytes key"

definition makeAssetDataKey :: "u64 \<Rightarrow> u64 \<Rightarrow> bytes" where
  "makeAssetDataKey key chunkNumber = kAssetData # le_bytes key @ le_bytes chunkNumber"

definition makeListKey :: "u64 \<Rightarrow> bytes" where
  "makeListKey key = kList # le_bytes key"

text \<open>The 25 bytes the methods assemble in place for one entry of a list.\<close>

definition listEntryKey :: "u64 \<Rightarrow> u64 \<Rightarrow> u64 \<Rightarrow> bytes" where
  "listEntryKey listKey token key = kListEntry # le_bytes listKey @ le_bytes token @ le_bytes key"

definition iteratorMatch :: "iterator \<Rightarrow> bytes \<Rightarrow> bool" where
  "iteratorMatch it key =
     (it_valid it \<and> (case it_key it of Inl _ \<Rightarrow> False | Inr k \<Rightarrow> length k = length key \<and> k = key))"

section \<open>The class\<close>

record 'db asset_database =
  m_database :: "'db option"

definition new_AssetDatabase :: "'db asset_database" where
  "new_AssetDatabase = \<lparr>m_database = None\<rparr>"

definition db_open :: "'db leveldb \<Rightarrow> string \<Rightarrow> bool \<Rightarrow> int \<Rightarrow> 'db asset_database \<Rightarrow> bool \<times> 'db asset_database" where
  "db_open ldb path createNew cacheSize d =
     (let options = \<lparr>create_if_missing = createNew, error_if_exists = createNew,
                     block_cache = (if cacheSize > 0 then Some cacheSize else None)\<rparr>
      in case ldb_open ldb options path of
           None \<Rightarrow> (False, d)
         | Some database \<Rightarrow> (True, d\<lparr>m_database := Some database\<rparr>))"

definition db_close :: "'db asset_database \<Rightarrow> 'db asset_database" where
  "db_close d = d\<lparr>m_database := None\<rparr>"

definition db_ptr :: "'db asset_database \<Rightarrow> fault + 'db" where
  "db_ptr d = (case m_database d of None \<Rightarrow> Inl NullDeref | Some db \<Rightarrow> Inr db)"

definition db_put_batch :: "'db leveldb \<Rightarrow> entry list \<Rightarrow> 'db asset_database \<Rightarrow> fault + bool \<times> 'db asset_database" where
  "db_put_batch ldb batch d =
     rbind (db_ptr d) (\<lambda>db. case ldb_write ldb batch db of
       (ok, db') \<Rightarrow> Inr (ok, d\<lparr>m_database := Some db'\<rparr>))"

definition seek :: "'db leveldb \<Rightarrow> bytes \<Rightarrow> 'db \<Rightarrow> iterator" where
  "seek ldb key db = it_seek key (ldb_entries ldb db)"

section \<open>Assets\<close>

text \<open>The loop of \<open>findAsset\<close>, entered with the iterator on a matching entry.\<close>

partial_function (option) follow_deprecations ::
  "'db leveldb \<Rightarrow> flat_lib \<Rightarrow> 'db \<Rightarrow> iterator \<Rightarrow> (fault + record_ptr) option" where
  "follow_deprecations ldb F db it =
     (case rbind (it_value it) (GetFlatAsset F) of
        Inl e \<Rightarrow> Some (Inl e)
      | Inr flatAsset \<Rightarrow>
          if fa_deprecatedBy flatAsset \<noteq> 0 then
            let assetKey = makeAssetKey (fa_deprecatedBy flatAsset);
                it' = seek ldb assetKey db
            in if \<not> iteratorMatch it' assetKey then Some (Inr EmptyRecord)
               else follow_deprecations ldb F db it'
          else Some (Inr (DatabaseRecord it)))"

definition findAsset :: "'db leveldb \<Rightarrow> flat_lib \<Rightarrow> u64 \<Rightarrow> 'db asset_database \<Rightarrow> fault + record_ptr" where
  "findAsset ldb F key d =
     rbind (db_ptr d) (\<lambda>db.
       let assetKey = makeAssetKey key;
           it = seek ldb assetKey db
       in if \<not> iteratorMatch it assetKey then Inr EmptyRecord
          else case follow_deprecations ldb F db it of
                 None \<Rightarrow> Inl Diverges
               | Some r \<Rightarrow> r)"

definition findNamedAsset :: "'db leveldb \<Rightarrow> flat_lib \<Rightarrow> string \<Rightarrow> 'db asset_database \<Rightarrow> fault + record_ptr" where
  "findNamedAsset ldb F name d =
     rbind (db_ptr d) (\<lambda>db.
       let nameKey = of_chars (kAssetNamePrefix @ name);
           it = seek ldb nameKey db
       in if \<not> iteratorMatch it nameKey then Inr EmptyRecord
          else rbind (it_value it) (\<lambda>v.
               rbind (read_u64 v) (\<lambda>assetKey. findAsset ldb F assetKey d)))"

text \<open>
  One batch entry per list of the asset. The keys are assembled in a local buffer of
  \<open>kAssetMaxListEntries\<close> slots, at the index of the list; no bound is checked.
\<close>

fun list_entries :: "u64 \<Rightarrow> u64 \<Rightarrow> nat \<Rightarrow> u64 list \<Rightarrow> fault + entry list" where
  "list_entries key timeStamp i [] = Inr []"
| "list_entries key timeStamp i (l # ls) =
     (if i * kListEntryKeySize + kListEntryKeySize \<le> kListEntryKeySize * kAssetMaxListEntries
      then rbind (list_entries key timeStamp (i + 1) ls) (\<lambda>es.
             Inr ((listEntryKey l timeStamp key, []) # es))
      else Inl OutOfBounds)"

definition name_entry :: "string \<Rightarrow> string option \<Rightarrow> u64 \<Rightarrow> entry list" where
  "name_entry prefix name key =
     (case name of
        None \<Rightarrow> []
      | Some s \<Rightarrow> if length s > 0 then [(of_chars (prefix @ s), le_bytes key)] else [])"

text \<open>
  \<open>storeAsset\<close> at time \<open>now\<close> (microseconds). The number of lists is read through the list
  pointer, which is null for an asset in no list.
\<close>

definition storeAsset :: "'db leveldb \<Rightarrow> flat_lib \<Rightarrow> u64 \<Rightarrow> u64 \<Rightarrow> sized_pointer \<Rightarrow>
    'db asset_database \<Rightarrow> fault + bool \<times> 'db asset_database" where
  "storeAsset ldb F now key assetData d =
     rbind (sp_data assetData) (\<lambda>bs.
     rbind (GetFlatAsset F bs) (\<lambda>flatAsset.
       let names = name_entry kAssetNamePrefix (fa_name flatAsset) key
       in case fa_lists flatAsset of
            None \<Rightarrow> Inl NullDeref
          | Some ls \<Rightarrow>
              let timeStamp = (if length ls > 0 then now else 0)
              in rbind (list_entries key timeStamp 0 ls) (\<lambda>es.
                 db_put_batch ldb (names @ es @ [(makeAssetKey key, bs)]) d)))"

definition loadAssetDataChunk :: "'db leveldb \<Rightarrow> u64 \<Rightarrow> u64 \<Rightarrow> 'db asset_database \<Rightarrow> fault + record_ptr" where
  "loadAssetDataChunk ldb key chunk d =
     rbind (db_ptr d) (\<lambda>db.
       let assetDataKey = makeAssetDataKey key chunk;
           it = seek ldb assetDataKey db
       in Inr (DatabaseRecord it))"

definition storeAssetDataChunk :: "'db leveldb \<Rightarrow> u64 \<Rightarrow> u64 \<Rightarrow> sized_pointer \<Rightarrow>
    'db asset_database \<Rightarrow> fault + bool \<times> 'db asset_database" where
  "storeAssetDataChunk ldb key chunk flatAssetData d =
     rbind (sp_data flatAssetData) (\<lambda>bs.
       db_put_batch ldb [(makeAssetDataKey key chunk, bs)] d)"

section \<open>Lists\<close>

definition storeList :: "'db leveldb \<Rightarrow> flat_lib \<Rightarrow> u64 \<Rightarrow> sized_pointer \<Rightarrow>
    'db asset_database \<Rightarrow> fault + bool \<times> 'db asset_database" where
  "storeList ldb F key listEntry d =
     rbind (sp_data listEntry) (\<lambda>bs.
     rbind (GetFlatList F bs) (\<lambda>flatList.
       let names = name_entry kListNamePrefix (fl_name flatList) key;
           listBeginKey = listEntryKey key kBeginList kBeginList;
           listEndKey = listEntryKey key kEndList kEndList
       in db_put_batch ldb (names @ [(listBeginKey, []), (listEndKey, []), (makeListKey key, bs)]) d))"

definition loadList :: "'db leveldb \<Rightarrow> u64 \<Rightarrow> 'db asset_database \<Rightarrow> fault + record_ptr" where
  "loadList ldb key d =
     rbind (db_ptr d) (\<lambda>db.
       let listKey = makeListKey key;
           it = seek ldb listKey db
       in Inr (DatabaseRecord it))"

definition findNamedList :: "'db leveldb \<Rightarrow> string \<Rightarrow> 'db asset_database \<Rightarrow> fault + record_ptr" where
  "findNamedList ldb name d =
     rbind (db_ptr d) (\<lambda>db.
       let nameKey = of_chars (kListNamePrefix @ name);
           it = seek ldb nameKey db
       in if \<not> iteratorMatch it nameKey then Inr EmptyRecord
          else rbind (it_value it) (\<lambda>v.
               rbind (read_u64 v) (\<lambda>listKey. loadList ldb listKey d)))"

text \<open>
  The token and the asset key of a list entry, copied out of bytes 9 to 24 of its key.
\<close>

definition entry_pair :: "bytes \<Rightarrow> u64 \<times> u64" where
  "entry_pair k = (le_word (take 8 (drop 9 k)), le_word (take 8 (drop 17 k)))"

text \<open>
  The loop of \<open>getListNext\<close> with \<open>left\<close> pairs of room: the returned count and the pairs
  written to the caller's buffer, which are not taken back when the count is zero.
\<close>

fun next_loop :: "bytes \<Rightarrow> nat \<Rightarrow> iterator \<Rightarrow> (u64 \<times> u64) list \<Rightarrow> fault + nat \<times> (u64 \<times> u64) list" where
  "next_loop prefix 0 it out = Inr (length out, out)"
| "next_loop prefix (Suc left) it out =
     rbind (it_next it) (\<lambda>it'.
       if \<not> it_valid it' then Inr (0, out)
       else rbind (it_key it') (\<lambda>k.
         if length k \<noteq> kListEntryKeySize \<or> take 9 k \<noteq> prefix then Inr (length out, out)
         else next_loop prefix left it' (out @ [entry_pair k])))"

definition getListNext :: "'db leveldb \<Rightarrow> u64 \<Rightarrow> u64 \<Rightarrow> nat \<Rightarrow> 'db asset_database \<Rightarrow>
    fault + nat \<times> (u64 \<times> u64) list" where
  "getListNext ldb listKey fromToken maxPairs d =
     (if fromToken = kEndList then
        Inr (1, if maxPairs \<ge> 1 then [(kEndList, kEndList)] else [])
      else rbind (db_ptr d) (\<lambda>db.
        let key = listEntryKey listKey fromToken kBeginList;
            it = seek ldb key db
        in if \<not> it_valid it then Inr (0, [])
           else next_loop (take 9 key) maxPairs it []))"

end
