(* ===== verification/AssetDatabase_Spec.thy ===== *)
theory AssetDatabase_Spec
  imports AssetDatabase
begin

text \<open>
  What the asset database promises: the bytes of different keys never collide, so the store
  is a map from typed keys (\<open>db_key\<close>) to values; each store method is an update of that
  map, and each lookup reads it. The properties of the database rest on these views.
\<close>

section \<open>Typed keys\<close>

datatype db_key =
    AssetKey u64
  | DataKey u64 u64
  | ListKey u64
  | EntryKey u64 u64 u64
  | AssetName string
  | ListName string

fun key_bytes :: "db_key \<Rightarrow> bytes" where
  "key_bytes (AssetKey k) = makeAssetKey k"
| "key_bytes (DataKey k c) = makeAssetDataKey k c"
| "key_bytes (ListKey k) = makeListKey k"
| "key_bytes (EntryKey l t a) = listEntryKey l t a"
| "key_bytes (AssetName s) = of_chars (kAssetNamePrefix @ s)"
| "key_bytes (ListName s) = of_chars (kListNamePrefix @ s)"

lemmas key_defs = makeAssetKey_def makeAssetDataKey_def makeListKey_def listEntryKey_def
  kAssetNamePrefix_def kListNamePrefix_def prefix_defs of_char_byte_inj

lemma key_bytes_inj [simp]: "key_bytes j = key_bytes k \<longleftrightarrow> j = k"
  by (cases j; cases k) (auto simp: key_defs le64.enc_append_eq_iff le64.enc_eq_iff)

definition db_view :: "'db leveldb \<Rightarrow> 'db \<Rightarrow> db_key \<Rightarrow> bytes option" where
  "db_view ldb db k = map_of (ldb_entries ldb db) (key_bytes k)"

lemma db_view_simps:
  "map_of (ldb_entries ldb db) (makeAssetKey k) = db_view ldb db (AssetKey k)"
  "map_of (ldb_entries ldb db) (makeAssetDataKey k c) = db_view ldb db (DataKey k c)"
  "map_of (ldb_entries ldb db) (makeListKey k) = db_view ldb db (ListKey k)"
  "map_of (ldb_entries ldb db) (of_chars (kAssetNamePrefix @ s)) = db_view ldb db (AssetName s)"
  "map_of (ldb_entries ldb db) (of_chars (kListNamePrefix @ s)) = db_view ldb db (ListName s)"
  by (simp_all add: db_view_def)

section \<open>Seeks\<close>

lemma leveldb_sorted: "leveldb_ok ldb \<Longrightarrow> sorted_wrt (<) (map fst (ldb_entries ldb db))"
  by (simp add: leveldb_ok_def)

lemma leveldb_distinct: "leveldb_ok ldb \<Longrightarrow> distinct (map fst (ldb_entries ldb db))"
  by (rule sorted_distinct_keys) (rule leveldb_sorted)

lemma seek_hit:
  assumes "leveldb_ok ldb" "map_of (ldb_entries ldb db) key = Some v"
  shows "\<exists>r. seek ldb key db = (key, v) # r"
  unfolding seek_def
  by (rule it_seek_present) (use leveldb_sorted [OF assms(1)] map_of_SomeD [OF assms(2)] in simp_all)

lemma seek_match_iff:
  assumes "leveldb_ok ldb"
  shows "iteratorMatch (seek ldb key db) key \<longleftrightarrow> map_of (ldb_entries ldb db) key \<noteq> None"
proof
  assume "iteratorMatch (seek ldb key db) key"
  then obtain v r where "seek ldb key db = (key, v) # r"
    by (cases "seek ldb key db" rule: it_key.cases) (auto simp: iteratorMatch_def)
  then have "(key, v) \<in> set (ldb_entries ldb db)"
    using it_seek_subset [of key "ldb_entries ldb db"] by (auto simp: seek_def)
  then show "map_of (ldb_entries ldb db) key \<noteq> None"
    by (metis map_of_eq_None_iff fst_conv image_eqI)
next
  assume "map_of (ldb_entries ldb db) key \<noteq> None"
  then obtain v r where "seek ldb key db = (key, v) # r"
    using seek_hit [OF assms] by blast
  then show "iteratorMatch (seek ldb key db) key"
    by (simp add: iteratorMatch_def it_valid_def)
qed

lemma seek_value:
  assumes "leveldb_ok ldb" "map_of (ldb_entries ldb db) key = Some v"
  shows "it_value (seek ldb key db) = Inr v" "iteratorMatch (seek ldb key db) key"
  using seek_hit [OF assms] assms by (auto simp: seek_match_iff)

section \<open>Writes\<close>

definition typed_batch :: "(db_key \<times> bytes) list \<Rightarrow> entry list" where
  "typed_batch b = map (\<lambda>(k, v). (key_bytes k, v)) b"

lemma typed_batch_simps [simp]:
  "typed_batch [] = []" "typed_batch ((k, v) # b) = (key_bytes k, v) # typed_batch b"
  "typed_batch (b @ c) = typed_batch b @ typed_batch c"
  by (simp_all add: typed_batch_def)

definition update_view :: "(db_key \<times> bytes) list \<Rightarrow> (db_key \<rightharpoonup> bytes) \<Rightarrow> (db_key \<rightharpoonup> bytes)" where
  "update_view b m = fold (\<lambda>(k, v) m. m(k \<mapsto> v)) b m"

lemma update_view_simps [simp]:
  "update_view [] m = m" "update_view ((k, v) # b) m = update_view b (m(k \<mapsto> v))"
  by (simp_all add: update_view_def)

lemma update_view_append: "update_view (b @ c) m = update_view c (update_view b m)"
  by (simp add: update_view_def)

lemma update_view_other: "k \<notin> fst ` set b \<Longrightarrow> update_view b m k = m k"
  by (induction b arbitrary: m) auto

lemma apply_typed_batch:
  "apply_batch (typed_batch b) m (key_bytes k) = update_view b (\<lambda>j. m (key_bytes j)) k"
proof (induction b arbitrary: m)
  case Nil
  then show ?case by simp
next
  case (Cons e b)
  have "(\<lambda>j. (m(key_bytes (fst e) \<mapsto> snd e)) (key_bytes j)) = (\<lambda>j. m (key_bytes j))(fst e \<mapsto> snd e)"
    by (auto simp: fun_eq_iff)
  with Cons show ?case by (cases e) simp
qed

text \<open>An open database over a store that keeps its contract.\<close>

definition opened :: "'db leveldb \<Rightarrow> 'db asset_database \<Rightarrow> bool" where
  "opened ldb d \<longleftrightarrow> leveldb_ok ldb \<and> m_database d \<noteq> None"

definition view :: "'db leveldb \<Rightarrow> 'db asset_database \<Rightarrow> db_key \<Rightarrow> bytes option" where
  "view ldb d = db_view ldb (the (m_database d))"

lemma opened_ptr: "opened ldb d \<Longrightarrow> db_ptr d = Inr (the (m_database d))"
  by (auto simp: opened_def db_ptr_def)

lemma put_batch_refines:
  assumes "opened ldb d"
  shows "\<exists>ok d'. db_put_batch ldb (typed_batch b) d = Inr (ok, d') \<and> opened ldb d' \<and>
           view ldb d' = (if ok then update_view b (view ldb d) else view ldb d)"
proof -
  obtain ok db' where w: "ldb_write ldb (typed_batch b) (the (m_database d)) = (ok, db')"
    by fastforce
  have "view ldb (d\<lparr>m_database := Some db'\<rparr>) = (if ok then update_view b (view ldb d) else view ldb d)"
  proof
    fix k
    have "if ok then map_of (ldb_entries ldb db') =
              apply_batch (typed_batch b) (map_of (ldb_entries ldb (the (m_database d))))
          else ldb_entries ldb db' = ldb_entries ldb (the (m_database d))"
      using assms w by (auto simp: opened_def leveldb_ok_def)
    then show "view ldb (d\<lparr>m_database := Some db'\<rparr>) k =
        (if ok then update_view b (view ldb d) else view ldb d) k"
      by (auto simp: view_def db_view_def [abs_def] apply_typed_batch split: if_splits)
  qed
  with assms w show ?thesis
    by (simp add: db_put_batch_def opened_ptr) (simp add: opened_def)
qed

section \<open>Tables of records\<close>

text \<open>
  The contract of one kind of record in the store: a store of a good value updates the
  table at its key when it reports success and leaves it alone otherwise.
\<close>

locale record_table =
  fixes ok :: "'d \<Rightarrow> bool"
    and put :: "'k \<Rightarrow> bytes \<Rightarrow> 'd \<Rightarrow> fault + bool \<times> 'd"
    and find :: "'d \<Rightarrow> 'k \<Rightarrow> bytes option"
    and good :: "bytes \<Rightarrow> bool"
  assumes put_total: "ok d \<Longrightarrow> good v \<Longrightarrow> \<exists>b d'. put k v d = Inr (b, d') \<and> ok d'"
    and find_put: "ok d \<Longrightarrow> good v \<Longrightarrow> put k v d = Inr (b, d') \<Longrightarrow>
                     find d' = (if b then (find d)(k \<mapsto> v) else find d)"
begin

lemma put_ok: "ok d \<Longrightarrow> good v \<Longrightarrow> put k v d = Inr (b, d') \<Longrightarrow> ok d'"
  using put_total [of d v k] by auto

lemma find_put_same: "ok d \<Longrightarrow> good v \<Longrightarrow> put k v d = Inr (True, d') \<Longrightarrow> find d' k = Some v"
  by (simp add: find_put)

lemma find_put_other:
  "ok d \<Longrightarrow> good v \<Longrightarrow> put k v d = Inr (b, d') \<Longrightarrow> j \<noteq> k \<Longrightarrow> find d' j = find d j"
  by (auto simp: find_put split: if_splits)

text \<open>A failed store keeps the whole table.\<close>

lemma find_put_failed: "ok d \<Longrightarrow> good v \<Longrightarrow> put k v d = Inr (False, d') \<Longrightarrow> find d' = find d"
  by (simp add: find_put)

end

lemma storeAssetDataChunk_refines:
  assumes "opened ldb d"
  shows "\<exists>ok d'. storeAssetDataChunk ldb key chunk (SizedPointer bs) d = Inr (ok, d') \<and>
           opened ldb d' \<and>
           view ldb d' = (if ok then (view ldb d)(DataKey key chunk \<mapsto> bs) else view ldb d)"
  using put_batch_refines [OF assms, of "[(DataKey key chunk, bs)]"]
  by (simp add: storeAssetDataChunk_def cong: if_cong)

interpretation chunk_table: record_table "opened ldb"
    "\<lambda>(key, chunk) bs. storeAssetDataChunk ldb key chunk (SizedPointer bs)"
    "\<lambda>d (key, chunk). view ldb d (DataKey key chunk)" "\<lambda>_. True"
  for ldb
proof unfold_locales
  fix d v k
  assume "opened ldb d"
  then show "\<exists>b d'. (case k of (key, chunk) \<Rightarrow>
      \<lambda>bs. storeAssetDataChunk ldb key chunk (SizedPointer bs)) v d = Inr (b, d') \<and> opened ldb d'"
    using storeAssetDataChunk_refines [of ldb d _ _ v] by (cases k) fastforce
next
  fix d v k b d'
  assume "opened ldb d" and "(case k of (key, chunk) \<Rightarrow>
      \<lambda>bs. storeAssetDataChunk ldb key chunk (SizedPointer bs)) v d = Inr (b, d')"
  then show "(\<lambda>(key, chunk). view ldb d' (DataKey key chunk)) =
      (if b then (\<lambda>(key, chunk). view ldb d (DataKey key chunk))(k \<mapsto> v)
       else (\<lambda>(key, chunk). view ldb d (DataKey key chunk)))"
    using storeAssetDataChunk_refines [of ldb d "fst k" "snd k" v]
    by (cases k) (auto simp: fun_eq_iff)
qed


section \<open>Stores of assets and lists\<close>

definition typed_name :: "(string \<Rightarrow> db_key) \<Rightarrow> string option \<Rightarrow> u64 \<Rightarrow> (db_key \<times> bytes) list" where
  "typed_name con name key =
     (case name of
        None \<Rightarrow> []
      | Some s \<Rightarrow> if length s > 0 then [(con s, le_bytes key)] else [])"

lemma name_entry_typed:
  "name_entry kAssetNamePrefix name key = typed_batch (typed_name AssetName name key)"
  "name_entry kListNamePrefix name key = typed_batch (typed_name ListName name key)"
  by (auto simp: name_entry_def typed_name_def split: option.splits)

lemma list_entries_eq:
  "list_entries key ts i ls =
     (if ls \<noteq> [] \<and> i + length ls > kAssetMaxListEntries then Inl OutOfBounds
      else Inr (typed_batch (map (\<lambda>l. (EntryKey l ts key, [])) ls)))"
  by (induction ls arbitrary: i) (auto simp: kListEntryKeySize_def kAssetMaxListEntries_def)

text \<open>What a stored asset adds to the store, and what a stored list adds.\<close>

definition asset_batch :: "u64 \<Rightarrow> u64 \<Rightarrow> bytes \<Rightarrow> flat_asset \<Rightarrow> u64 list \<Rightarrow> (db_key \<times> bytes) list" where
  "asset_batch now key bs a ls =
     typed_name AssetName (fa_name a) key @ map (\<lambda>l. (EntryKey l now key, [])) ls @ [(AssetKey key, bs)]"

definition list_batch :: "u64 \<Rightarrow> bytes \<Rightarrow> flat_list \<Rightarrow> (db_key \<times> bytes) list" where
  "list_batch key bs l =
     typed_name ListName (fl_name l) key @
       [(EntryKey key kBeginList kBeginList, []), (EntryKey key kEndList kEndList, []), (ListKey key, bs)]"

lemma storeAsset_refines:
  assumes "opened ldb d" "asset_valid F bs" "fa_lists (asset_root F bs) = Some ls"
    and "length ls \<le> kAssetMaxListEntries"
  shows "\<exists>ok d'. storeAsset ldb F now key (SizedPointer bs) d = Inr (ok, d') \<and> opened ldb d' \<and>
           view ldb d' = (if ok then update_view (asset_batch now key bs (asset_root F bs) ls) (view ldb d)
                          else view ldb d)"
proof -
  have "typed_batch (map (\<lambda>l. (EntryKey l (if length ls > 0 then now else 0) key, [])) ls) =
      typed_batch (map (\<lambda>l. (EntryKey l now key, [])) ls)"
    by (cases ls) simp_all
  with assms put_batch_refines [OF assms(1), of "asset_batch now key bs (asset_root F bs) ls"]
  show ?thesis
    by (simp add: storeAsset_def GetFlatAsset_def name_entry_typed list_entries_eq asset_batch_def Let_def
        cong: if_cong)
qed

lemma storeList_refines:
  assumes "opened ldb d" "list_valid F bs"
  shows "\<exists>ok d'. storeList ldb F key (SizedPointer bs) d = Inr (ok, d') \<and> opened ldb d' \<and>
           view ldb d' = (if ok then update_view (list_batch key bs (list_root F bs)) (view ldb d)
                          else view ldb d)"
  using put_batch_refines [OF assms(1), of "list_batch key bs (list_root F bs)"] assms(2)
  by (simp add: storeList_def GetFlatList_def name_entry_typed list_batch_def Let_def cong: if_cong)

lemma update_list_batch_ListKey:
  "update_view (list_batch key bs l) m (ListKey k) = (if k = key then Some bs else m (ListKey k))"
  by (auto simp: list_batch_def typed_name_def update_view_append split: option.splits)

interpretation list_table: record_table "opened ldb"
    "\<lambda>key bs. storeList ldb F key (SizedPointer bs)" "\<lambda>d key. view ldb d (ListKey key)" "list_valid F"
  for ldb F
proof unfold_locales
  fix d v k
  assume "opened ldb d" "list_valid F v"
  then show "\<exists>b d'. storeList ldb F k (SizedPointer v) d = Inr (b, d') \<and> opened ldb d'"
    using storeList_refines by blast
next
  fix d v k b d'
  assume "opened ldb d" "list_valid F v" "storeList ldb F k (SizedPointer v) d = Inr (b, d')"
  then show "(\<lambda>key. view ldb d' (ListKey key)) =
      (if b then (\<lambda>key. view ldb d (ListKey key))(k \<mapsto> v) else (\<lambda>key. view ldb d (ListKey key)))"
    using storeList_refines [of ldb d F v k] by (auto simp: fun_eq_iff update_list_batch_ListKey)
qed

section \<open>Lookups\<close>

text \<open>The table stored under a key, and the end of a chain of deprecations.\<close>

definition asset_at :: "'db leveldb \<Rightarrow> flat_lib \<Rightarrow> 'db asset_database \<Rightarrow> u64 \<Rightarrow> flat_asset option" where
  "asset_at ldb F d k = map_option (asset_root F) (view ldb d (AssetKey k))"

inductive resolves :: "'db leveldb \<Rightarrow> flat_lib \<Rightarrow> 'db asset_database \<Rightarrow> u64 \<Rightarrow> u64 option \<Rightarrow> bool"
  for ldb F d where
  missing: "asset_at ldb F d k = None \<Longrightarrow> resolves ldb F d k None"
| current: "asset_at ldb F d k = Some a \<Longrightarrow> fa_deprecatedBy a = 0 \<Longrightarrow> resolves ldb F d k (Some k)"
| follow: "asset_at ldb F d k = Some a \<Longrightarrow> fa_deprecatedBy a \<noteq> 0 \<Longrightarrow>
    resolves ldb F d (fa_deprecatedBy a) r \<Longrightarrow> resolves ldb F d k r"

inductive_cases resolves_elim: "resolves ldb F d k r"

lemma resolves_unique: "resolves ldb F d k r \<Longrightarrow> resolves ldb F d k r' \<Longrightarrow> r = r'"
proof (induction arbitrary: r' rule: resolves.induct)
  case (follow k a r)
  from follow.prems follow.hyps show ?case
    by (cases rule: resolves.cases) (auto intro: follow.IH)
qed (auto elim: resolves_elim)

text \<open>Every stored asset verifies; the handlers store nothing else.\<close>

definition assets_verified :: "'db leveldb \<Rightarrow> flat_lib \<Rightarrow> 'db asset_database \<Rightarrow> bool" where
  "assets_verified ldb F d \<longleftrightarrow> (\<forall>k bs. view ldb d (AssetKey k) = Some bs \<longrightarrow> asset_valid F bs)"

definition found :: "'db leveldb \<Rightarrow> 'db asset_database \<Rightarrow> u64 option \<Rightarrow> record_ptr \<Rightarrow> bool" where
  "found ldb d r rec =
     (case r of
        None \<Rightarrow> rec = EmptyRecord
      | Some k \<Rightarrow> \<not> record_empty rec \<and>
          (\<exists>bs. view ldb d (AssetKey k) = Some bs \<and> record_data rec = Inr (SizedPointer bs)))"

lemma asset_seek:
  assumes "opened ldb d" "view ldb d (AssetKey k) = Some bs"
  shows "it_value (seek ldb (makeAssetKey k) (the (m_database d))) = Inr bs"
    and "iteratorMatch (seek ldb (makeAssetKey k) (the (m_database d))) (makeAssetKey k)"
  using assms seek_value [of ldb "the (m_database d)" "makeAssetKey k" bs]
  by (auto simp: opened_def view_def db_view_simps)

lemma asset_seek_missing:
  assumes "opened ldb d" "view ldb d (AssetKey k) = None"
  shows "\<not> iteratorMatch (seek ldb (makeAssetKey k) (the (m_database d))) (makeAssetKey k)"
  using assms by (simp add: opened_def view_def db_view_simps seek_match_iff)

lemma follow_deprecations_resolves:
  assumes "resolves ldb F d k r" "opened ldb d" "assets_verified ldb F d" "asset_at ldb F d k \<noteq> None"
  shows "\<exists>rec. follow_deprecations ldb F (the (m_database d)) (seek ldb (makeAssetKey k) (the (m_database d))) =
           Some (Inr rec) \<and> found ldb d r rec"
  using assms
proof (induction rule: resolves.induct)
  case (missing k)
  then show ?case by simp
next
  case (current k a)
  then obtain bs where bs: "view ldb d (AssetKey k) = Some bs" "a = asset_root F bs"
    by (auto simp: asset_at_def)
  with current asset_seek [of ldb d k bs] show ?case
    by (subst follow_deprecations.simps)
      (auto simp: GetFlatAsset_def assets_verified_def found_def)
next
  case (follow k a r)
  then obtain bs where bs: "view ldb d (AssetKey k) = Some bs" "a = asset_root F bs"
    by (auto simp: asset_at_def)
  note here = asset_seek [OF \<open>opened ldb d\<close> bs(1)]
  show ?case
  proof (cases "view ldb d (AssetKey (fa_deprecatedBy a))")
    case None
    with follow.hyps have "r = None"
      by (auto simp: asset_at_def elim: resolves_elim)
    with None follow bs here asset_seek_missing [OF \<open>opened ldb d\<close> None] show ?thesis
      by (subst follow_deprecations.simps)
        (auto simp: GetFlatAsset_def assets_verified_def found_def Let_def)
  next
    case (Some bs')
    with follow bs here asset_seek [OF \<open>opened ldb d\<close> Some] show ?thesis
      by (subst follow_deprecations.simps)
        (auto simp: GetFlatAsset_def assets_verified_def Let_def asset_at_def)
  qed
qed

lemma follow_deprecations_some:
  assumes "follow_deprecations ldb F db it = Some y"
    and "opened ldb d" "assets_verified ldb F d" "db = the (m_database d)"
    and "it = seek ldb (makeAssetKey k) db" "asset_at ldb F d k \<noteq> None"
  shows "\<exists>r. resolves ldb F d k r"
  using assms
proof (induction arbitrary: k rule: follow_deprecations.raw_induct [rotated, consumes 1])
  case (1 step ldb F db it y)
  obtain bs where bs: "view ldb d (AssetKey k) = Some bs"
    using "1.prems" by (auto simp: asset_at_def)
  note here = asset_seek [OF \<open>opened ldb d\<close> bs]
  let ?a = "asset_root F bs"
  have at: "asset_at ldb F d k = Some ?a"
    using bs by (simp add: asset_at_def)
  show ?case
  proof (cases "fa_deprecatedBy ?a = 0")
    case True
    with at show ?thesis by (blast intro: resolves.current)
  next
    case False
    show ?thesis
    proof (cases "asset_at ldb F d (fa_deprecatedBy ?a)")
      case None
      with at False show ?thesis by (blast intro: resolves.follow resolves.missing)
    next
      case (Some b)
      then obtain bs' where bs': "view ldb d (AssetKey (fa_deprecatedBy ?a)) = Some bs'"
        by (auto simp: asset_at_def)
      have "asset_valid F bs"
        using bs "1.prems" by (auto simp: assets_verified_def)
      with "1"(2) "1.prems" False here asset_seek [OF \<open>opened ldb d\<close> bs']
      have "step ldb F db (seek ldb (makeAssetKey (fa_deprecatedBy ?a)) db) = Some y"
        by (simp add: GetFlatAsset_def Let_def)
      from "1"(1) [OF this, of "fa_deprecatedBy ?a"] "1.prems" Some
      have "\<exists>r. resolves ldb F d (fa_deprecatedBy ?a) r" by simp
      with at False show ?thesis by (blast intro: resolves.follow)
    qed
  qed
qed

lemma findAsset_outcome:
  assumes "opened ldb d" "assets_verified ldb F d"
  shows "resolves ldb F d k r \<Longrightarrow> \<exists>rec. findAsset ldb F k d = Inr rec \<and> found ldb d r rec"
    and "(\<nexists>r. resolves ldb F d k r) \<Longrightarrow> findAsset ldb F k d = Inl Diverges"
proof -
  let ?db = "the (m_database d)"
  show "\<exists>rec. findAsset ldb F k d = Inr rec \<and> found ldb d r rec" if r: "resolves ldb F d k r"
  proof (cases "asset_at ldb F d k")
    case None
    with r have "r = None" by (auto elim: resolves_elim)
    with None assms asset_seek_missing [OF assms(1), of k] show ?thesis
      by (auto simp: findAsset_def opened_ptr asset_at_def found_def Let_def)
  next
    case (Some a)
    then obtain bs where "view ldb d (AssetKey k) = Some bs" by (auto simp: asset_at_def)
    with asset_seek [OF assms(1) this] follow_deprecations_resolves [OF r assms] Some show ?thesis
      by (auto simp: findAsset_def opened_ptr [OF assms(1)] Let_def)
  qed
  show "findAsset ldb F k d = Inl Diverges" if none: "\<nexists>r. resolves ldb F d k r"
  proof -
    have at: "asset_at ldb F d k \<noteq> None"
      using none resolves.missing by blast
    then obtain bs where bs: "view ldb d (AssetKey k) = Some bs" by (auto simp: asset_at_def)
    have "follow_deprecations ldb F ?db (seek ldb (makeAssetKey k) ?db) = None"
      using follow_deprecations_some [OF _ assms refl refl at] none by (metis not_None_eq)
    with asset_seek [OF assms(1) bs] assms show ?thesis
      by (simp add: findAsset_def opened_ptr Let_def)
  qed
qed

text \<open>One step of a chain of deprecations, from the older asset to the newer.\<close>

definition deprecation_step :: "'db leveldb \<Rightarrow> flat_lib \<Rightarrow> 'db asset_database \<Rightarrow> (u64 \<times> u64) set" where
  "deprecation_step ldb F d =
     {(k, k'). \<exists>a. asset_at ldb F d k = Some a \<and> fa_deprecatedBy a = k' \<and> k' \<noteq> 0}"

lemma resolves_acyclic_step:
  "resolves ldb F d k r \<Longrightarrow> (k, k) \<notin> (deprecation_step ldb F d)\<^sup>+"
proof (induction rule: resolves.induct)
  case (missing k)
  then show ?case by (auto simp: deprecation_step_def dest: tranclD)
next
  case (current k a)
  then show ?case by (auto simp: deprecation_step_def dest: tranclD)
next
  case (follow k a r)
  show ?case
  proof
    assume "(k, k) \<in> (deprecation_step ldb F d)\<^sup>+"
    then obtain j where "(k, j) \<in> deprecation_step ldb F d" "(j, k) \<in> (deprecation_step ldb F d)\<^sup>*"
      by (meson tranclD)
    moreover from this follow.hyps have "j = fa_deprecatedBy a"
      by (simp add: deprecation_step_def)
    ultimately have "(fa_deprecatedBy a, fa_deprecatedBy a) \<in> (deprecation_step ldb F d)\<^sup>+"
      by (metis rtrancl_into_trancl1)
    with follow.IH show False ..
  qed
qed

lemma resolves_reachable:
  "resolves ldb F d k r \<Longrightarrow> (k, j) \<in> (deprecation_step ldb F d)\<^sup>* \<Longrightarrow> \<exists>r. resolves ldb F d j r"
proof (induction rule: resolves.induct)
  case (missing k)
  then have "k = j" by (auto simp: deprecation_step_def elim: converse_rtranclE)
  with missing.hyps show ?case by (blast intro: resolves.missing)
next
  case (current k a)
  then have "k = j" by (auto simp: deprecation_step_def elim: converse_rtranclE)
  with current.hyps show ?case by (blast intro: resolves.current)
next
  case (follow k a r)
  from follow.prems show ?case
  proof (cases rule: converse_rtranclE)
    case base
    with follow.hyps show ?thesis by (blast intro: resolves.follow)
  next
    case (step i)
    with follow.hyps have "i = fa_deprecatedBy a" by (simp add: deprecation_step_def)
    with step follow.IH show ?thesis by blast
  qed
qed

text \<open>A chain that meets no cycle has an end.\<close>

lemma reachable_acyclic_resolves:
  assumes "\<nexists>j. (k, j) \<in> (deprecation_step ldb F d)\<^sup>* \<and> (j, j) \<in> (deprecation_step ldb F d)\<^sup>+"
  shows "\<exists>r. resolves ldb F d k r"
proof -
  let ?S = "deprecation_step ldb F d"
  define R where "R = {(i, j) \<in> ?S. (k, i) \<in> ?S\<^sup>*}"
  have sub: "R\<^sup>+ \<subseteq> ?S\<^sup>+" by (rule trancl_mono_subset) (auto simp: R_def)
  have "(j, j) \<notin> R\<^sup>+" for j
  proof
    assume j: "(j, j) \<in> R\<^sup>+"
    then have "(k, j) \<in> ?S\<^sup>*" by (auto dest!: tranclD simp: R_def)
    with assms sub j show False by blast
  qed
  then have "wf (R\<inverse>)"
    by (intro finite_acyclic_wf_converse) (simp_all add: acyclic_def)
  then have "(k, i) \<in> ?S\<^sup>* \<Longrightarrow> \<exists>r. resolves ldb F d i r" for i
  proof (induction i rule: wf_induct_rule)
    case (less i)
    show ?case
    proof (cases "asset_at ldb F d i")
      case None
      then show ?thesis by (blast intro: resolves.missing)
    next
      case (Some a)
      show ?thesis
      proof (cases "fa_deprecatedBy a = 0")
        case True
        with Some show ?thesis by (blast intro: resolves.current)
      next
        case False
        with Some have "(i, fa_deprecatedBy a) \<in> ?S" by (simp add: deprecation_step_def)
        with less have "\<exists>r. resolves ldb F d (fa_deprecatedBy a) r"
          by (auto simp: R_def intro: rtrancl_into_rtrancl)
        with Some False show ?thesis by (blast intro: resolves.follow)
      qed
    qed
  qed
  then show ?thesis by blast
qed

end
