(* ===== verification/AssetDatabase_Lists.thy ===== *)
theory AssetDatabase_Lists
  imports AssetDatabase_Spec
begin

text \<open>
  The lists of the asset database: the entries of one list are a contiguous block of the
  sorted store, so \<open>getListNext\<close> from a token of the list returns the entries that follow
  it, and repeated calls read the whole list.
\<close>

section \<open>Lexicographic order of byte strings\<close>

lemma append_less_append [simp]: "p @ x < p @ y \<longleftrightarrow> (x :: 'a::linorder list) < y"
  by (induction p) auto

lemma append_le_append [simp]: "p @ x \<le> p @ y \<longleftrightarrow> (x :: 'a::linorder list) \<le> y"
  by (induction p) auto

lemma prefix_convex:
  "p @ x \<le> k \<Longrightarrow> k \<le> p @ y \<Longrightarrow> \<exists>z. k = p @ (z :: 'a::linorder list)"
proof (induction p arbitrary: k)
  case Nil
  then show ?case by simp
next
  case (Cons a p)
  then obtain b k' where k: "k = b # k'" by (cases k) auto
  with Cons.prems have "a = b" "p @ x \<le> k'" "k' \<le> p @ y" by auto
  with Cons.IH k show ?case by auto
qed

lemma zeros_least: "length z = n \<Longrightarrow> replicate n 0 \<le> (z :: byte list)"
proof (induction n arbitrary: z)
  case 0
  then show ?case by simp
next
  case (Suc n)
  then obtain b z' where z: "z = b # z'" "length z' = n" by (cases z) auto
  have "b = 0 \<or> 0 < b" by (simp add: word_gt_0)
  with z Suc.IH show ?case by auto
qed

lemma le_bytes_0: "le_bytes 0 = replicate 8 0"
  by (simp add: le_bytes_def numeral_eq_Suc)

lemma le_bytes_0_least: "le_bytes 0 \<le> le_bytes a"
  by (simp add: le_bytes_0 zeros_least)

section \<open>The entries of one list\<close>

definition list_prefix :: "u64 \<Rightarrow> bytes" where
  "list_prefix L = kListEntry # le_bytes L"

definition in_list :: "u64 \<Rightarrow> bytes \<Rightarrow> bool" where
  "in_list L k \<longleftrightarrow> length k = kListEntryKeySize \<and> take 9 k = list_prefix L"

text \<open>The tokens and asset keys of a list in the order of the store, sentinels included.\<close>

definition list_items :: "'db leveldb \<Rightarrow> 'db asset_database \<Rightarrow> u64 \<Rightarrow> (u64 \<times> u64) list" where
  "list_items ldb d L =
     map entry_pair (filter (in_list L) (map fst (ldb_entries ldb (the (m_database d)))))"

definition typed_keys :: "'db leveldb \<Rightarrow> 'db asset_database \<Rightarrow> bool" where
  "typed_keys ldb d \<longleftrightarrow>
     (\<forall>k v. (k, v) \<in> set (ldb_entries ldb (the (m_database d))) \<longrightarrow> (\<exists>t. k = key_bytes t))"

lemma length_list_prefix [simp]: "length (list_prefix L) = 9"
  by (simp add: list_prefix_def)

lemma listEntryKey_prefix: "listEntryKey L t a = list_prefix L @ le_bytes t @ le_bytes a"
  by (simp add: listEntryKey_def list_prefix_def)

lemma in_list_entry [simp]: "in_list L (listEntryKey M t a) \<longleftrightarrow> M = L"
  by (auto simp: in_list_def listEntryKey_def list_prefix_def kListEntryKeySize_def le64.enc_eq_iff)

lemma entry_pair_entry [simp]: "entry_pair (listEntryKey L t a) = (t, a)"
  by (simp add: entry_pair_def listEntryKey_def le64.dec_enc)

lemma in_list_typed: "in_list L (key_bytes t) \<longleftrightarrow> (\<exists>u a. t = EntryKey L u a)"
proof
  assume "in_list L (key_bytes t)"
  then have "hd (key_bytes t) = kListEntry"
    by (cases "key_bytes t") (auto simp: in_list_def list_prefix_def)
  with \<open>in_list L (key_bytes t)\<close> show "\<exists>u a. t = EntryKey L u a"
    by (cases t)
      (simp_all add: makeAssetKey_def makeAssetDataKey_def makeListKey_def kAssetNamePrefix_def
        kListNamePrefix_def prefix_defs of_char_byte_inj)
qed auto

lemma listEntryKey_less_ListKey: "listEntryKey L t a < makeListKey M"
  by (simp add: listEntryKey_def makeListKey_def prefix_defs)

lemma ListKey_not_in_list: "\<not> in_list L (makeListKey M)"
  by (simp add: in_list_def makeListKey_def kListEntryKeySize_def)


section \<open>Contiguous blocks\<close>

text \<open>
  In a strictly sorted list the elements with a convex property form one block.
\<close>

lemma filter_block:
  assumes "sorted_wrt (<) ys"
    and "\<And>y z. y \<in> set ys \<Longrightarrow> z \<in> set ys \<Longrightarrow> y < z \<Longrightarrow> Q z \<Longrightarrow> Q (y :: 'a::linorder)"
  shows "filter Q ys = takeWhile Q ys"
  using assms
proof (induction ys)
  case Nil
  then show ?case by simp
next
  case (Cons y ys)
  show ?case
  proof (cases "Q y")
    case True
    have "filter Q ys = takeWhile Q ys"
      using Cons.prems by (intro Cons.IH) auto
    with True show ?thesis by simp
  next
    case False
    have "\<not> Q z" if "z \<in> set ys" for z
      using Cons.prems(1) Cons.prems(2) [of y z] that False by auto
    with False show ?thesis by simp
  qed
qed

lemma in_list_convex:
  assumes "in_list L x" "in_list L z" "x < y" "y < z"
  shows "take 9 y = list_prefix L"
proof -
  have "x = list_prefix L @ drop 9 x" "z = list_prefix L @ drop 9 z"
    using assms by (metis append_take_drop_id in_list_def)+
  with assms have "list_prefix L @ drop 9 x \<le> y" "y \<le> list_prefix L @ drop 9 z"
    by (simp_all add: less_imp_le)
  then obtain w where "y = list_prefix L @ w"
    using prefix_convex by blast
  then show ?thesis by simp
qed

lemma take_Suc_takeWhile:
  "take (Suc n) (takeWhile Q (x # xs)) = (if Q x then x # take n (takeWhile Q xs) else [])"
  by simp

text \<open>The loop of \<open>getListNext\<close> on an iterator whose entries leave the list before they end.\<close>

lemma next_loop_eq:
  assumes "\<exists>e \<in> set es. \<not> in_list L (fst e)"
  shows "next_loop (list_prefix L) left (e # es) out =
    (let page = map entry_pair (take left (takeWhile (in_list L) (map fst es)))
     in Inr (length (out @ page), out @ page))"
  using assms
proof (induction left arbitrary: e es out)
  case 0
  then show ?case by simp
next
  case (Suc left)
  then obtain k v es' where es: "es = (k, v) # es'" by (cases es) auto
  show ?case
  proof (cases "in_list L k")
    case True
    with Suc.prems es have "\<exists>e \<in> set es'. \<not> in_list L (fst e)" by auto
    from Suc.IH [OF this] True es show ?thesis
      by (simp add: it_valid_def in_list_def Let_def)
  next
    case False
    then show ?thesis using es by (simp add: it_valid_def in_list_def)
  qed
qed


section \<open>One page\<close>

lemma typed_prefix_in_list:
  assumes "take 9 (key_bytes t) = list_prefix L"
  shows "in_list L (key_bytes t)"
proof -
  from assms have "hd (key_bytes t) = kListEntry"
    by (cases "key_bytes t") (auto simp: list_prefix_def)
  then show ?thesis
    using assms
    by (cases t)
      (simp_all add: makeAssetKey_def makeAssetDataKey_def makeListKey_def kAssetNamePrefix_def
        kListNamePrefix_def prefix_defs of_char_byte_inj in_list_def listEntryKey_def kListEntryKeySize_def)
qed

lemma seek_token:
  assumes "opened ldb d" "typed_keys ldb d" "view ldb d (EntryKey L T a) \<noteq> None"
  defines "es \<equiv> ldb_entries ldb (the (m_database d))"
  shows "\<exists>A a' v B. es = A @ (listEntryKey L T a', v) # B \<and>
           seek ldb (listEntryKey L T kBeginList) (the (m_database d)) = (listEntryKey L T a', v) # B \<and>
           (\<forall>e \<in> set A. \<forall>u b. fst e = listEntryKey L u b \<longrightarrow> u \<noteq> T)"
proof -
  let ?s = "listEntryKey L T kBeginList"
  let ?x = "listEntryKey L T a"
  have sorted: "sorted_wrt (<) (map fst es)"
    using assms(1) by (simp add: es_def opened_def leveldb_sorted)
  obtain w where x: "(?x, w) \<in> set es"
    using assms(3) map_of_SomeD by (fastforce simp: view_def db_view_def es_def)
  have least: "?s \<le> listEntryKey L T b" for b
    by (simp add: listEntryKey_prefix kBeginList_def le_bytes_0_least)
  have split: "es = takeWhile (\<lambda>e. fst e < ?s) es @ it_seek ?s es"
    by (simp add: it_seek_def)
  have "(?x, w) \<in> set (it_seek ?s es)"
    using x least [of a] set_takeWhileD [of "(?x, w)" "\<lambda>e. fst e < ?s" es]
    by (subst (asm) split) auto
  then obtain e B where B: "it_seek ?s es = e # B"
    by (cases "it_seek ?s es") auto
  then have "\<not> fst e < ?s"
    unfolding it_seek_def by (metis dropWhile_eq_Cons_conv)
  moreover have "fst e \<le> ?x"
  proof -
    have "sorted_wrt (<) (map fst (e # B))"
      using sorted B split by (metis map_append sorted_wrt_append)
    then show ?thesis
      using \<open>(?x, w) \<in> set (it_seek ?s es)\<close> B by (auto simp: less_imp_le)
  qed
  ultimately obtain z where z: "fst e = (list_prefix L @ le_bytes T) @ z"
    using prefix_convex [of "list_prefix L @ le_bytes T" "le_bytes kBeginList" "fst e" "le_bytes a"]
    by (auto simp: listEntryKey_prefix not_less)
  moreover have "e \<in> set es"
    using B split by (metis in_set_conv_decomp)
  then obtain t where "fst e = key_bytes t"
    using assms(2) unfolding typed_keys_def es_def by (metis prod.collapse)
  ultimately have "in_list L (key_bytes t)"
    by (metis append.assoc append_eq_conv_conj length_list_prefix typed_prefix_in_list)
  then obtain u a' where "fst e = listEntryKey L u a'"
    using in_list_typed \<open>fst e = key_bytes t\<close> by auto
  with z have "fst e = listEntryKey L T a'"
    by (simp add: listEntryKey_prefix le64.enc_append_eq_iff)
  moreover have "u \<noteq> T" if "f \<in> set (takeWhile (\<lambda>e. fst e < ?s) es)" "fst f = listEntryKey L u b" for f u b
    using set_takeWhileD [OF that(1)] that(2) least [of b] by auto
  ultimately show ?thesis
    using split B by (cases e) (metis seek_def es_def fst_conv)
qed


lemma list_block_after:
  assumes "opened ldb d" "typed_keys ldb d"
    and "ldb_entries ldb (the (m_database d)) = A @ e # B" "in_list L (fst e)"
  shows "filter (in_list L) (map fst B) = takeWhile (in_list L) (map fst B)"
proof (rule filter_block)
  have sorted: "sorted_wrt (<) (map fst (A @ e # B))"
    using assms(1,3) leveldb_sorted by (metis opened_def)
  then show "sorted_wrt (<) (map fst B)"
    by (simp add: sorted_wrt_append)
  fix y z
  assume yz: "y \<in> set (map fst B)" "z \<in> set (map fst B)" "y < z" "in_list L z"
  then have "fst e < y"
    using sorted by (auto simp: sorted_wrt_append)
  then have "take 9 y = list_prefix L"
    using in_list_convex assms(4) yz by blast
  moreover obtain t where "y = key_bytes t"
    using assms(2,3) yz(1) by (fastforce simp: typed_keys_def)
  ultimately show "in_list L y"
    by (simp add: typed_prefix_in_list)
qed

text \<open>
  The page of \<open>n\<close> items that follows a token of the list. The list record itself sorts
  after every entry, so the iterator stays valid until the list is left.
\<close>

definition page_after :: "nat \<Rightarrow> u64 \<Rightarrow> (u64 \<times> u64) list \<Rightarrow> (u64 \<times> u64) list" where
  "page_after n T items = take n (tl (dropWhile (\<lambda>p. fst p \<noteq> T) items))"

text \<open>The list itself comes after its entries in the store, so its block of entries ends.\<close>

lemma block_ends:
  assumes "opened ldb d" "view ldb d (ListKey L) \<noteq> None"
    and "ldb_entries ldb (the (m_database d)) = A @ (listEntryKey L T a, v) # B"
  shows "\<exists>e \<in> set B. \<not> in_list L (fst e)"
proof -
  have sorted: "sorted_wrt (<) (map fst (ldb_entries ldb (the (m_database d))))"
    using assms(1) by (simp add: opened_def leveldb_sorted)
  obtain w where w: "(makeListKey L, w) \<in> set (ldb_entries ldb (the (m_database d)))"
    using assms(2) map_of_SomeD by (fastforce simp: view_def db_view_def)
  have "(makeListKey L, w) \<in> set B"
  proof (rule ccontr)
    assume "(makeListKey L, w) \<notin> set B"
    with w assms(3) have "(makeListKey L, w) \<in> set A"
      by (auto simp: listEntryKey_def makeListKey_def prefix_defs of_char_byte_inj)
    with sorted assms(3) have "makeListKey L < listEntryKey L T a"
      by (auto simp: sorted_wrt_append)
    with listEntryKey_less_ListKey [of L T a L] show False by simp
  qed
  then show ?thesis using ListKey_not_in_list [of L L] by force
qed

text \<open>The items before the first entry with a token have other tokens.\<close>

lemma items_before:
  assumes "typed_keys ldb d" "set A \<subseteq> set (ldb_entries ldb (the (m_database d)))"
    and "\<forall>e \<in> set A. \<forall>u b. fst e = listEntryKey L u b \<longrightarrow> u \<noteq> T"
    and "p \<in> set (map entry_pair (filter (in_list L) (map fst A)))"
  shows "fst p \<noteq> T"
proof -
  obtain e where e: "e \<in> set A" "in_list L (fst e)" "p = entry_pair (fst e)" using assms(4) by auto
  then obtain t where "fst e = key_bytes t"
    using assms(1) subsetD [OF assms(2) e(1)] unfolding typed_keys_def by (metis prod.collapse)
  with e obtain u b where u: "fst e = listEntryKey L u b"
    using in_list_typed by force
  with assms(3) e(1) have "u \<noteq> T" by blast
  with e(3) u show ?thesis by simp
qed

lemma getListNext_page:
  assumes "opened ldb d" "typed_keys ldb d" "view ldb d (ListKey L) \<noteq> None"
    and "view ldb d (EntryKey L T a) \<noteq> None" "T \<noteq> kEndList"
  shows "getListNext ldb L T n d =
    (let page = page_after n T (list_items ldb d L) in Inr (length page, page))"
proof -
  let ?es = "ldb_entries ldb (the (m_database d))"
  obtain A a' v B where dec: "?es = A @ (listEntryKey L T a', v) # B"
    and sk: "seek ldb (listEntryKey L T kBeginList) (the (m_database d)) = (listEntryKey L T a', v) # B"
    and A: "\<forall>e \<in> set A. \<forall>u b. fst e = listEntryKey L u b \<longrightarrow> u \<noteq> T"
    using seek_token [OF assms(1,2,4)] by blast
  note leaves = block_ends [OF assms(1,3) dec]
  have block: "filter (in_list L) (map fst B) = takeWhile (in_list L) (map fst B)"
    using list_block_after [OF assms(1,2) dec] by simp
  have before: "p \<in> set (map entry_pair (filter (in_list L) (map fst A))) \<Longrightarrow> fst p \<noteq> T" for p
    by (rule items_before [OF assms(2) _ A]) (auto simp: dec)
  let ?X = "map entry_pair (filter (in_list L) (map fst A))"
  let ?Y = "map entry_pair (filter (in_list L) (map fst B))"
  have "list_items ldb d L = ?X @ (T, a') # ?Y"
    by (simp add: list_items_def dec)
  moreover have "dropWhile (\<lambda>p. fst p \<noteq> T) (?X @ (T, a') # ?Y) = dropWhile (\<lambda>p. fst p \<noteq> T) ((T, a') # ?Y)"
    by (rule dropWhile_append2) (rule before)
  ultimately have "dropWhile (\<lambda>p. fst p \<noteq> T) (list_items ldb d L) = (T, a') # ?Y"
    by simp
  then have "page_after n T (list_items ldb d L) =
      map entry_pair (take n (takeWhile (in_list L) (map fst B)))"
    by (simp add: page_after_def block take_map)
  moreover have "take 9 (listEntryKey L T kBeginList) = list_prefix L"
    by (simp add: listEntryKey_prefix)
  ultimately show ?thesis
    using assms(5) sk opened_ptr [OF assms(1)] next_loop_eq [OF leaves, of n "(listEntryKey L T a', v)" "[]"]
    by (simp add: getListNext_def it_valid_def Let_def)
qed

section \<open>Sentinels\<close>

lemma le_bytes_max: "le_bytes (- 1) = replicate 8 (- 1)"
  by (rule nth_equalityI) (auto simp: le_bytes_def bit_simps intro!: bit_word_eqI)

lemma ones_greatest: "length z = n \<Longrightarrow> (z :: byte list) \<le> replicate n (- 1)"
proof (induction n arbitrary: z)
  case 0
  then show ?case by simp
next
  case (Suc n)
  then obtain b z' where z: "z = b # z'" "length z' = n" by (cases z) auto
  have "b = - 1 \<or> b < - 1"
    by (metis word_n1_ge order_le_less)
  with z Suc.IH show ?case by auto
qed

lemma sentinel_bounds:
  "listEntryKey L kBeginList kBeginList \<le> listEntryKey L t a"
  "listEntryKey L t a \<le> listEntryKey L kEndList kEndList"
proof -
  have "le_bytes x @ le_bytes y \<le> replicate 16 (- 1)" "replicate 16 0 \<le> le_bytes x @ le_bytes y" for x y
    by (simp_all add: ones_greatest zeros_least)
  moreover have "le_bytes kEndList @ le_bytes kEndList = replicate 16 (- 1)"
    "le_bytes kBeginList @ le_bytes kBeginList = replicate 16 0"
    by (simp_all add: kEndList_def kBeginList_def le_bytes_max le_bytes_0 flip: replicate_add)
  ultimately show "listEntryKey L kBeginList kBeginList \<le> listEntryKey L t a"
    "listEntryKey L t a \<le> listEntryKey L kEndList kEndList"
    by (simp_all add: listEntryKey_prefix)
qed

text \<open>A list that was stored: its record and both sentinels are in the store.\<close>

definition has_list :: "'db leveldb \<Rightarrow> 'db asset_database \<Rightarrow> u64 \<Rightarrow> bool" where
  "has_list ldb d L \<longleftrightarrow>
     view ldb d (ListKey L) \<noteq> None \<and>
     view ldb d (EntryKey L kBeginList kBeginList) \<noteq> None \<and>
     view ldb d (EntryKey L kEndList kEndList) \<noteq> None"

lemma in_items_iff:
  assumes "typed_keys ldb d"
  shows "(t, a) \<in> set (list_items ldb d L) \<longleftrightarrow> view ldb d (EntryKey L t a) \<noteq> None"
proof
  assume "(t, a) \<in> set (list_items ldb d L)"
  then obtain k v where k: "(k, v) \<in> set (ldb_entries ldb (the (m_database d)))" "in_list L k" "(t, a) = entry_pair k"
    by (auto simp: list_items_def)
  then obtain u where "k = key_bytes u" using assms unfolding typed_keys_def by blast
  with k obtain t' a' where "k = listEntryKey L t' a'" using in_list_typed by force
  with k show "view ldb d (EntryKey L t a) \<noteq> None"
    by (auto simp: view_def db_view_def map_of_eq_None_iff rev_image_eqI)
next
  assume "view ldb d (EntryKey L t a) \<noteq> None"
  then obtain v where "(listEntryKey L t a, v) \<in> set (ldb_entries ldb (the (m_database d)))"
    using map_of_SomeD by (fastforce simp: view_def db_view_def)
  then have "listEntryKey L t a \<in> set (filter (in_list L) (map fst (ldb_entries ldb (the (m_database d)))))"
    by force
  then have "entry_pair (listEntryKey L t a) \<in> set (list_items ldb d L)"
    unfolding list_items_def by (metis imageI set_map)
  then show "(t, a) \<in> set (list_items ldb d L)" by simp
qed

text \<open>The items are sorted by the bytes of their keys.\<close>

lemma items_sorted:
  assumes "opened ldb d" "typed_keys ldb d"
  shows "sorted_wrt (\<lambda>p q. listEntryKey L (fst p) (snd p) < listEntryKey L (fst q) (snd q)) (list_items ldb d L)"
proof -
  let ?ks = "filter (in_list L) (map fst (ldb_entries ldb (the (m_database d))))"
  have sorted: "sorted_wrt (<) ?ks"
    using assms(1) by (intro sorted_wrt_filter leveldb_sorted) (simp add: opened_def)
  have typed: "\<exists>t a. k = listEntryKey L t a" if "k \<in> set ?ks" for k
  proof -
    from that obtain u where "k = key_bytes u" "in_list L k"
      using assms(2) unfolding typed_keys_def by auto
    then show ?thesis using in_list_typed by force
  qed
  show ?thesis
    unfolding list_items_def sorted_wrt_map
  proof (rule sorted_wrt_mono_rel [OF _ sorted])
    fix x y
    assume "x \<in> set ?ks" "y \<in> set ?ks" "x < y"
    with typed [of x] typed [of y]
    show "listEntryKey L (fst (entry_pair x)) (snd (entry_pair x))
        < listEntryKey L (fst (entry_pair y)) (snd (entry_pair y))"
      by auto
  qed
qed

lemma items_shape:
  assumes "opened ldb d" "typed_keys ldb d" "has_list ldb d L"
  shows "\<exists>mid. list_items ldb d L = (kBeginList, kBeginList) # mid @ [(kEndList, kEndList)]"
proof -
  let ?items = "list_items ldb d L"
  let ?lt = "\<lambda>p q. listEntryKey L (fst p) (snd p) < listEntryKey L (fst q) (snd q)"
  have s: "sorted_wrt ?lt ?items" using items_sorted [OF assms(1,2)] .
  have mem: "(kBeginList, kBeginList) \<in> set ?items" "(kEndList, kEndList) \<in> set ?items"
    using assms(2,3) by (simp_all add: in_items_iff has_list_def)
  obtain p ps where ps: "?items = p # ps" using mem(1) by (cases ?items) auto
  have "p = (kBeginList, kBeginList)"
  proof (rule ccontr)
    assume "p \<noteq> (kBeginList, kBeginList)"
    with mem(1) ps s have "?lt p (kBeginList, kBeginList)" by auto
    with sentinel_bounds(1) [of L "fst p" "snd p"] show False by simp
  qed
  moreover have "ps \<noteq> []" using mem(2) ps calculation by (auto simp: kEndList_def kBeginList_def)
  then obtain mid q where q: "ps = mid @ [q]" by (cases ps rule: rev_cases) auto
  have "q = (kEndList, kEndList)"
  proof (rule ccontr)
    assume "q \<noteq> (kEndList, kEndList)"
    with mem(2) ps s q have "?lt (kEndList, kEndList) q" by (auto simp: sorted_wrt_append)
    with sentinel_bounds(2) [of L "fst q" "snd q"] show False by simp
  qed
  ultimately show ?thesis using ps q by simp
qed

section \<open>Reading a whole list\<close>

text \<open>
  The protocol of a reader: ask for the items after the last token received, until the end
  sentinel arrives.
\<close>

fun read_pages :: "'db leveldb \<Rightarrow> 'db asset_database \<Rightarrow> u64 \<Rightarrow> nat \<Rightarrow> nat \<Rightarrow> u64 \<Rightarrow>
    fault + (u64 \<times> u64) list" where
  "read_pages ldb d L n 0 token = Inr []"
| "read_pages ldb d L n (Suc fuel) token =
     rbind (getListNext ldb L token n d) (\<lambda>(pairs, page).
       if pairs = 0 \<or> fst (last page) = kEndList then Inr page
       else rbind (read_pages ldb d L n fuel (fst (last page))) (\<lambda>rest. Inr (page @ rest)))"

lemma page_after_split:
  assumes "T \<notin> fst ` set xs"
  shows "page_after n T (xs @ (T, a) # ys) = take n ys"
proof -
  have "dropWhile (\<lambda>p. fst p \<noteq> T) (xs @ (T, a) # ys) = (T, a) # ys"
    using assms by (subst dropWhile_append2) auto
  then show ?thesis by (simp add: page_after_def)
qed

lemma read_pages_rest:
  assumes "opened ldb d" "typed_keys ldb d" "has_list ldb d L"
    and "distinct (map fst (list_items ldb d L))" "n > 0"
  shows "list_items ldb d L = xs @ (T, a) # ys \<Longrightarrow> ys \<noteq> [] \<Longrightarrow> length ys \<le> fuel \<Longrightarrow>
         read_pages ldb d L n fuel T = Inr ys"
proof (induction fuel arbitrary: xs T a ys)
  case 0
  then show ?case by simp
next
  case (Suc fuel)
  let ?items = "list_items ldb d L"
  obtain mid where "?items = (kBeginList, kBeginList) # mid @ [(kEndList, kEndList)]"
    using items_shape assms(1-3) by blast
  then have lastI: "last ?items = (kEndList, kEndList)" by simp
  then have lastY: "last ys = (kEndList, kEndList)" using Suc.prems by simp
  have tok: "T \<notin> fst ` set xs" "T \<notin> fst ` set ys" using assms(4) Suc.prems(1) by auto
  then have T: "T \<noteq> kEndList" using lastY Suc.prems(2) by (metis fst_conv image_eqI last_in_set)
  have page: "getListNext ldb L T n d = Inr (length (take n ys), take n ys)"
    using getListNext_page [OF assms(1,2) _ _ T, of L a n] assms(2,3) Suc.prems(1)
      in_items_iff [OF assms(2), of T a L] page_after_split [OF tok(1)]
    by (simp add: has_list_def Let_def)
  have ne: "take n ys \<noteq> []" using assms(5) Suc.prems(2) by simp
  show ?case
  proof (cases "length ys \<le> n")
    case True
    with page lastY Suc.prems(2) show ?thesis by simp
  next
    case False
    define p where "p = last (take n ys)"
    have ys: "ys = butlast (take n ys) @ p # drop n ys"
      using ne by (metis append.assoc append_Cons append_Nil append_butlast_last_id append_take_drop_id p_def)
    have drop: "drop n ys \<noteq> []" using False by simp
    have "last (drop n ys) = (kEndList, kEndList)" using lastY False by (simp add: last_drop)
    then have "kEndList \<in> fst ` set (drop n ys)" using drop by (metis fst_conv image_eqI last_in_set)
    moreover have "fst p \<notin> fst ` set (drop n ys)"
      using assms(4) Suc.prems(1) by (subst (asm) ys) (auto simp: distinct_map)
    ultimately have pT: "fst p \<noteq> kEndList" by metis
    have "list_items ldb d L = (xs @ (T, a) # butlast (take n ys)) @ (fst p, snd p) # drop n ys"
      using Suc.prems(1) ys by (metis append.assoc append_Cons prod.collapse)
    from Suc.IH [OF this drop] Suc.prems(3) assms(5)
    have "read_pages ldb d L n fuel (fst p) = Inr (drop n ys)" by simp
    with page ne pT False show ?thesis by (auto simp: p_def min_def)
  qed
qed

lemma read_pages_all:
  assumes "opened ldb d" "typed_keys ldb d" "has_list ldb d L"
    and "distinct (map fst (list_items ldb d L))" "n > 0" "length (list_items ldb d L) \<le> fuel"
  shows "read_pages ldb d L n fuel kBeginList = Inr (tl (list_items ldb d L))"
proof -
  obtain mid where mid: "list_items ldb d L = (kBeginList, kBeginList) # mid @ [(kEndList, kEndList)]"
    using items_shape assms(1-3) by blast
  then show ?thesis
    using read_pages_rest [OF assms(1-5), of "[]" kBeginList kBeginList] assms(6) by simp
qed

end
