(* ===== verification/Library_Instances.thy ===== *)
theory Library_Instances
  imports AssetDatabase_Lists
begin

text \<open>
  Concrete libraries that meet the contracts the code relies on, for the witnesses: a
  key-value store held in an association list, and a self-delimiting byte format for the
  flat tables.
\<close>

section \<open>A store in memory\<close>

type_synonym mem = "entry list"

definition mem_entries :: "mem \<Rightarrow> entry list" where
  "mem_entries m = map (\<lambda>k. (k, the (map_of m k))) (sort (remdups (map fst m)))"

definition mem_store :: "mem leveldb" where
  "mem_store =
     \<lparr>ldb_open = (\<lambda>options path. if create_if_missing options then Some [] else None),
      ldb_write = (\<lambda>batch m. (True, rev batch @ m)),
      ldb_entries = mem_entries\<rparr>"

lemma map_of_mem_entries: "map_of (mem_entries m) = map_of m"
proof
  fix k
  show "map_of (mem_entries m) k = map_of m k"
  proof (cases "map_of m k")
    case None
    then have "k \<notin> fst ` set m" by (simp add: map_of_eq_None_iff)
    with None show ?thesis by (simp add: mem_entries_def map_of_map_restrict restrict_map_def)
  next
    case (Some v)
    then have "k \<in> fst ` set m" by (metis map_of_eq_None_iff option.distinct(1))
    with Some show ?thesis by (simp add: mem_entries_def map_of_map_restrict restrict_map_def)
  qed
qed

lemma map_of_rev_batch: "map_of (rev batch @ m) = apply_batch batch (map_of m)"
proof (induction batch arbitrary: m)
  case Nil
  then show ?case by simp
next
  case (Cons e batch)
  have "rev (e # batch) @ m = rev batch @ (e # m)" by simp
  with Cons.IH [of "e # m"] show ?case by (cases e) (simp add: fun_upd_def)
qed

lemma mem_entries_sorted: "sorted_wrt (<) (map fst (mem_entries m))"
  by (simp add: mem_entries_def comp_def strict_sorted_iff)

lemma mem_store_ok: "leveldb_ok mem_store"
  unfolding leveldb_ok_def mem_store_def
  using mem_entries_sorted map_of_rev_batch
  by (simp add: map_of_mem_entries flip: map_of_append)

section \<open>A byte format for the tables\<close>

fun esc :: "bytes \<Rightarrow> bytes" where
  "esc [] = [0]"
| "esc (b # bs) = 1 # b # esc bs"

fun unesc :: "bytes \<Rightarrow> bytes \<times> bytes" where
  "unesc (t # b # r) = (if t = 1 then (let (bs, s) = unesc r in (b # bs, s)) else ([], b # r))"
| "unesc [t] = ([], [])"
| "unesc [] = ([], [])"

lemma unesc_esc: "unesc (esc bs @ r) = (bs, r)"
proof (induction bs)
  case Nil
  then show ?case by (cases r) auto
qed simp

definition put_opt :: "bytes option \<Rightarrow> bytes" where
  "put_opt x = (case x of None \<Rightarrow> [0] | Some bs \<Rightarrow> 1 # esc bs)"

definition get_opt :: "bytes \<Rightarrow> bytes option \<times> bytes" where
  "get_opt bs =
     (case bs of [] \<Rightarrow> (None, []) | t # r \<Rightarrow> if t = 0 then (None, r) else (let (x, s) = unesc r in (Some x, s)))"

lemma get_put_opt [simp]: "get_opt (put_opt x @ r) = (x, r)"
  by (cases x) (simp_all add: get_opt_def put_opt_def unesc_esc)

lemma get_put_opt_only [simp]: "get_opt (put_opt x) = (x, [])"
  using get_put_opt [of x "[]"] by simp

definition get_u64 :: "bytes \<Rightarrow> u64 \<times> bytes" where
  "get_u64 bs = (le_word (take 8 bs), drop 8 bs)"

lemma get_u64_le_bytes [simp]: "get_u64 (le_bytes w @ r) = (w, r)"
  by (simp add: get_u64_def le64.dec_enc)

fun get_u64s :: "bytes \<Rightarrow> u64 list" where
  "get_u64s [] = []"
| "get_u64s (b # bs) = le_word (take 8 (b # bs)) # get_u64s (drop 7 bs)"

lemma get_u64s_concat: "get_u64s (concat (map le_bytes ws)) = ws"
proof (induction ws)
  case Nil
  then show ?case by simp
next
  case (Cons w ws)
  obtain b bs where b: "le_bytes w = b # bs" by (cases "le_bytes w") (auto dest: arg_cong [of _ _ length])
  then have "length bs = 7" using length_le_bytes [of w] by simp
  moreover have "le_word (b # bs) = w"
    using b le64.dec_enc [of w] by simp
  ultimately show ?case using Cons b by (simp del: le_word.simps)
qed

definition plain_asset :: "flat_asset \<Rightarrow> bytes" where
  "plain_asset a =
     le_bytes (ucast (fa_type a)) @ le_bytes (fa_key a) @ le_bytes (fa_author a) @
     le_bytes (fa_deprecatedBy a) @ le_bytes (fa_deprecates a) @ le_bytes (fa_size a) @
     le_bytes (fa_chunks a) @ le_bytes (fa_salt a) @
     put_opt (map_option of_chars (fa_name a)) @ put_opt (map_option of_chars (fa_fileExtension a)) @
     put_opt (map_option (\<lambda>ids. concat (map le_bytes ids)) (fa_lists a)) @ put_opt (fa_inlineData a) @ []"

definition plain_asset_root :: "bytes \<Rightarrow> flat_asset" where
  "plain_asset_root bs =
     (let (t, r) = get_u64 bs; (key, r) = get_u64 r; (author, r) = get_u64 r;
          (depby, r) = get_u64 r; (deps, r) = get_u64 r; (sz, r) = get_u64 r;
          (chunks, r) = get_u64 r; (salt, r) = get_u64 r;
          (name, r) = get_opt r; (ext, r) = get_opt r; (ids, r) = get_opt r; (inline, r) = get_opt r
      in \<lparr>fa_type = ucast t, fa_key = key, fa_name = map_option to_chars name,
          fa_fileExtension = map_option to_chars ext, fa_author = author, fa_deprecatedBy = depby,
          fa_deprecates = deps, fa_size = sz, fa_chunks = chunks,
          fa_lists = map_option get_u64s ids, fa_salt = salt, fa_inlineData = inline\<rparr>)"

lemma plain_asset_root [simp]: "plain_asset_root (plain_asset a) = a"
proof -
  have "ucast (ucast (fa_type a) :: u64) = fa_type a"
    by (rule bit_word_eqI) (auto simp: bit_simps)
  then show ?thesis
    by (cases a)
      (simp add: plain_asset_def plain_asset_root_def Let_def option.map_comp comp_def get_u64s_concat
        option.map_ident)
qed

text \<open>A data table: the hash, a tag and the data.\<close>

definition plain_data :: "flat_asset_data \<Rightarrow> bytes" where
  "plain_data t =
     le_bytes (fd_hash t) @ (case fd_data t of None \<Rightarrow> [] | Some bs \<Rightarrow> 1 # bs)"

definition plain_data_root :: "bytes \<Rightarrow> flat_asset_data" where
  "plain_data_root bs =
     (let (hash, r) = get_u64 bs
      in \<lparr>fd_data = (case r of [] \<Rightarrow> None | _ # d \<Rightarrow> Some d), fd_hash = hash\<rparr>)"

lemma plain_data_root [simp]: "plain_data_root (plain_data t) = t"
  by (cases t) (auto simp: plain_data_def plain_data_root_def split: option.splits)

definition plain_list :: "flat_list \<Rightarrow> bytes" where
  "plain_list l = le_bytes (fl_key l) @ put_opt (map_option of_chars (fl_name l)) @ []"

definition plain_list_root :: "bytes \<Rightarrow> flat_list" where
  "plain_list_root bs =
     (let (key, r) = get_u64 bs; (name, r) = get_opt r
      in \<lparr>fl_key = key, fl_name = map_option to_chars name\<rparr>)"

lemma plain_list_root [simp]: "plain_list_root (plain_list l) = l"
  by (cases l)
    (simp add: plain_list_def plain_list_root_def Let_def option.map_comp comp_def option.map_ident)

definition plain_flat :: flat_lib where
  "plain_flat =
     \<lparr>asset_bytes = plain_asset, asset_root = plain_asset_root,
      asset_valid = (\<lambda>bs. plain_asset (plain_asset_root bs) = bs),
      data_bytes = plain_data, data_root = plain_data_root,
      data_valid = (\<lambda>bs. plain_data (plain_data_root bs) = bs),
      list_bytes = plain_list, list_root = plain_list_root,
      list_valid = (\<lambda>bs. plain_list (plain_list_root bs) = bs)\<rparr>"

lemma length_plain_data: "length (plain_data t) \<le> opt_length (fd_data t) + 9"
  by (cases "fd_data t") (simp_all add: plain_data_def opt_length_def)

lemma plain_flat_ok: "flat_ok plain_flat"
proof -
  have "length (plain_data t) \<le> opt_length (fd_data t) + 64" for t
    using length_plain_data [of t] by simp
  then show ?thesis by (simp add: flat_ok_def plain_flat_def)
qed

lemma plain_flat_simps [simp]:
  "asset_valid plain_flat (plain_asset a)" "asset_root plain_flat (plain_asset a) = a"
  "asset_bytes plain_flat = plain_asset"
  "data_valid plain_flat (plain_data t)" "data_root plain_flat (plain_data t) = t"
  "data_bytes plain_flat = plain_data"
  "list_valid plain_flat (plain_list l)" "list_root plain_flat (plain_list l) = l"
  "list_bytes plain_flat = plain_list"
  by (simp_all add: plain_flat_def)

section \<open>A database in memory\<close>

definition memory_db :: "mem \<Rightarrow> mem asset_database" where
  "memory_db m = \<lparr>m_database = Some m\<rparr>"

lemma memory_opened [simp]: "opened mem_store (memory_db m)"
  by (simp add: opened_def memory_db_def mem_store_ok)

lemma memory_view: "view mem_store (memory_db m) k = map_of m (key_bytes k)"
  by (simp add: view_def db_view_def memory_db_def mem_store_def map_of_mem_entries)

lemma memory_put [simp]: "db_put_batch mem_store b (memory_db m) = Inr (True, memory_db (rev b @ m))"
  by (simp add: db_put_batch_def db_ptr_def memory_db_def mem_store_def)

lemma mem_entries_subset: "set (ldb_entries mem_store m) \<subseteq> set m"
proof
  fix e assume "e \<in> set (ldb_entries mem_store m)"
  then have "map_of (mem_entries m) (fst e) = Some (snd e)"
    using mem_entries_sorted [of m] sorted_distinct_keys by (simp add: mem_store_def)
  then have "map_of m (fst e) = Some (snd e)" by (simp add: map_of_mem_entries)
  then show "e \<in> set m" by (metis map_of_SomeD prod.collapse)
qed

end
