(* ===== verification/AssetDatabase_Runs.thy ===== *)
theory AssetDatabase_Runs
  imports Library_Instances
begin

text \<open>
  The histories of an asset database: any sequence of successful or failed stores from an
  empty store. The invariant \<open>db_wf\<close> holds along every history; nothing is ever deleted,
  so records and list entries only accumulate.
\<close>

section \<open>The invariant\<close>

definition db_wf :: "'db leveldb \<Rightarrow> flat_lib \<Rightarrow> 'db asset_database \<Rightarrow> bool" where
  "db_wf ldb F d \<longleftrightarrow>
     opened ldb d \<and> typed_keys ldb d \<and> assets_verified ldb F d \<and>
     (\<forall>s v. view ldb d (AssetName s) = Some v \<or> view ldb d (ListName s) = Some v \<longrightarrow> length v = 8) \<and>
     (\<forall>L. view ldb d (ListKey L) \<noteq> None \<longrightarrow> has_list ldb d L)"

lemma db_wfD:
  "db_wf ldb F d \<Longrightarrow> opened ldb d" "db_wf ldb F d \<Longrightarrow> typed_keys ldb d"
  "db_wf ldb F d \<Longrightarrow> assets_verified ldb F d"
  "db_wf ldb F d \<Longrightarrow> view ldb d (ListKey L) \<noteq> None \<Longrightarrow> has_list ldb d L"
  by (simp_all add: db_wf_def)

lemma apply_batch_other: "k \<notin> fst ` set b \<Longrightarrow> apply_batch b m k = m k"
  by (induction b arbitrary: m) auto

lemma put_batch_typed:
  assumes "opened ldb d" "typed_keys ldb d" "db_put_batch ldb (typed_batch b) d = Inr (ok, d')"
  shows "typed_keys ldb d'"
proof -
  obtain db' where w: "ldb_write ldb (typed_batch b) (the (m_database d)) = (ok, db')"
    and d': "d' = d\<lparr>m_database := Some db'\<rparr>"
    using assms by (auto simp: db_put_batch_def opened_ptr split: prod.splits)
  have dom: "k \<in> fst ` set e \<or> k \<in> dom m" if "apply_batch e m k \<noteq> None" for e m k
    using that apply_batch_other [of k e m] by (cases "k \<in> fst ` set e") (simp_all add: dom_def)
  have eff: "if ok then map_of (ldb_entries ldb db') =
            apply_batch (typed_batch b) (map_of (ldb_entries ldb (the (m_database d))))
        else ldb_entries ldb db' = ldb_entries ldb (the (m_database d))"
    using assms(1) w by (auto simp: opened_def leveldb_ok_def)
  show ?thesis
    unfolding typed_keys_def d'
  proof (intro allI impI)
    fix k v
    assume kv: "(k, v) \<in> set (ldb_entries ldb (the (m_database (d\<lparr>m_database := Some db'\<rparr>))))"
    show "\<exists>t. k = key_bytes t"
    proof (cases ok)
      case False
      with eff kv assms(2) show ?thesis unfolding typed_keys_def by simp blast
    next
      case True
      have "map_of (ldb_entries ldb db') k \<noteq> None"
        using kv by (auto simp: map_of_eq_None_iff rev_image_eqI)
      with True eff dom have "k \<in> fst ` set (typed_batch b) \<or>
          k \<in> dom (map_of (ldb_entries ldb (the (m_database d))))" by simp
      then show ?thesis
      proof
        assume "k \<in> fst ` set (typed_batch b)"
        then show ?thesis by (auto simp: typed_batch_def)
      next
        assume "k \<in> dom (map_of (ldb_entries ldb (the (m_database d))))"
        then obtain v' where "(k, v') \<in> set (ldb_entries ldb (the (m_database d)))"
          using map_of_SomeD by fastforce
        with assms(2) show ?thesis unfolding typed_keys_def by blast
      qed
    qed
  qed
qed

text \<open>A write of entries the invariant allows keeps it.\<close>

definition batch_ok :: "flat_lib \<Rightarrow> (db_key \<times> bytes) list \<Rightarrow> bool" where
  "batch_ok F b \<longleftrightarrow>
     (\<forall>k v. (AssetKey k, v) \<in> set b \<longrightarrow> asset_valid F v) \<and>
     (\<forall>s v. (AssetName s, v) \<in> set b \<or> (ListName s, v) \<in> set b \<longrightarrow> length v = 8) \<and>
     (\<forall>L v. (ListKey L, v) \<in> set b \<longrightarrow>
        EntryKey L kBeginList kBeginList \<in> fst ` set b \<and> EntryKey L kEndList kEndList \<in> fst ` set b)"

lemma update_view_cases:
  "update_view b m k = Some v \<Longrightarrow> (k, v) \<in> set b \<or> m k = Some v"
  by (induction b arbitrary: m) (fastforce split: if_splits)+

lemma update_view_keeps: "m k \<noteq> None \<Longrightarrow> update_view b m k \<noteq> None"
  by (induction b arbitrary: m) (force split: if_splits)+

lemma update_view_adds: "k \<in> fst ` set b \<Longrightarrow> update_view b m k \<noteq> None"
proof (induction b arbitrary: m)
  case Nil
  then show ?case by simp
next
  case (Cons e b)
  then show ?case
    by (cases "k \<in> fst ` set b"; cases e) (auto simp: update_view_other)
qed

lemma put_batch_db_wf:
  assumes "db_wf ldb F d" "batch_ok F b" "db_put_batch ldb (typed_batch b) d = Inr (ok, d')"
  shows "db_wf ldb F d'"
proof -
  have o: "opened ldb d" using assms(1) by (rule db_wfD)
  have v: "opened ldb d'" "view ldb d' = (if ok then update_view b (view ldb d) else view ldb d)"
    using put_batch_refines [OF o, of b] assms(3) by auto
  have t: "typed_keys ldb d'"
    using put_batch_typed [OF o _ assms(3)] assms(1) by (simp add: db_wf_def)
  show ?thesis
  proof (cases ok)
    case False
    with v t assms(1) show ?thesis
      by (simp add: db_wf_def assets_verified_def has_list_def)
  next
    case True
    then have eq: "view ldb d' = update_view b (view ldb d)" using v by simp
    have "assets_verified ldb F d'"
      using assms(1,2) unfolding assets_verified_def eq
      by (meson update_view_cases batch_ok_def db_wf_def assets_verified_def)
    moreover have "length w = 8" if "view ldb d' (AssetName s) = Some w \<or> view ldb d' (ListName s) = Some w" for s w
      using that assms(1,2) unfolding eq batch_ok_def db_wf_def by (meson update_view_cases)
    moreover have "has_list ldb d' L" if L: "view ldb d' (ListKey L) \<noteq> None" for L
    proof -
      from L obtain w where "(ListKey L, w) \<in> set b \<or> view ldb d (ListKey L) = Some w"
        unfolding eq using update_view_cases by blast
      then show ?thesis
      proof
        assume "(ListKey L, w) \<in> set b"
        with assms(2) L show ?thesis
          unfolding has_list_def eq batch_ok_def using update_view_adds by blast
      next
        assume "view ldb d (ListKey L) = Some w"
        with assms(1) have "has_list ldb d L" by (auto simp: db_wf_def)
        then show ?thesis unfolding has_list_def eq using update_view_keeps by blast
      qed
    qed
    ultimately show ?thesis using v(1) t by (simp add: db_wf_def)
  qed
qed

lemma typed_name_set:
  "(k, v) \<in> set (typed_name con name key) \<Longrightarrow> (\<exists>s. k = con s) \<and> v = le_bytes key"
  by (auto simp: typed_name_def split: option.splits if_splits)

lemma asset_batch_ok: "asset_valid F bs \<Longrightarrow> batch_ok F (asset_batch now key bs a ls)"
  unfolding batch_ok_def asset_batch_def using typed_name_set by fastforce

lemma list_batch_ok: "batch_ok F (list_batch key bs l)"
  unfolding batch_ok_def list_batch_def using typed_name_set by fastforce

lemma storeAsset_batch:
  assumes "storeAsset ldb F now key (SizedPointer bs) d = Inr (ok, d')"
  shows "\<exists>ls. asset_valid F bs \<and> fa_lists (asset_root F bs) = Some ls \<and> length ls \<le> kAssetMaxListEntries \<and>
    db_put_batch ldb (typed_batch (asset_batch now key bs (asset_root F bs) ls)) d = Inr (ok, d')"
proof -
  have "typed_batch (map (\<lambda>l. (EntryKey l (if length ls > 0 then now else 0) key, [])) ls) =
      typed_batch (map (\<lambda>l. (EntryKey l now key, [])) ls)" for ls
    by (cases ls) simp_all
  with assms show ?thesis
    by (auto simp: storeAsset_def GetFlatAsset_def name_entry_typed list_entries_eq asset_batch_def
        Let_def fault_simps split: option.splits if_splits)
qed

lemma storeAsset_db_wf:
  assumes "db_wf ldb F d" "storeAsset ldb F now key (SizedPointer bs) d = Inr (ok, d')"
  shows "db_wf ldb F d'"
  using storeAsset_batch [OF assms(2)] put_batch_db_wf [OF assms(1)] asset_batch_ok by blast

lemma storeAssetDataChunk_db_wf:
  assumes "db_wf ldb F d" "storeAssetDataChunk ldb key chunk (SizedPointer bs) d = Inr (ok, d')"
  shows "db_wf ldb F d'"
  by (rule put_batch_db_wf [OF assms(1), of "[(DataKey key chunk, bs)]"])
    (use assms(2) in \<open>simp_all add: storeAssetDataChunk_def batch_ok_def\<close>)

lemma storeList_db_wf:
  assumes "db_wf ldb F d" "storeList ldb F key (SizedPointer bs) d = Inr (ok, d')"
  shows "db_wf ldb F d'"
  by (rule put_batch_db_wf [OF assms(1) list_batch_ok, of key bs "list_root F bs"])
    (use assms(2) in \<open>auto simp: storeList_def GetFlatList_def list_batch_def name_entry_typed Let_def fault_simps
       split: if_splits\<close>)

section \<open>Histories\<close>

inductive db_run :: "'db leveldb \<Rightarrow> flat_lib \<Rightarrow> 'db asset_database \<Rightarrow> 'db asset_database \<Rightarrow> bool"
  for ldb F d0 where
  start: "db_run ldb F d0 d0"
| asset: "db_run ldb F d0 d \<Longrightarrow> storeAsset ldb F now key (SizedPointer bs) d = Inr (ok, d') \<Longrightarrow> db_run ldb F d0 d'"
| chunk: "db_run ldb F d0 d \<Longrightarrow> storeAssetDataChunk ldb key c (SizedPointer bs) d = Inr (ok, d') \<Longrightarrow>
    db_run ldb F d0 d'"
| list_record: "db_run ldb F d0 d \<Longrightarrow> storeList ldb F key (SizedPointer bs) d = Inr (ok, d') \<Longrightarrow> db_run ldb F d0 d'"

lemma db_run_wf: "db_run ldb F d0 d \<Longrightarrow> db_wf ldb F d0 \<Longrightarrow> db_wf ldb F d"
  by (induction rule: db_run.induct)
    (auto intro: storeAsset_db_wf storeAssetDataChunk_db_wf storeList_db_wf)

lemma empty_db_wf: "leveldb_ok ldb \<Longrightarrow> ldb_entries ldb db = [] \<Longrightarrow> db_wf ldb F \<lparr>m_database = Some db\<rparr>"
  by (simp add: db_wf_def opened_def typed_keys_def assets_verified_def view_def db_view_def)

section \<open>Finding what was stored\<close>

lemma stored_asset_lookup:
  assumes "db_wf ldb F d" "storeAsset ldb F now key (SizedPointer bs) d = Inr (True, d')"
    and "fa_deprecatedBy (asset_root F bs) = 0"
  shows "\<exists>rec. findAsset ldb F key d' = Inr rec \<and> \<not> record_empty rec \<and> record_data rec = Inr (SizedPointer bs) \<and>
    (\<forall>name. fa_name (asset_root F bs) = Some name \<longrightarrow> name \<noteq> [] \<longrightarrow> findNamedAsset ldb F name d' = Inr rec)"
proof -
  obtain ls where b: "asset_valid F bs"
      "db_put_batch ldb (typed_batch (asset_batch now key bs (asset_root F bs) ls)) d = Inr (True, d')"
    using storeAsset_batch [OF assms(2)] by blast
  have wf: "db_wf ldb F d'" using storeAsset_db_wf assms(1,2) by blast
  have view: "view ldb d' = update_view (asset_batch now key bs (asset_root F bs) ls) (view ldb d)"
    using put_batch_refines [OF db_wfD(1) [OF assms(1)], of "asset_batch now key bs (asset_root F bs) ls"] b(2) by auto
  have key: "view ldb d' (AssetKey key) = Some bs"
    by (simp add: view asset_batch_def update_view_append)
  then have "resolves ldb F d' key (Some key)"
    using assms(3) by (auto simp: asset_at_def intro: resolves.current)
  from findAsset_outcome(1) [OF db_wfD(1) [OF wf] db_wfD(3) [OF wf] this] key
  obtain rec where rec: "findAsset ldb F key d' = Inr rec" "\<not> record_empty rec" "record_data rec = Inr (SizedPointer bs)"
    by (auto simp: found_def)
  have "findNamedAsset ldb F name d' = Inr rec" if "fa_name (asset_root F bs) = Some name" "name \<noteq> []" for name
  proof -
    have "AssetName name \<notin> fst ` set (map (\<lambda>l. (EntryKey l now key, [])) ls @ [(AssetKey key, bs)])"
      by auto
    then have "view ldb d' (AssetName name) = Some (le_bytes key)"
      using that by (simp add: view asset_batch_def update_view_append typed_name_def update_view_other)
    then have "map_of (ldb_entries ldb (the (m_database d'))) (of_chars (kAssetNamePrefix @ name)) = Some (le_bytes key)"
      by (simp add: view_def db_view_def)
    from seek_value [OF _ this] db_wfD(1) [OF wf] rec(1) show ?thesis
      by (simp add: findNamedAsset_def opened_ptr [OF db_wfD(1) [OF wf]] Let_def opened_def)
  qed
  with rec show ?thesis by blast
qed

lemma resolved_record:
  assumes "db_wf ldb F d" "resolves ldb F d key (Some k)" "view ldb d (AssetKey k) = Some bs"
  obtains rec where "findAsset ldb F key d = Inr rec" "\<not> record_empty rec" "record_data rec = Inr (SizedPointer bs)"
    "asset_valid F bs"
proof -
  have "asset_valid F bs" using db_wfD(3) [OF assms(1)] assms(3) by (auto simp: assets_verified_def)
  with findAsset_outcome(1) [OF db_wfD(1,3) [OF assms(1)] assms(2)] assms(3) that show ?thesis
    by (auto simp: found_def)
qed

end
