(* ===== verification/AssetDatabase_Properties.thy ===== *)
theory AssetDatabase_Properties
  imports AssetDatabase_Runs
begin

text \<open>
  The properties of the asset database, each with a witness over the store in memory.
\<close>

section \<open>A small database\<close>

definition sample_asset :: "u64 \<Rightarrow> u64 \<Rightarrow> flat_asset" where
  "sample_asset key newer =
     flat_asset_default\<lparr>fa_key := key, fa_name := Some ''tune'', fa_deprecatedBy := newer,
       fa_lists := Some [5]\<rparr>"

lemma sample_asset_simps [simp]:
  "fa_lists (sample_asset k n) = Some [5]" "fa_deprecatedBy (sample_asset k n) = n"
  "fa_name (sample_asset k n) = Some ''tune''" "fa_key (sample_asset k n) = k"
  by (simp_all add: sample_asset_def)

section \<open>Keys\<close>

text \<open>
  The keys of the six kinds of entries never collide: two keys the program builds are
  the same bytes only when they are of the same kind for the same asset, chunk, list, list
  entry or name.
\<close>

lemma store_keys_injective:
  "(makeAssetKey k = makeAssetKey k' \<longleftrightarrow> k = k') \<and>
   (makeAssetDataKey k c = makeAssetDataKey k' c' \<longleftrightarrow> k = k' \<and> c = c') \<and>
   (makeListKey k = makeListKey k' \<longleftrightarrow> k = k') \<and>
   (listEntryKey l t a = listEntryKey l' t' a' \<longleftrightarrow> l = l' \<and> t = t' \<and> a = a') \<and>
   distinct [makeAssetKey k, makeAssetDataKey k' c, makeListKey k'', listEntryKey l t a,
     of_chars (kAssetNamePrefix @ s), of_chars (kListNamePrefix @ s')]"
  using key_bytes_inj [of "AssetKey k" "AssetKey k'"] key_bytes_inj [of "DataKey k c" "DataKey k' c'"]
    key_bytes_inj [of "ListKey k" "ListKey k'"] key_bytes_inj [of "EntryKey l t a" "EntryKey l' t' a'"]
  by (simp add: key_defs)

section \<open>Stores\<close>

text \<open>
  C28: What storing an asset does, on every branch. An asset in no list makes the code read
  the list length through a null pointer. An asset in more than eight lists overruns the
  local buffer of entry keys. Otherwise the name, one entry per list and the asset itself
  are written together: all of them when the store reports success, none when it fails.
\<close>

theorem storeAsset_outcome:
  assumes "opened ldb d" "asset_valid F bs"
  shows "case fa_lists (asset_root F bs) of
           None \<Rightarrow> storeAsset ldb F now key (SizedPointer bs) d = Inl NullDeref
         | Some ls \<Rightarrow>
             if length ls > kAssetMaxListEntries
             then storeAsset ldb F now key (SizedPointer bs) d = Inl OutOfBounds
             else \<exists>ok d'. storeAsset ldb F now key (SizedPointer bs) d = Inr (ok, d') \<and>
                    view ldb d' =
                      (if ok then update_view (asset_batch now key bs (asset_root F bs) ls) (view ldb d)
                       else view ldb d)"
proof (cases "fa_lists (asset_root F bs)")
  case None
  with assms(2) show ?thesis by (simp add: storeAsset_def GetFlatAsset_def)
next
  case (Some ls)
  show ?thesis
  proof (cases "length ls > kAssetMaxListEntries")
    case True
    then have "ls \<noteq> [] \<and> 0 + length ls > kAssetMaxListEntries" by auto
    with assms(2) Some True show ?thesis
      by (simp add: storeAsset_def GetFlatAsset_def list_entries_eq Let_def)
  next
    case False
    then have "length ls \<le> kAssetMaxListEntries" by simp
    then obtain ok d' where "storeAsset ldb F now key (SizedPointer bs) d = Inr (ok, d')"
      "view ldb d' = (if ok then update_view (asset_batch now key bs (asset_root F bs) ls) (view ldb d)
                      else view ldb d)"
      using storeAsset_refines [OF assms Some] by blast
    then show ?thesis unfolding Some using False by simp
  qed
qed

lemma storeAsset_outcome_witness:
  "storeAsset mem_store plain_flat 1 7 (SizedPointer (plain_asset flat_asset_default)) (memory_db []) = Inl NullDeref"
  using storeAsset_outcome [of mem_store "memory_db []" plain_flat "plain_asset flat_asset_default" 1 7]
  by (simp add: flat_asset_default_def)

text \<open>
  In every history of stores that starts from an empty database, the stored assets
  all verify, names point to eight-byte keys, the keys of the store are the six kinds
  above, and every stored list still has its two sentinels.
\<close>

lemma history_keeps_wf:
  assumes "leveldb_ok ldb" "ldb_entries ldb db = []" "db_run ldb F \<lparr>m_database = Some db\<rparr> d"
  shows "db_wf ldb F d"
  using db_run_wf [OF assms(3)] empty_db_wf [OF assms(1,2)] .

definition sample_db :: "u64 \<Rightarrow> mem" where
  "sample_db newer =
     rev (typed_batch (asset_batch 1 7 (plain_asset (sample_asset 7 newer)) (sample_asset 7 newer) [5]))"

lemma sample_stored:
  "storeAsset mem_store plain_flat 1 7 (SizedPointer (plain_asset (sample_asset 7 newer))) (memory_db []) =
     Inr (True, memory_db (sample_db newer))"
  by (simp add: storeAsset_def GetFlatAsset_def name_entry_typed list_entries_eq asset_batch_def
      kAssetMaxListEntries_def sample_db_def Let_def)

lemma empty_memory_view: "view mem_store (memory_db []) = Map.empty"
  by (simp add: memory_view fun_eq_iff)

lemma sample_view: "view mem_store (memory_db (sample_db newer)) = update_view
    [(AssetName ''tune'', le_bytes 7), (EntryKey 5 1 7, []), (AssetKey 7, plain_asset (sample_asset 7 newer))] Map.empty"
  using put_batch_refines [OF memory_opened [of "[]"], of "asset_batch 1 7 (plain_asset (sample_asset 7 newer)) (sample_asset 7 newer) [5]"]
  unfolding memory_put sample_db_def empty_memory_view
  by (auto simp: asset_batch_def typed_name_def split: if_splits)

lemma empty_memory: "ldb_entries mem_store [] = []"
  by (simp add: mem_store_def mem_entries_def)

lemma history_keeps_wf_witness: "db_wf mem_store plain_flat (memory_db (sample_db 0))"
proof -
  have "db_run mem_store plain_flat \<lparr>m_database = Some []\<rparr> (memory_db (sample_db 0))"
    using db_run.asset [OF db_run.start] sample_stored [of 0] by (simp add: memory_db_def)
  then show ?thesis by (rule history_keeps_wf [OF mem_store_ok empty_memory])
qed

section \<open>Lookups\<close>

text \<open>
  C13: Looking up an asset follows the chain of deprecations to its end: the record
  returned holds the stored bytes of the last asset of the chain, and it is empty when some
  asset of the chain is missing.
\<close>

theorem findAsset_follows_chain:
  assumes "db_wf ldb F d" "resolves ldb F d k r"
  shows "\<exists>rec. findAsset ldb F k d = Inr rec \<and>
           (case r of
              None \<Rightarrow> record_empty rec
            | Some k' \<Rightarrow> \<exists>bs. view ldb d (AssetKey k') = Some bs \<and> \<not> record_empty rec \<and>
                record_data rec = Inr (SizedPointer bs) \<and> fa_deprecatedBy (asset_root F bs) = 0)"
proof -
  have "fa_deprecatedBy (asset_root F bs) = 0" if "r = Some k'" "view ldb d (AssetKey k') = Some bs" for k' bs
    using assms(2) that by (induction rule: resolves.induct) (auto simp: asset_at_def)
  then show ?thesis
    using findAsset_outcome(1) [OF _ _ assms(2)] db_wfD [OF assms(1)]
    by (fastforce simp: found_def split: option.splits)
qed

definition chain_db :: mem where
  "chain_db = [(makeAssetKey 1, plain_asset (sample_asset 1 2)), (makeAssetKey 2, plain_asset (sample_asset 2 0))]"

lemma chain_view: "view mem_store (memory_db chain_db) =
  [AssetKey 1 \<mapsto> plain_asset (sample_asset 1 2), AssetKey 2 \<mapsto> plain_asset (sample_asset 2 0)]"
proof
  fix k
  have "key_bytes k = makeAssetKey j \<longleftrightarrow> k = AssetKey j" for j
    using key_bytes_inj [of k "AssetKey j"] by simp
  then show "view mem_store (memory_db chain_db) k =
    [AssetKey 1 \<mapsto> plain_asset (sample_asset 1 2), AssetKey 2 \<mapsto> plain_asset (sample_asset 2 0)] k"
    by (auto simp: memory_view chain_db_def)
qed

lemma memory_typed: "\<forall>(k, v) \<in> set m. \<exists>t. k = key_bytes t \<Longrightarrow> typed_keys mem_store (memory_db m)"
  by (auto simp: typed_keys_def memory_db_def mem_store_def mem_entries_def)

lemma chain_wf: "db_wf mem_store plain_flat (memory_db chain_db)"
proof -
  have "typed_keys mem_store (memory_db chain_db)"
    by (rule memory_typed) (auto simp: chain_db_def intro: exI [of _ "AssetKey _"])
  then show ?thesis
    by (auto simp: db_wf_def assets_verified_def chain_view split: if_splits)
qed

lemma chain_resolves: "resolves mem_store plain_flat (memory_db chain_db) 1 (Some 2)"
proof -
  have at: "asset_at mem_store plain_flat (memory_db chain_db) 1 = Some (sample_asset 1 2)"
    "asset_at mem_store plain_flat (memory_db chain_db) 2 = Some (sample_asset 2 0)"
    by (simp_all add: asset_at_def chain_view)
  have "resolves mem_store plain_flat (memory_db chain_db) 2 (Some 2)"
    using at(2) by (rule resolves.current) simp
  then show ?thesis
    using resolves.follow [OF at(1)] by simp
qed

lemma findAsset_follows_chain_witness:
  "\<exists>rec. findAsset mem_store plain_flat 1 (memory_db chain_db) = Inr rec \<and>
     record_data rec = Inr (SizedPointer (plain_asset (sample_asset 2 0)))"
  using findAsset_follows_chain [OF chain_wf chain_resolves] by (auto simp: chain_view)

text \<open>
  C14: The lookup returns exactly when the chain of deprecations from the asset does not run
  into a cycle; when it does, the loop never ends.
\<close>

theorem findAsset_diverges_iff:
  assumes "db_wf ldb F d"
  shows "findAsset ldb F k d = Inl Diverges \<longleftrightarrow>
    (\<exists>j. (k, j) \<in> (deprecation_step ldb F d)\<^sup>* \<and> (j, j) \<in> (deprecation_step ldb F d)\<^sup>+)"
proof -
  note wf = db_wfD [OF assms]
  show ?thesis
  proof
    assume "findAsset ldb F k d = Inl Diverges"
    then have "\<nexists>r. resolves ldb F d k r"
      using findAsset_outcome(1) [OF wf(1,3)] by fastforce
    then show "\<exists>j. (k, j) \<in> (deprecation_step ldb F d)\<^sup>* \<and> (j, j) \<in> (deprecation_step ldb F d)\<^sup>+"
      using reachable_acyclic_resolves by blast
  next
    assume "\<exists>j. (k, j) \<in> (deprecation_step ldb F d)\<^sup>* \<and> (j, j) \<in> (deprecation_step ldb F d)\<^sup>+"
    then have "\<nexists>r. resolves ldb F d k r"
      using resolves_reachable resolves_acyclic_step by blast
    then show "findAsset ldb F k d = Inl Diverges"
      using findAsset_outcome(2) [OF wf(1,3)] by blast
  qed
qed

definition cycle_db :: mem where
  "cycle_db = [(makeAssetKey 1, plain_asset (sample_asset 1 1))]"

lemma cycle_view: "view mem_store (memory_db cycle_db) = [AssetKey 1 \<mapsto> plain_asset (sample_asset 1 1)]"
proof
  fix k
  have "key_bytes k = makeAssetKey 1 \<longleftrightarrow> k = AssetKey 1"
    using key_bytes_inj [of k "AssetKey 1"] by simp
  then show "view mem_store (memory_db cycle_db) k = [AssetKey 1 \<mapsto> plain_asset (sample_asset 1 1)] k"
    by (auto simp: memory_view cycle_db_def)
qed

lemma findAsset_diverges_iff_witness:
  "findAsset mem_store plain_flat 1 (memory_db cycle_db) = Inl Diverges"
proof -
  have "typed_keys mem_store (memory_db cycle_db)"
    by (rule memory_typed) (auto simp: cycle_db_def intro: exI [of _ "AssetKey _"])
  then have "db_wf mem_store plain_flat (memory_db cycle_db)"
    by (auto simp: db_wf_def assets_verified_def cycle_view split: if_splits)
  moreover have "(1, 1) \<in> deprecation_step mem_store plain_flat (memory_db cycle_db)"
    by (simp add: deprecation_step_def asset_at_def cycle_view)
  ultimately show ?thesis
    by (auto simp: findAsset_diverges_iff)
qed

text \<open>
  C15: An asset that was stored and is not deprecated is found again, byte for byte, by its
  key and, when it has a name, by its name.
\<close>

theorem stored_asset_is_found:
  assumes "db_wf ldb F d" "storeAsset ldb F now key (SizedPointer bs) d = Inr (True, d')"
    and "fa_deprecatedBy (asset_root F bs) = 0"
  shows "\<exists>rec. findAsset ldb F key d' = Inr rec \<and> \<not> record_empty rec \<and> record_data rec = Inr (SizedPointer bs) \<and>
    (\<forall>name. fa_name (asset_root F bs) = Some name \<longrightarrow> name \<noteq> [] \<longrightarrow> findNamedAsset ldb F name d' = Inr rec)"
  by (rule stored_asset_lookup [OF assms])

lemma stored_asset_is_found_witness:
  "\<exists>rec. findAsset mem_store plain_flat 7 (memory_db (sample_db 0)) = Inr rec \<and>
     record_data rec = Inr (SizedPointer (plain_asset (sample_asset 7 0))) \<and>
     findNamedAsset mem_store plain_flat ''tune'' (memory_db (sample_db 0)) = Inr rec"
proof -
  have "db_wf mem_store plain_flat (memory_db [])"
    using empty_db_wf [OF mem_store_ok empty_memory] by (simp add: memory_db_def)
  from stored_asset_is_found [OF this sample_stored [of 0]] show ?thesis by auto
qed

lemma record_key_in_store:
  assumes "opened ldb d" "record_key (DatabaseRecord (seek ldb (key_bytes k) (the (m_database d)))) = Inr (SizedPointer (key_bytes k))"
  shows "view ldb d k \<noteq> None"
proof -
  obtain v r where "seek ldb (key_bytes k) (the (m_database d)) = (key_bytes k, v) # r"
    using assms(2) by (cases "seek ldb (key_bytes k) (the (m_database d))" rule: it_key.cases) auto
  then have "(key_bytes k, v) \<in> set (ldb_entries ldb (the (m_database d)))"
    using it_seek_subset [of "key_bytes k" "ldb_entries ldb (the (m_database d))"] by (auto simp: seek_def)
  then show ?thesis
    unfolding view_def db_view_def by (metis fst_conv image_eqI map_of_eq_None_iff)
qed

text \<open>
  C37: A chunk or a list that is not in the database is not reported as missing: the record
  returned is never empty, and its key is that of whatever entry comes next in the store
  (or reading it fails).
\<close>

theorem missing_records_not_empty:
  assumes "db_wf ldb F d"
  shows "(\<exists>rec. loadAssetDataChunk ldb key chunk d = Inr rec \<and> \<not> record_empty rec \<and>
      (view ldb d (DataKey key chunk) = None \<longrightarrow>
         record_key rec \<noteq> Inr (SizedPointer (makeAssetDataKey key chunk)))) \<and>
    (\<exists>rec. loadList ldb L d = Inr rec \<and> \<not> record_empty rec \<and>
      (view ldb d (ListKey L) = None \<longrightarrow> record_key rec \<noteq> Inr (SizedPointer (makeListKey L))))"
  using record_key_in_store [of ldb d "DataKey key chunk"] record_key_in_store [of ldb d "ListKey L"]
    db_wfD(1) [OF assms]
  by (auto simp: loadAssetDataChunk_def loadList_def opened_ptr Let_def)

lemma missing_records_not_empty_witness:
  "\<exists>rec. loadAssetDataChunk mem_store 9 0 (memory_db chain_db) = Inr rec \<and> \<not> record_empty rec \<and>
     record_key rec \<noteq> Inr (SizedPointer (makeAssetDataKey 9 0))"
  using missing_records_not_empty [OF chain_wf, of 9 0] by (simp add: chain_view)

section \<open>Lists\<close>


lemma memory_view_typed: "view mem_store (memory_db (typed_batch b)) k = map_of b k"
proof -
  have "map_of (typed_batch b) (key_bytes k) = map_of b k"
    by (induction b) (auto split: prod.splits)
  then show ?thesis by (simp add: memory_view)
qed

lemma memory_typed_batch: "typed_keys mem_store (memory_db (typed_batch b))"
  by (rule memory_typed) (auto simp: typed_batch_def)

definition list_db :: mem where
  "list_db = typed_batch
     [(EntryKey 5 kBeginList kBeginList, []), (EntryKey 5 kEndList kEndList, []), (ListKey 5, []),
      (EntryKey 5 255 1, []), (EntryKey 5 256 2, [])]"

lemma list_view: "view mem_store (memory_db list_db) = map_of
    [(EntryKey 5 kBeginList kBeginList, []), (EntryKey 5 kEndList kEndList, []), (ListKey 5, []),
     (EntryKey 5 255 1, []), (EntryKey 5 256 2, [])]"
  unfolding list_db_def by (rule ext) (rule memory_view_typed)

lemma list_wf: "db_wf mem_store plain_flat (memory_db list_db)"
proof -
  have "typed_keys mem_store (memory_db list_db)"
    unfolding list_db_def by (rule memory_typed_batch)
  then show ?thesis
    by (simp add: db_wf_def assets_verified_def list_view has_list_def)
qed

lemma list_db_items: "set (list_items mem_store (memory_db list_db) 5) =
    {(kBeginList, kBeginList), (kEndList, kEndList), (255, 1), (256, 2)}"
proof -
  have "(t, a) \<in> set (list_items mem_store (memory_db list_db) 5) \<longleftrightarrow>
      (t, a) \<in> {(kBeginList, kBeginList), (kEndList, kEndList), (255, 1), (256, 2)}" for t a
    using in_items_iff [OF db_wfD(2) [OF list_wf], of t a 5] by (auto simp: list_view)
  then show ?thesis by (intro set_eqI) (simp add: split_paired_all)
qed

lemma list_items_distinct:
  assumes "opened ldb d" "typed_keys ldb d"
  shows "distinct (list_items ldb d L)"
proof -
  have "sorted_wrt (<) (map (\<lambda>p. listEntryKey L (fst p) (snd p)) (list_items ldb d L))"
    using items_sorted [OF assms] by (simp add: sorted_wrt_map)
  then have "distinct (map (\<lambda>p. listEntryKey L (fst p) (snd p)) (list_items ldb d L))"
    by (simp add: strict_sorted_iff)
  then show ?thesis by (simp add: distinct_map)
qed

lemma list_db_tokens: "distinct (map fst (list_items mem_store (memory_db list_db) 5))"
proof -
  have "inj_on fst (set (list_items mem_store (memory_db list_db) 5))"
    unfolding list_db_items by (simp add: inj_on_def kBeginList_def kEndList_def)
  moreover have "distinct (list_items mem_store (memory_db list_db) 5)"
    using list_items_distinct db_wfD(1,2) [OF list_wf] by blast
  ultimately show ?thesis by (simp add: distinct_map)
qed


lemma le_bytes_Cons: "le_bytes w = ucast w # map (\<lambda>i. ucast (drop_bit (8 * i) w)) [1..<8]"
  by (simp add: le_bytes_def upt_conv_Cons [of 0])



end
