(* ===== verification/Http.thy ===== *)
theory Http
  imports AssetDatabase
begin

text \<open>
  The vocabulary shared by the HTTP server and client: requests, responses, the libraries
  both use as parameters (router, parameter conversion and base64) and their documented
  behaviour, and the fixed-size buffers records are encoded into and decoded from.
\<close>

section \<open>Messages\<close>

datatype http_method = Get | Post

datatype http_code = Ok | Not_Found | Internal_Server_Error | Other_Code nat

record http_request =
  req_method :: http_method
  req_resource :: string
  req_body :: bytes

record http_response =
  resp_code :: http_code
  resp_body :: bytes

section \<open>Libraries\<close>

text \<open>
  \<open>router_match\<close> takes a route pattern and a resource and gives the values of the named
  parameters. \<open>no_route\<close> and \<open>bad_param\<close> are the library's own answers when no route
  matches and when a parameter cannot be converted.
\<close>

record http_lib =
  router_match :: "string \<Rightarrow> string \<Rightarrow> (string \<times> string) list option"
  as_u64 :: "string \<Rightarrow> u64 option"
  no_route :: http_response
  bad_param :: http_response
  b64_encode :: "bytes \<Rightarrow> bytes"
  b64_decode :: "bytes \<Rightarrow> bytes"

text \<open>The non-empty segments of a resource between slashes.\<close>

fun segments_acc :: "string \<Rightarrow> string \<Rightarrow> string list" where
  "segments_acc cur [] = (if cur = [] then [] else [cur])"
| "segments_acc cur (c # cs) =
     (if c = CHR ''/'' then (if cur = [] then segments_acc [] cs else cur # segments_acc [] cs)
      else segments_acc (cur @ [c]) cs)"

definition segments :: "string \<Rightarrow> string list" where
  "segments s = segments_acc [] s"

text \<open>A pattern segment that starts with a colon binds the value, any other must be equal.\<close>

fun match_segments :: "string list \<Rightarrow> string list \<Rightarrow> (string \<times> string) list option" where
  "match_segments [] [] = Some []"
| "match_segments (p # ps) (s # ss) =
     (case match_segments ps ss of
        None \<Rightarrow> None
      | Some b \<Rightarrow>
          if p \<noteq> [] \<and> hd p = CHR '':'' then Some ((p, s) # b)
          else if p = s then Some b
          else None)"
| "match_segments _ _ = None"

text \<open>
  Base64 expands three bytes to four characters. What a decoder leaves for other inputs is
  not assumed.
\<close>

definition http_ok :: "http_lib \<Rightarrow> bool" where
  "http_ok H \<longleftrightarrow>
     (\<forall>pat res. router_match H pat res = match_segments (segments pat) (segments res)) \<and>
     (\<forall>n. as_u64 H (show_dec (unat n)) = Some n) \<and>
     (\<forall>bs. b64_decode H (b64_encode H bs) = bs \<and>
           length (b64_encode H bs) = 4 * ((length bs + 2) div 3))"

section \<open>Page buffers\<close>

text \<open>
  \<open>char base64[kPageSize]\<close> and \<open>uint8_t decoded[kPageSize]\<close>: the library writes as many
  bytes as its result has, whatever the size of the buffer.
\<close>

definition encode_page :: "http_lib \<Rightarrow> bytes \<Rightarrow> fault + bytes" where
  "encode_page H bs =
     (if length (b64_encode H bs) > kPageSize then Inl OutOfBounds else Inr (b64_encode H bs))"

definition decode_page :: "http_lib \<Rightarrow> bytes \<Rightarrow> fault + bytes" where
  "decode_page H bs =
     (if length (b64_decode H bs) > kPageSize then Inl OutOfBounds else Inr (b64_decode H bs))"

lemma segments_acc_append:
  "segments_acc cur (a @ CHR ''/'' # b) = segments_acc cur a @ segments_acc [] b"
  by (induction a arbitrary: cur) auto

lemma segments_append: "segments (a @ CHR ''/'' # b) = segments a @ segments b"
  by (simp add: segments_def segments_acc_append)

lemma segments_acc_plain:
  "CHR ''/'' \<notin> set s \<Longrightarrow> segments_acc cur s = (if cur @ s = [] then [] else [cur @ s])"
  by (induction s arbitrary: cur) auto

lemma segments_plain: "CHR ''/'' \<notin> set s \<Longrightarrow> s \<noteq> [] \<Longrightarrow> segments s = [s]"
  by (simp add: segments_def segments_acc_plain)

lemma keyToString_no_slash: "CHR ''/'' \<notin> set (keyToString k)"
  using keyToString_is_hex [of "CHR ''/''" k] by (auto simp: is_hex_def hex_value_def)

lemma keyToString_nonempty [simp]: "keyToString k \<noteq> []"
  using length_keyToString [of k] by (metis list.size(3) zero_neq_numeral)

lemma segments_keyToString [simp]: "segments (keyToString k) = [keyToString k]"
  by (simp add: segments_plain keyToString_no_slash)

lemma show_dec_no_slash: "CHR ''/'' \<notin> set (show_dec n)"
proof
  assume "CHR ''/'' \<in> set (show_dec n)"
  then obtain d where "d < 10" "CHR ''/'' = digit_char d" using show_dec_chars by blast
  then show False
    using of_char_digit_char [of d] by (simp flip: \<open>CHR ''/'' = digit_char d\<close>)
qed

lemma segments_show_dec [simp]: "segments (show_dec n) = [show_dec n]"
  by (simp add: segments_plain show_dec_no_slash)

end
