(* ===== verification/HttpClient.thy ===== *)
theory HttpClient
  imports Http
begin

text \<open>
  \<open>src/confab/HttpClient.cpp\<close>: the client side of the HTTP protocol. The network is a
  parameter: \<open>send\<close> takes a request and the state of the world to the response, or to
  nothing when the promise is rejected, which the code's \<open>NoExcept\<close> turns into
  \<open>std::terminate\<close>. Every call waits on a barrier until its callback has run, so a method
  that takes a callback returns here what it passes to the callback. The random salt or key
  of a call and the contents of the file it reads are parameters; the hash function belongs
  to the xxhash library.
\<close>

section \<open>The network and the hash\<close>

type_synonym 'w network = "http_request \<Rightarrow> 'w \<Rightarrow> http_response option \<times> 'w"

definition http_send :: "'w network \<Rightarrow> http_method \<Rightarrow> string \<Rightarrow> bytes \<Rightarrow> 'w \<Rightarrow> fault + http_response \<times> 'w" where
  "http_send net m url body w =
     (case net \<lparr>req_method = m, req_resource = url, req_body = body\<rparr> w of
        (None, w') \<Rightarrow> Inl Terminated
      | (Some r, w') \<Rightarrow> Inr (r, w'))"

record 'h hash_lib =
  xx_hash :: "bytes \<Rightarrow> u64 \<Rightarrow> u64"
  xx_reset :: "u64 \<Rightarrow> 'h"
  xx_update :: "'h \<Rightarrow> bytes \<Rightarrow> 'h"
  xx_digest :: "'h \<Rightarrow> u64"

text \<open>The streaming interface computes the hash of the bytes it was given, in any pieces.\<close>

definition hash_ok :: "'h hash_lib \<Rightarrow> bool" where
  "hash_ok X \<longleftrightarrow>
     (\<forall>seed cs. xx_digest X (foldl (xx_update X) (xx_reset X seed) cs) = xx_hash X (concat cs) seed)"

record http_client =
  m_serverAddress :: string

text \<open>
  The library's client object behind it: the options it is initialised with and whether it
  has been shut down. The generator of random keys draws from all 64-bit numbers, so a drawn
  key is an arbitrary parameter of the calls below.
\<close>

record client_options =
  opt_keepAlive :: bool
  opt_maxConnectionsPerHost :: nat
  opt_threads :: nat

record pistache_client =
  pc_options :: client_options
  pc_running :: bool

definition new_HttpClient :: "string \<Rightarrow> http_client \<times> pistache_client" where
  "new_HttpClient serverAddress =
     (let opts = \<lparr>opt_keepAlive = True, opt_maxConnectionsPerHost = 4, opt_threads = 4\<rparr>
      in (\<lparr>m_serverAddress = serverAddress\<rparr>, \<lparr>pc_options = opts, pc_running = True\<rparr>))"

definition client_shutdown :: "pistache_client \<Rightarrow> pistache_client" where
  "client_shutdown pc = pc\<lparr>pc_running := False\<rparr>"

section \<open>Downloads\<close>

text \<open>
  Decode the body of a successful response into a page, and hand the bytes on only when the
  verifier of the expected table accepts them.
\<close>

definition received :: "http_lib \<Rightarrow> (bytes \<Rightarrow> bool) \<Rightarrow> http_response \<Rightarrow> fault + record_ptr" where
  "received H valid r =
     (if resp_code r = Ok then
        rbind (decode_page H (resp_body r)) (\<lambda>decoded.
          if valid decoded then Inr (ClientRecord (SizedPointer decoded)) else Inr EmptyRecord)
      else Inr EmptyRecord)"

definition client_getAsset :: "http_lib \<Rightarrow> flat_lib \<Rightarrow> 'w network \<Rightarrow> http_client \<Rightarrow> u64 \<Rightarrow> 'w \<Rightarrow>
    fault + (u64 \<times> record_ptr) \<times> 'w" where
  "client_getAsset H F net c key w =
     (let request = m_serverAddress c @ ''/asset/id/'' @ keyToString key
      in rbind (http_send net Get request [] w) (\<lambda>(r, w').
         rbind (received H (asset_valid F) r) (\<lambda>rec. Inr ((key, rec), w'))))"

definition client_getNamedAsset :: "http_lib \<Rightarrow> flat_lib \<Rightarrow> 'w network \<Rightarrow> http_client \<Rightarrow> string \<Rightarrow> 'w \<Rightarrow>
    fault + record_ptr \<times> 'w" where
  "client_getNamedAsset H F net c name w =
     (let request = m_serverAddress c @ ''/asset/name''
      in rbind (http_send net Get request (of_chars name) w) (\<lambda>(r, w').
         rbind (received H (asset_valid F) r) (\<lambda>rec. Inr (rec, w'))))"

definition client_getAssetData :: "http_lib \<Rightarrow> flat_lib \<Rightarrow> 'w network \<Rightarrow> http_client \<Rightarrow> u64 \<Rightarrow> u64 \<Rightarrow> 'w \<Rightarrow>
    fault + (u64 \<times> u64 \<times> record_ptr) \<times> 'w" where
  "client_getAssetData H F net c key chunk w =
     (let numBuf = snprintf 32 (show_dec (unat chunk));
          request = m_serverAddress c @ ''/asset/data/'' @ keyToString key @ ''/'' @ numBuf
      in rbind (http_send net Get request [] w) (\<lambda>(r, w').
         rbind (received H (data_valid F) r) (\<lambda>rec. Inr ((key, chunk, rec), w'))))"

definition client_getList :: "http_lib \<Rightarrow> flat_lib \<Rightarrow> 'w network \<Rightarrow> http_client \<Rightarrow> u64 \<Rightarrow> 'w \<Rightarrow>
    fault + record_ptr \<times> 'w" where
  "client_getList H F net c key w =
     (let request = m_serverAddress c @ ''/list/id/'' @ keyToString key
      in rbind (http_send net Get request [] w) (\<lambda>(r, w').
         rbind (received H (list_valid F) r) (\<lambda>rec. Inr (rec, w'))))"

definition client_getNamedList :: "http_lib \<Rightarrow> flat_lib \<Rightarrow> 'w network \<Rightarrow> http_client \<Rightarrow> string \<Rightarrow> 'w \<Rightarrow>
    fault + record_ptr \<times> 'w" where
  "client_getNamedList H F net c name w =
     (let request = m_serverAddress c @ ''/list/name''
      in rbind (http_send net Get request (of_chars name) w) (\<lambda>(r, w').
         rbind (received H (list_valid F) r) (\<lambda>rec. Inr (rec, w'))))"

definition client_getListItems :: "'w network \<Rightarrow> http_client \<Rightarrow> u64 \<Rightarrow> u64 \<Rightarrow> 'w \<Rightarrow> fault + bytes \<times> 'w" where
  "client_getListItems net c key token w =
     (let request = m_serverAddress c @ ''/list/items/'' @ keyToString key @ ''/'' @ keyToString token
      in rbind (http_send net Get request [] w) (\<lambda>(r, w').
         if resp_code r = Ok then Inr (resp_body r, w') else Inr ([], w')))"

section \<open>Uploads\<close>

text \<open>
  Encode a finished builder into the page buffer; the size is checked only after the
  encoder has written.
\<close>

definition encode_checked :: "http_lib \<Rightarrow> bytes \<Rightarrow> fault + bytes" where
  "encode_checked H bs =
     rbind (encode_page H bs) (\<lambda>base64.
       if length base64 < kPageSize then Inr base64 else Inl CheckFailed)"

definition client_post :: "http_lib \<Rightarrow> 'w network \<Rightarrow> string \<Rightarrow> bytes \<Rightarrow> 'w \<Rightarrow> fault + bool \<times> 'w" where
  "client_post H net request bs w =
     rbind (encode_checked H bs) (\<lambda>base64.
     rbind (http_send net Post request base64 w) (\<lambda>(r, w').
       Inr (resp_code r = Ok, w')))"

definition postInlineAsset :: "http_lib \<Rightarrow> flat_lib \<Rightarrow> 'h hash_lib \<Rightarrow> 'w network \<Rightarrow> http_client \<Rightarrow> u64 \<Rightarrow>
    asset_type \<Rightarrow> string \<Rightarrow> u64 \<Rightarrow> u64 \<Rightarrow> string \<Rightarrow> u64 \<Rightarrow> bytes \<Rightarrow> 'w \<Rightarrow> fault + u64 \<times> 'w" where
  "postInlineAsset H F X net c salt t name author deprecates listIds sz inlineData w =
     (if unat sz > kSingleChunkDataSize then Inr (0, w)
      else
        let asset = setSalt salt (setDeprecates deprecates (setAuthor author (setName name (new_Asset t))))
        in rbind (copy_out inlineData (unat sz)) (\<lambda>hashed.
           let key = xx_hash X hashed (m_salt asset);
               asset = setSize sz (fst (parseListIds listIds (setKey key asset)))
           in rbind (flatten asset (Some inlineData)) (\<lambda>t.
              let request = m_serverAddress c @ ''/asset/id/'' @ keyToString key
              in rbind (client_post H net request (asset_bytes F t) w) (\<lambda>(ok, w').
                 Inr (if ok then key else 0, w')))))"

definition postList :: "http_lib \<Rightarrow> flat_lib \<Rightarrow> 'w network \<Rightarrow> http_client \<Rightarrow> u64 \<Rightarrow> string \<Rightarrow> 'w \<Rightarrow>
    fault + u64 \<times> 'w" where
  "postList H F net c key name w =
     (let list = \<lparr>fl_key = key, fl_name = Some name\<rparr>;
          request = m_serverAddress c @ ''/list/id/'' @ keyToString key
      in rbind (client_post H net request (list_bytes F list) w) (\<lambda>(ok, w').
         Inr (if ok then key else 0, w')))"

subsection \<open>Files\<close>

text \<open>
  An input stream: the bytes not read yet and whether the stream is still good. A read of
  more bytes than are left takes what there is and fails the stream; a failed stream reads
  nothing.
\<close>

record stream =
  st_rest :: bytes
  st_good :: bool

definition stream_read :: "nat \<Rightarrow> stream \<Rightarrow> bytes \<times> stream" where
  "stream_read n s =
     (if st_good s then (take n (st_rest s), \<lparr>st_rest = drop n (st_rest s), st_good = (n \<le> length (st_rest s))\<rparr>)
      else ([], s))"

text \<open>
  The first pass over the file, from the chunk just read; \<open>bytesRemaining\<close> is a \<open>size_t\<close>
  and wraps when the file is longer than its recorded size.
\<close>

function hash_loop :: "'h hash_lib \<Rightarrow> stream \<Rightarrow> u64 \<Rightarrow> bytes \<Rightarrow> 'h \<Rightarrow> u64 \<times> bytes \<times> 'h" where
  "hash_loop X s bytesRemaining fileChunk h =
     (if st_good s \<and> bytesRemaining > 0 then
        let h = xx_update X h fileChunk;
            (fileChunk, s') = stream_read kDataChunkSize s
        in hash_loop X s' (bytesRemaining - of_nat (length fileChunk)) fileChunk h
      else (bytesRemaining, fileChunk, h))"
  by auto

termination
  by (relation "measure (\<lambda>(X, s, _). (if st_good s then 1 else 0) + length (st_rest s))")
    (auto simp: stream_read_def kDataChunkSize_val)

declare hash_loop.simps [simp del]

definition hash_file :: "'h hash_lib \<Rightarrow> u64 \<Rightarrow> bytes \<Rightarrow> u64 option" where
  "hash_file X fileSize content =
     (let (fileChunk, s) = stream_read kDataChunkSize \<lparr>st_rest = content, st_good = True\<rparr>;
          (bytesRemaining, fileChunk, h) =
            hash_loop X s (fileSize - of_nat (length fileChunk)) fileChunk (xx_reset X 0);
          h = (if length fileChunk > 0 then xx_update X h fileChunk else h)
      in if bytesRemaining > 0 then None else Some (xx_digest X h))"

text \<open>
  The second pass: read a chunk into a data table, hash it, post it. The result is the
  remaining size, the last running hash and whether everything succeeded.
\<close>

lemma chunk_progress:
  assumes "(0 :: u64) < r"
  shows "unat (r - min (of_nat kDataChunkSize) r) < unat r"
proof -
  let ?m = "min (of_nat kDataChunkSize) r"
  have "0 < ?m" using assms by (simp add: kDataChunkSize_val min_def)
  moreover have "?m \<le> r" by simp
  ultimately have "unat (r - ?m) = unat r - unat ?m" "0 < unat ?m" "unat ?m \<le> unat r"
    by (simp_all add: unat_sub word_less_nat_alt word_le_nat_alt)
  then show ?thesis by simp
qed

function upload_loop :: "http_lib \<Rightarrow> flat_lib \<Rightarrow> 'h hash_lib \<Rightarrow> 'w network \<Rightarrow> http_client \<Rightarrow> u64 \<Rightarrow>
    bool \<Rightarrow> stream \<Rightarrow> u64 \<Rightarrow> u64 \<Rightarrow> 'h \<Rightarrow> u64 \<Rightarrow> 'w \<Rightarrow> fault + (bool \<times> u64 \<times> u64) \<times> 'w" where
  "upload_loop H F X net c key ok s bytesRemaining chunk h chunkHash w =
     (if ok \<and> st_good s \<and> bytesRemaining > 0 then
        let flatDataSize = min (of_nat kDataChunkSize) bytesRemaining;
            (flatData, s') = stream_read (unat flatDataSize) s;
            bytesRead = length flatData;
            bytesRemaining' = bytesRemaining - of_nat bytesRead
        in if bytesRead \<noteq> unat flatDataSize then Inr ((False, bytesRemaining', chunkHash), w)
           else
             let h = xx_update X h flatData;
                 chunkHash = xx_digest X h;
                 table = \<lparr>fd_data = Some flatData, fd_hash = chunkHash\<rparr>;
                 request = m_serverAddress c @ ''/asset/data/'' @ keyToString key @ ''/'' @
                   snprintf 32 (show_dec (unat chunk))
             in rbind (client_post H net request (data_bytes F table) w) (\<lambda>(ok, w').
                  upload_loop H F X net c key ok s' bytesRemaining' (chunk + 1) h chunkHash w')
      else Inr ((ok, bytesRemaining, chunkHash), w))"
  by auto

termination
  by (relation "measure (\<lambda>(H, F, X, net, c, key, ok, s, bytesRemaining, _). unat bytesRemaining)")
    (auto simp: chunk_progress)

declare upload_loop.simps [simp del]

text \<open>
  The file as the two passes see it: its recorded size, whether it opens, its extension,
  and the bytes each pass reads.
\<close>

record file_view =
  fv_size :: u64
  fv_opens :: bool
  fv_extension :: string
  fv_first :: bytes
  fv_second :: bytes

definition postFileAsset :: "http_lib \<Rightarrow> flat_lib \<Rightarrow> 'h hash_lib \<Rightarrow> 'w network \<Rightarrow> http_client \<Rightarrow>
    asset_type \<Rightarrow> string \<Rightarrow> u64 \<Rightarrow> u64 \<Rightarrow> string \<Rightarrow> file_view \<Rightarrow> 'w \<Rightarrow> fault + u64 \<times> 'w" where
  "postFileAsset H F X net c t name author deprecates listIds file w =
     (let fileSize = fv_size file
      in if fileSize = 0 then Inr (0, w)
         else if \<not> fv_opens file then Inr (0, w)
         else case hash_file X fileSize (fv_first file) of
           None \<Rightarrow> Inr (0, w)
         | Some key \<Rightarrow>
             let asset = setChunks (fileSize div of_nat kDataChunkSize + 1) (setSize fileSize
                   (setDeprecates deprecates (setAuthor author (setFileExtension (fv_extension file)
                   (setName name (setKey key (new_Asset t)))))));
                 asset = fst (parseListIds listIds asset)
             in rbind (flatten asset None) (\<lambda>table.
                let request = m_serverAddress c @ ''/asset/id/'' @ keyToString key
                in rbind (client_post H net request (asset_bytes F table) w) (\<lambda>(ok, w').
                   if \<not> ok then Inr (0, w')
                   else
                     let s = \<lparr>st_rest = fv_second file, st_good = True\<rparr>
                     in rbind (upload_loop H F X net c key True s fileSize 0 (xx_reset X 0) 0 w')
                          (\<lambda>((ok, bytesRemaining, chunkHash), w'').
                          if \<not> ok \<or> bytesRemaining > 0 \<or> chunkHash \<noteq> key then Inr (0, w'')
                          else Inr (key, w'')))))"
end
