(* ===== verification/CacheManager.thy ===== *)
theory CacheManager
  imports HttpClient "HOL-Library.Char_ord"
begin

text \<open>
  \<open>src/confab/CacheManager.cpp\<close>: the file cache of downloaded assets. The directory is a
  map from paths to files with contents and write time, the priority queue of write times
  is kept as a list with its greatest element first, and the methods take and return both.
  The order of a directory listing and whether a file opens are parameters.
\<close>

section \<open>Paths\<close>

definition path_filename :: "string \<Rightarrow> string" where
  "path_filename p = rev (takeWhile (\<lambda>c. c \<noteq> CHR ''/'') (rev p))"

definition path_parent :: "string \<Rightarrow> string" where
  "path_parent p = take (length p - length (path_filename p) - 1) p"

text \<open>
  \<open>stem\<close> and \<open>extension\<close> split the file name at its last period, unless it is one or two
  periods.
\<close>

definition path_extension :: "string \<Rightarrow> string" where
  "path_extension p =
     (let f = path_filename p
      in if f = ''.'' \<or> f = ''..'' \<or> CHR ''.'' \<notin> set f then []
         else CHR ''.'' # rev (takeWhile (\<lambda>c. c \<noteq> CHR ''.'') (rev f)))"

definition path_stem :: "string \<Rightarrow> string" where
  "path_stem p =
     (let f = path_filename p in take (length f - length (path_extension p)) f)"

section \<open>The file system\<close>

datatype fs_node = Regular (node_content: bytes) (node_time: nat) | NonRegular

type_synonym fs = "(string \<times> fs_node) list"

definition fs_last_write_time :: "string \<Rightarrow> fs \<Rightarrow> fault + nat" where
  "fs_last_write_time p fs =
     (case umap_find fs p of Some (Regular content t) \<Rightarrow> Inr t | _ \<Rightarrow> Inl FilesystemError)"

definition fs_touch :: "string \<Rightarrow> nat \<Rightarrow> fs \<Rightarrow> fault + fs" where
  "fs_touch p t fs =
     (case umap_find fs p of
        Some (Regular content _) \<Rightarrow> Inr (umap_assign p (Regular content t) fs)
      | _ \<Rightarrow> Inl FilesystemError)"

definition fs_file_size :: "string \<Rightarrow> fs \<Rightarrow> fault + u64" where
  "fs_file_size p fs =
     (case umap_find fs p of
        Some (Regular content _) \<Rightarrow> Inr (of_nat (length content))
      | _ \<Rightarrow> Inl FilesystemError)"

text \<open>\<open>fs::remove\<close> of a path that does not exist is no error.\<close>

definition fs_remove :: "string \<Rightarrow> fs \<Rightarrow> fs" where
  "fs_remove p fs = umap_erase p fs"

definition directory :: "(fs \<Rightarrow> fs) \<Rightarrow> string \<Rightarrow> fs \<Rightarrow> fault + fs" where
  "directory order p fs =
     (if umap_find fs p = Some NonRegular
      then Inr (order (filter (\<lambda>(q, _). path_parent q = p) fs))
      else Inl FilesystemError)"

section \<open>The class\<close>

type_synonym time_path = "nat \<times> string"

record cache_manager =
  m_cachePath :: string
  m_maxSize :: u64
  m_currentSize :: u64
  m_timeQueue :: "time_path list"
  m_extensionMap :: "(u64 \<times> string) list"

definition new_CacheManager :: "string \<Rightarrow> u64 \<Rightarrow> cache_manager" where
  "new_CacheManager cachePath maxSize =
     \<lparr>m_cachePath = cachePath, m_maxSize = maxSize, m_currentSize = 0, m_timeQueue = [], m_extensionMap = []\<rparr>"

text \<open>
  \<open>std::priority_queue<TimePath>\<close> with the default comparison: \<open>top\<close> is the greatest pair,
  by time and then by the components of the path.
\<close>

definition time_path_less :: "time_path \<Rightarrow> time_path \<Rightarrow> bool" where
  "time_path_less x y \<longleftrightarrow> fst x < fst y \<or> fst x = fst y \<and> segments (snd x) < segments (snd y)"

fun pq_push :: "time_path \<Rightarrow> time_path list \<Rightarrow> time_path list" where
  "pq_push e [] = [e]"
| "pq_push e (x # xs) = (if time_path_less x e then e # x # xs else x # pq_push e xs)"

fun pq_top :: "time_path list \<Rightarrow> fault + time_path" where
  "pq_top [] = Inl EmptyTop"
| "pq_top (x # xs) = Inr x"

definition pq_pop :: "time_path list \<Rightarrow> time_path list" where
  "pq_pop q = tl q"

text \<open>\<open>std::unordered_map::insert\<close> keeps an entry that is already there.\<close>

definition umap_insert :: "'k \<Rightarrow> 'v \<Rightarrow> ('k \<times> 'v) list \<Rightarrow> ('k \<times> 'v) list" where
  "umap_insert k v m = (case umap_find m k of None \<Rightarrow> umap_assign k v m | Some _ \<Rightarrow> m)"

section \<open>Eviction\<close>

definition stale :: "fs \<Rightarrow> time_path \<Rightarrow> bool" where
  "stale fs e \<longleftrightarrow> fs_last_write_time (snd e) fs \<noteq> Inr (fst e)"

lemma length_pq_push [simp]: "length (pq_push e q) = Suc (length q)"
  by (induction q) auto

lemma mset_pq_push [simp]: "mset (pq_push e q) = add_mset e (mset q)"
  by (induction q) auto

lemma pq_top_Inr: "pq_top q = Inr x \<longleftrightarrow> (\<exists>r. q = x # r)"
  by (cases q) auto

lemma length_filter_pq_push:
  "length (filter P (pq_push e q)) = (if P e then 1 else 0) + length (filter P q)"
  by (induction q) auto

function makeRoomFor :: "u64 \<Rightarrow> cache_manager \<Rightarrow> fs \<Rightarrow> fault + cache_manager \<times> fs" where
  "makeRoomFor addedBytes c fs =
     (if m_currentSize c + addedBytes > m_maxSize c then
        (case pq_top (m_timeQueue c) of
           Inl e \<Rightarrow> Inl e
         | Inr oldest \<Rightarrow>
             let q = pq_pop (m_timeQueue c)
             in case fs_last_write_time (snd oldest) fs of
                  Inl e \<Rightarrow> Inl e
                | Inr realWriteTime \<Rightarrow>
                    if realWriteTime = fst oldest then
                      (case fs_file_size (snd oldest) fs of
                         Inl e \<Rightarrow> Inl e
                       | Inr oldestSize \<Rightarrow>
                           makeRoomFor addedBytes
                             (c\<lparr>m_timeQueue := q, m_currentSize := m_currentSize c - oldestSize,
                                m_extensionMap := umap_erase (stringToKey (path_stem (snd oldest))) (m_extensionMap c)\<rparr>)
                             (fs_remove (snd oldest) fs))
                    else makeRoomFor addedBytes (c\<lparr>m_timeQueue := pq_push (realWriteTime, snd oldest) q\<rparr>) fs)
      else Inr (c, fs))"
  by auto

termination
  by (relation "measures [\<lambda>(_, c, _). length (m_timeQueue c),
      \<lambda>(_, c, fs). length (filter (stale fs) (m_timeQueue c))]")
    (auto simp: pq_pop_def pq_top_Inr length_filter_pq_push stale_def)

declare makeRoomFor.simps [simp del]

section \<open>Start-up\<close>

text \<open>The hash of a cached file, chunk by chunk, and the bytes left unread.\<close>

function validate_loop :: "'h hash_lib \<Rightarrow> stream \<Rightarrow> u64 \<Rightarrow> 'h \<Rightarrow> u64 \<times> 'h" where
  "validate_loop X s bytesRemaining h =
     (if st_good s \<and> bytesRemaining > 0 then
        let (fileChunk, s') = stream_read kDataChunkSize s
        in validate_loop X s' (bytesRemaining - of_nat (length fileChunk)) (xx_update X h fileChunk)
      else (bytesRemaining, h))"
  by auto

termination
  by (relation "measure (\<lambda>(X, s, _). (if st_good s then 1 else 0) + length (st_rest s))")
    (auto simp: stream_read_def kDataChunkSize_val)

declare validate_loop.simps [simp del]

definition file_valid :: "'h hash_lib \<Rightarrow> bool \<Rightarrow> u64 \<Rightarrow> u64 \<Rightarrow> bytes \<Rightarrow> bool" where
  "file_valid X opens key fileSize content =
     (if \<not> opens then False
      else
        let (bytesRemaining, h) = validate_loop X \<lparr>st_rest = content, st_good = True\<rparr> fileSize (xx_reset X 0);
            hash = xx_digest X h
        in \<not> (hash \<noteq> key \<or> bytesRemaining > 0))"

text \<open>One entry of the directory.\<close>

definition check_entry :: "'h hash_lib \<Rightarrow> (string \<Rightarrow> bool) \<Rightarrow> bool \<Rightarrow> string \<times> fs_node \<Rightarrow>
    cache_manager \<times> fs \<Rightarrow> cache_manager \<times> fs" where
  "check_entry X opens validate entry s =
     (case (entry, s) of ((path, node), (c, fs)) \<Rightarrow>
       (case node of
          NonRegular \<Rightarrow> (c, fs)
        | Regular content writeTime \<Rightarrow>
            let fileSize = of_nat (length content);
                key = stringToKey (path_stem path);
                valid = (if validate then file_valid X (opens path) key fileSize content else True)
            in if valid then
                 (c\<lparr>m_currentSize := m_currentSize c + fileSize,
                    m_timeQueue := pq_push (writeTime, path) (m_timeQueue c),
                    m_extensionMap := umap_insert key (path_extension path) (m_extensionMap c)\<rparr>, fs)
               else (c, fs_remove path fs)))"

definition checkExistingEntries :: "'h hash_lib \<Rightarrow> (string \<Rightarrow> bool) \<Rightarrow> (fs \<Rightarrow> fs) \<Rightarrow> bool \<Rightarrow>
    cache_manager \<Rightarrow> fs \<Rightarrow> fault + cache_manager \<times> fs" where
  "checkExistingEntries X opens order validate c fs =
     (let c = c\<lparr>m_currentSize := 0, m_timeQueue := [], m_extensionMap := []\<rparr>
      in rbind (directory order (m_cachePath c) fs) (\<lambda>entries.
         let (c, fs) = fold (check_entry X opens validate) entries (c, fs)
         in makeRoomFor 0 c fs))"

section \<open>Lookup and download\<close>

text \<open>An empty path means there is no such file.\<close>

definition checkCache :: "nat \<Rightarrow> u64 \<Rightarrow> cache_manager \<Rightarrow> fs \<Rightarrow> fault + string \<times> fs" where
  "checkCache now key c fs =
     (case umap_find (m_extensionMap c) key of
        None \<Rightarrow> Inr ([], fs)
      | Some extension \<Rightarrow>
          let cachePath = m_cachePath c @ keyToString key @ extension
          in rbind (fs_touch cachePath now fs) (\<lambda>fs'. Inr (cachePath, fs')))"

record 'h download_state =
  dl_written :: bytes
  dl_digest :: u64
  dl_hash :: 'h
  dl_ok :: bool

text \<open>What the callback does with the record of one chunk.\<close>

definition chunk_callback :: "flat_lib \<Rightarrow> 'h hash_lib \<Rightarrow> record_ptr \<Rightarrow> 'h download_state \<Rightarrow>
    fault + 'h download_state" where
  "chunk_callback F X rec s =
     (if record_empty rec then Inr (s\<lparr>dl_ok := False\<rparr>)
      else rbind (record_data rec) (\<lambda>p.
           rbind (sp_data p) (\<lambda>bs.
           rbind (GetFlatAssetData F bs) (\<lambda>flatAssetData.
           case fd_data flatAssetData of
             None \<Rightarrow> Inl NullDeref
           | Some chunkData \<Rightarrow>
               let h = xx_update X (dl_hash s) chunkData;
                   digest = xx_digest X h;
                   s = s\<lparr>dl_hash := h, dl_digest := digest\<rparr>
               in if digest \<noteq> fd_hash flatAssetData then Inr (s\<lparr>dl_ok := False\<rparr>)
                  else Inr (s\<lparr>dl_written := dl_written s @ chunkData\<rparr>)))))"

text \<open>
  The loop over the chunks. The counter is an \<open>int\<close> compared with a 64-bit number of
  chunks, so counting past \<open>2 ^ 31 - 1\<close> overflows.
\<close>

function download_loop :: "http_lib \<Rightarrow> flat_lib \<Rightarrow> 'h hash_lib \<Rightarrow> 'w network \<Rightarrow> http_client \<Rightarrow> u64 \<Rightarrow> nat \<Rightarrow>
    nat \<Rightarrow> 'h download_state \<Rightarrow> 'w \<Rightarrow> fault + 'h download_state \<times> 'w" where
  "download_loop H F X net hc key chunks i s w =
     (if i < chunks then
        rbind (client_getAssetData H F net hc key (of_nat i) w) (\<lambda>((_, _, rec), w').
        rbind (chunk_callback F X rec s) (\<lambda>s'.
          if \<not> dl_ok s' then Inr (s', w')
          else if i + 1 \<ge> 2 ^ 31 then Inl SignedOverflow
          else download_loop H F X net hc key chunks (i + 1) s' w'))
      else Inr (s, w))"
  by auto

termination
  by (relation "measure (\<lambda>(H, F, X, net, hc, key, chunks, i, _). chunks - i)") auto

declare download_loop.simps [simp del]

definition download :: "http_lib \<Rightarrow> flat_lib \<Rightarrow> 'h hash_lib \<Rightarrow> 'w network \<Rightarrow> http_client \<Rightarrow>
    (string \<Rightarrow> bool) \<Rightarrow> nat \<Rightarrow> u64 \<Rightarrow> u64 \<Rightarrow> u64 \<Rightarrow> string \<Rightarrow> cache_manager \<Rightarrow> fs \<Rightarrow> 'w \<Rightarrow>
    fault + (string \<times> cache_manager \<times> fs) \<times> 'w" where
  "download H F X net hc opens now key fileSize chunks fileExtension c fs w =
     (let filePath = m_cachePath c @ ''/'' @ keyToString key @ fileExtension
      in if \<not> opens filePath then Inr (([], c, fs), w)
         else
           rbind (download_loop H F X net hc key (unat chunks) 0
                    \<lparr>dl_written = [], dl_digest = 0, dl_hash = xx_reset X 0, dl_ok = True\<rparr> w) (\<lambda>(s, w').
             let ok = (if dl_ok s \<and> (key \<noteq> dl_digest s \<or> fileSize \<noteq> of_nat (length (dl_written s)))
                       then False else dl_ok s)
             in if \<not> ok then Inr (([], c, fs_remove filePath fs), w')
                else
                  let c' = c\<lparr>m_currentSize := m_currentSize c + fileSize,
                             m_timeQueue := pq_push (now, filePath) (m_timeQueue c),
                             m_extensionMap := umap_insert key fileExtension (m_extensionMap c)\<rparr>
                  in Inr ((filePath, c', umap_assign filePath (Regular (dl_written s) now) fs), w')))"

end
