(* ===== verification/HttpEndpoint.thy ===== *)
theory HttpEndpoint
  imports Http
begin

text \<open>
  \<open>src/confab/HttpEndpoint.cpp\<close>: the routes of the HTTP server and its nine handlers over
  the asset database. A handler takes the route's parameters and the body and returns the
  response with the new database, or the fault that brings the server down. The time of a
  request is a parameter, for the timestamps of list entries.
\<close>

section \<open>Responses\<close>

definition respond :: "http_code \<Rightarrow> bytes \<Rightarrow> 'd \<Rightarrow> fault + http_response \<times> 'd" where
  "respond code body d = Inr (\<lparr>resp_code = code, resp_body = body\<rparr>, d)"

text \<open>
  A found record is encoded into a page; the check of the encoded size comes after the
  encoding and only logs.
\<close>

definition send_record :: "http_lib \<Rightarrow> record_ptr \<Rightarrow> 'd \<Rightarrow> fault + http_response \<times> 'd" where
  "send_record H rec d =
     (if record_empty rec then respond Not_Found [] d
      else rbind (record_data rec) (\<lambda>p.
           rbind (sp_data p) (\<lambda>bs.
           rbind (encode_page H bs) (\<lambda>base64. respond Ok base64 d))))"

definition status_response :: "bool \<Rightarrow> 'd \<Rightarrow> fault + http_response \<times> 'd" where
  "status_response status d = respond (if status then Ok else Internal_Server_Error) [] d"

section \<open>Handlers\<close>

definition http_getAsset :: "http_lib \<Rightarrow> 'db leveldb \<Rightarrow> flat_lib \<Rightarrow> string \<Rightarrow> 'db asset_database \<Rightarrow>
    fault + http_response \<times> 'db asset_database" where
  "http_getAsset H ldb F keyString d =
     (let key = stringToKey keyString
      in rbind (findAsset ldb F key d) (\<lambda>rec. send_record H rec d))"

definition http_postAsset :: "http_lib \<Rightarrow> 'db leveldb \<Rightarrow> flat_lib \<Rightarrow> u64 \<Rightarrow> string \<Rightarrow> bytes \<Rightarrow>
    'db asset_database \<Rightarrow> fault + http_response \<times> 'db asset_database" where
  "http_postAsset H ldb F now keyString body d =
     (let key = stringToKey keyString
      in rbind (decode_page H body) (\<lambda>decoded.
         let postedData = SizedPointer decoded;
             status = asset_valid F decoded
         in if status
            then rbind (storeAsset ldb F now key postedData d) (\<lambda>(status, d'). status_response status d')
            else status_response status d))"

definition http_getNamedAsset :: "http_lib \<Rightarrow> 'db leveldb \<Rightarrow> flat_lib \<Rightarrow> bytes \<Rightarrow> 'db asset_database \<Rightarrow>
    fault + http_response \<times> 'db asset_database" where
  "http_getNamedAsset H ldb F body d =
     (let name = to_chars body
      in rbind (findNamedAsset ldb F name d) (\<lambda>rec. send_record H rec d))"

definition http_getAssetData :: "http_lib \<Rightarrow> 'db leveldb \<Rightarrow> string \<Rightarrow> string \<Rightarrow> 'db asset_database \<Rightarrow>
    fault + http_response \<times> 'db asset_database" where
  "http_getAssetData H ldb keyString chunkString d =
     (case as_u64 H chunkString of
        None \<Rightarrow> Inr (bad_param H, d)
      | Some chunk \<Rightarrow>
          let key = stringToKey keyString
          in rbind (loadAssetDataChunk ldb key chunk d) (\<lambda>rec. send_record H rec d))"

definition http_postAssetData :: "http_lib \<Rightarrow> 'db leveldb \<Rightarrow> flat_lib \<Rightarrow> string \<Rightarrow> string \<Rightarrow> bytes \<Rightarrow>
    'db asset_database \<Rightarrow> fault + http_response \<times> 'db asset_database" where
  "http_postAssetData H ldb F keyString chunkString body d =
     (case as_u64 H chunkString of
        None \<Rightarrow> Inr (bad_param H, d)
      | Some chunk \<Rightarrow>
          let key = stringToKey keyString
          in rbind (decode_page H body) (\<lambda>decoded.
             let status = data_valid F decoded
             in if status
                then rbind (storeAssetDataChunk ldb key chunk (SizedPointer decoded) d)
                       (\<lambda>(status, d'). status_response status d')
                else status_response status d))"

definition http_getList :: "http_lib \<Rightarrow> 'db leveldb \<Rightarrow> string \<Rightarrow> 'db asset_database \<Rightarrow>
    fault + http_response \<times> 'db asset_database" where
  "http_getList H ldb keyString d =
     (let key = stringToKey keyString
      in rbind (loadList ldb key d) (\<lambda>rec. send_record H rec d))"

definition http_postList :: "http_lib \<Rightarrow> 'db leveldb \<Rightarrow> flat_lib \<Rightarrow> string \<Rightarrow> bytes \<Rightarrow>
    'db asset_database \<Rightarrow> fault + http_response \<times> 'db asset_database" where
  "http_postList H ldb F keyString body d =
     (let key = stringToKey keyString
      in rbind (decode_page H body) (\<lambda>decoded.
         let status = list_valid F decoded
         in if status
            then rbind (storeList ldb F key (SizedPointer decoded) d) (\<lambda>(status, d'). status_response status d')
            else status_response status d))"

definition http_getNamedList :: "http_lib \<Rightarrow> 'db leveldb \<Rightarrow> bytes \<Rightarrow> 'db asset_database \<Rightarrow>
    fault + http_response \<times> 'db asset_database" where
  "http_getNamedList H ldb body d =
     (let name = to_chars body
      in rbind (findNamedList ldb name d) (\<lambda>rec. send_record H rec d))"

text \<open>The pairs of a page as lines of two hexadecimal keys.\<close>

definition pair_line :: "u64 \<times> u64 \<Rightarrow> string" where
  "pair_line p = keyToString (fst p) @ '' '' @ keyToString (snd p) @ [CHR 0x0A]"

definition http_getListItems :: "http_lib \<Rightarrow> 'db leveldb \<Rightarrow> string \<Rightarrow> string \<Rightarrow> 'db asset_database \<Rightarrow>
    fault + http_response \<times> 'db asset_database" where
  "http_getListItems H ldb keyString fromString d =
     (let key = stringToKey keyString;
          token = stringToKey fromString;
          pairsSize = kPageSize div 17
      in rbind (getListNext ldb key token (pairsSize div 2) d) (\<lambda>(numPairs, pairs).
           if numPairs = 0 then respond Internal_Server_Error [] d
           else let pairList = concat (map pair_line (take numPairs pairs))
                in respond Ok (of_chars pairList) d))"

section \<open>Routes\<close>

datatype handler =
    GetAsset | PostAsset | GetNamedAsset | GetAssetData | PostAssetData
  | GetList | PostList | GetNamedList | GetListItems

definition setupRoutes :: "(http_method \<times> string \<times> handler) list" where
  "setupRoutes =
     [(Get, ''/asset/id/:key'', GetAsset), (Post, ''/asset/id/:key'', PostAsset),
      (Get, ''/asset/name'', GetNamedAsset),
      (Get, ''/asset/data/:key/:chunk'', GetAssetData), (Post, ''/asset/data/:key/:chunk'', PostAssetData),
      (Get, ''/list/id/:key'', GetList), (Post, ''/list/id/:key'', PostList),
      (Get, ''/list/name'', GetNamedList),
      (Get, ''/list/items/:key/:from'', GetListItems)]"

fun find_route :: "http_lib \<Rightarrow> http_method \<Rightarrow> string \<Rightarrow> (http_method \<times> string \<times> handler) list \<Rightarrow>
    (handler \<times> (string \<times> string) list) option" where
  "find_route H m res [] = None"
| "find_route H m res ((m', pat, h) # rs) =
     (if m = m' then
        (case router_match H pat res of
           None \<Rightarrow> find_route H m res rs
         | Some params \<Rightarrow> Some (h, params))
      else find_route H m res rs)"

definition param :: "string \<Rightarrow> (string \<times> string) list \<Rightarrow> string" where
  "param name params = (case map_of params name of None \<Rightarrow> [] | Some v \<Rightarrow> v)"

definition run_handler :: "http_lib \<Rightarrow> 'db leveldb \<Rightarrow> flat_lib \<Rightarrow> u64 \<Rightarrow> handler \<Rightarrow> (string \<times> string) list \<Rightarrow>
    bytes \<Rightarrow> 'db asset_database \<Rightarrow> fault + http_response \<times> 'db asset_database" where
  "run_handler H ldb F now h params body d =
     (case h of
        GetAsset \<Rightarrow> http_getAsset H ldb F (param '':key'' params) d
      | PostAsset \<Rightarrow> http_postAsset H ldb F now (param '':key'' params) body d
      | GetNamedAsset \<Rightarrow> http_getNamedAsset H ldb F body d
      | GetAssetData \<Rightarrow> http_getAssetData H ldb (param '':key'' params) (param '':chunk'' params) d
      | PostAssetData \<Rightarrow> http_postAssetData H ldb F (param '':key'' params) (param '':chunk'' params) body d
      | GetList \<Rightarrow> http_getList H ldb (param '':key'' params) d
      | PostList \<Rightarrow> http_postList H ldb F (param '':key'' params) body d
      | GetNamedList \<Rightarrow> http_getNamedList H ldb body d
      | GetListItems \<Rightarrow> http_getListItems H ldb (param '':key'' params) (param '':from'' params) d)"

definition serve :: "http_lib \<Rightarrow> 'db leveldb \<Rightarrow> flat_lib \<Rightarrow> u64 \<Rightarrow> http_request \<Rightarrow> 'db asset_database \<Rightarrow>
    fault + http_response \<times> 'db asset_database" where
  "serve H ldb F now req d =
     (case find_route H (req_method req) (req_resource req) setupRoutes of
        None \<Rightarrow> Inr (no_route H, d)
      | Some (h, params) \<Rightarrow> run_handler H ldb F now h params (req_body req) d)"

section \<open>The life of the server\<close>

text \<open>
  The object around the handlers: its router, which collects the routes, and the server, which
  is created when serving starts. The TCP port is 16 bits wide. Whether a port can be bound is
  a parameter; the library throws when it cannot. What the library does with a route that is
  registered twice is not modelled.
\<close>

record http_server =
  srv_port :: "16 word"
  srv_threads :: int
  srv_maxRequestSize :: nat
  srv_handler :: "(http_method \<times> string \<times> handler) list option"
  srv_serving :: bool

record 'db http_endpoint =
  he_listenPort :: int
  he_numThreads :: int
  he_assetDatabase :: "'db asset_database"
  m_server :: "http_server option"
  m_router :: "(http_method \<times> string \<times> handler) list"

definition new_HttpEndpoint :: "int \<Rightarrow> int \<Rightarrow> 'db asset_database \<Rightarrow> 'db http_endpoint" where
  "new_HttpEndpoint listenPort numThreads assetDatabase =
     \<lparr>he_listenPort = listenPort, he_numThreads = numThreads, he_assetDatabase = assetDatabase,
      m_server = None, m_router = []\<rparr>"

definition endpoint_setupRoutes :: "'db http_endpoint \<Rightarrow> 'db http_endpoint" where
  "endpoint_setupRoutes e =
     e\<lparr>m_server := Some \<lparr>srv_port = of_int (he_listenPort e), srv_threads = he_numThreads e,
                         srv_maxRequestSize = 2 * kPageSize, srv_handler = None, srv_serving = False\<rparr>,
       m_router := m_router e @ setupRoutes\<rparr>"

definition handler_serve :: "(16 word \<Rightarrow> bool) \<Rightarrow> 'db http_endpoint \<Rightarrow> fault + 'db http_endpoint" where
  "handler_serve binds e =
     (case m_server e of
        None \<Rightarrow> Inl NullDeref
      | Some srv \<Rightarrow>
          let srv = srv\<lparr>srv_handler := Some (m_router e)\<rparr>
          in if \<not> binds (srv_port srv) then Inl SocketError
             else Inr (e\<lparr>m_server := Some (srv\<lparr>srv_serving := True\<rparr>)\<rparr>))"

definition startServerThread :: "(16 word \<Rightarrow> bool) \<Rightarrow> 'db http_endpoint \<Rightarrow> fault + 'db http_endpoint" where
  "startServerThread binds e = handler_serve binds (endpoint_setupRoutes e)"

text \<open>\<open>startServer\<close> serves on the calling thread: the state is the one while it does.\<close>

definition startServer :: "(16 word \<Rightarrow> bool) \<Rightarrow> 'db http_endpoint \<Rightarrow> fault + 'db http_endpoint" where
  "startServer binds e = handler_serve binds (endpoint_setupRoutes e)"

definition endpoint_shutdown :: "'db http_endpoint \<Rightarrow> fault + 'db http_endpoint" where
  "endpoint_shutdown e =
     (case m_server e of
        None \<Rightarrow> Inl NullDeref
      | Some srv \<Rightarrow> Inr (e\<lparr>m_server := Some (srv\<lparr>srv_serving := False\<rparr>)\<rparr>))"

text \<open>A server that started has the nine routes, and shutting it down does not fault.\<close>

lemma started_server:
  assumes "startServerThread binds (new_HttpEndpoint port n d) = Inr e"
  shows "\<exists>srv. m_server e = Some srv \<and> srv_handler srv = Some setupRoutes \<and> srv_serving srv"
    and "\<exists>e'. endpoint_shutdown e = Inr e' \<and> he_assetDatabase e' = d"
  using assms
  by (auto simp: startServerThread_def handler_serve_def endpoint_setupRoutes_def new_HttpEndpoint_def
      endpoint_shutdown_def Let_def split: if_splits)

end
