(* ===== verification/Server_Network.thy ===== *)
theory Server_Network
  imports CacheManager HttpEndpoint Library_Instances
begin

text \<open>
  The client, the server and the database together: the network of this theory hands a
  client's request to \<open>serve\<close>, so that uploads and downloads can be followed end to end.
\<close>

section \<open>Routing\<close>

lemma pattern_segments:
  "segments ''/asset/id/:key'' = [''asset'', ''id'', '':key'']"
  "segments ''/asset/name'' = [''asset'', ''name'']"
  "segments ''/asset/data/:key/:chunk'' = [''asset'', ''data'', '':key'', '':chunk'']"
  "segments ''/list/id/:key'' = [''list'', ''id'', '':key'']"
  "segments ''/list/name'' = [''list'', ''name'']"
  "segments ''/list/items/:key/:from'' = [''list'', ''items'', '':key'', '':from'']"
  by (simp_all add: segments_def)

lemma resource_segments:
  "segments (''/asset/id/'' @ keyToString k) = [''asset'', ''id'', keyToString k]"
  "segments (''/asset/data/'' @ keyToString k @ ''/'' @ show_dec n) = [''asset'', ''data'', keyToString k, show_dec n]"
  "segments (''/list/id/'' @ keyToString k) = [''list'', ''id'', keyToString k]"
  "segments (''/list/items/'' @ keyToString k @ ''/'' @ keyToString t) = [''list'', ''items'', keyToString k, keyToString t]"
proof -
  have s: "segments (''/asset/id'') = [''asset'', ''id'']" "segments (''/asset/data'') = [''asset'', ''data'']"
    "segments (''/list/id'') = [''list'', ''id'']" "segments (''/list/items'') = [''list'', ''items'']"
    by (simp_all add: segments_def)
  show "segments (''/asset/id/'' @ keyToString k) = [''asset'', ''id'', keyToString k]"
    "segments (''/list/id/'' @ keyToString k) = [''list'', ''id'', keyToString k]"
    using s segments_append [of "''/asset/id''" "keyToString k"] segments_append [of "''/list/id''" "keyToString k"]
    by simp_all
  show "segments (''/asset/data/'' @ keyToString k @ ''/'' @ show_dec n) = [''asset'', ''data'', keyToString k, show_dec n]"
    using s segments_append [of "''/asset/data''" "keyToString k @ ''/'' @ show_dec n"]
      segments_append [of "keyToString k" "show_dec n"] by simp
  show "segments (''/list/items/'' @ keyToString k @ ''/'' @ keyToString t) = [''list'', ''items'', keyToString k, keyToString t]"
    using s segments_append [of "''/list/items''" "keyToString k @ ''/'' @ keyToString t"]
      segments_append [of "keyToString k" "keyToString t"] by simp
qed

lemma key_not_pattern: "keyToString k \<noteq> c # s" if "\<not> is_hex c"
  using keyToString_is_hex [of c k] that by auto

lemmas route_simps = setupRoutes_def pattern_segments resource_segments serve_def run_handler_def param_def

lemma serve_routes:
  assumes "http_ok H"
  shows "serve H ldb F now \<lparr>req_method = Get, req_resource = ''/asset/id/'' @ keyToString k, req_body = b\<rparr> d =
      http_getAsset H ldb F (keyToString k) d"
    "serve H ldb F now \<lparr>req_method = Post, req_resource = ''/asset/id/'' @ keyToString k, req_body = b\<rparr> d =
      http_postAsset H ldb F now (keyToString k) b d"
    "serve H ldb F now \<lparr>req_method = Get, req_resource = ''/asset/name'', req_body = b\<rparr> d =
      http_getNamedAsset H ldb F b d"
    "serve H ldb F now \<lparr>req_method = Get,
        req_resource = ''/asset/data/'' @ keyToString k @ ''/'' @ show_dec n, req_body = b\<rparr> d =
      http_getAssetData H ldb (keyToString k) (show_dec n) d"
    "serve H ldb F now \<lparr>req_method = Post,
        req_resource = ''/asset/data/'' @ keyToString k @ ''/'' @ show_dec n, req_body = b\<rparr> d =
      http_postAssetData H ldb F (keyToString k) (show_dec n) b d"
    "serve H ldb F now \<lparr>req_method = Get, req_resource = ''/list/id/'' @ keyToString k, req_body = b\<rparr> d =
      http_getList H ldb (keyToString k) d"
    "serve H ldb F now \<lparr>req_method = Post, req_resource = ''/list/id/'' @ keyToString k, req_body = b\<rparr> d =
      http_postList H ldb F (keyToString k) b d"
    "serve H ldb F now \<lparr>req_method = Get, req_resource = ''/list/name'', req_body = b\<rparr> d =
      http_getNamedList H ldb b d"
    "serve H ldb F now \<lparr>req_method = Get,
        req_resource = ''/list/items/'' @ keyToString k @ ''/'' @ keyToString t, req_body = b\<rparr> d =
      http_getListItems H ldb (keyToString k) (keyToString t) d"
  using assms by (simp_all add: http_ok_def route_simps del: append.simps)

section \<open>The network\<close>

text \<open>
  The server reached through the address the client was built with: the rest of the URL is
  the resource. A fault of the server breaks the connection, so there is no response.
\<close>

definition server_net :: "http_lib \<Rightarrow> 'db leveldb \<Rightarrow> flat_lib \<Rightarrow> u64 \<Rightarrow> string \<Rightarrow> 'db asset_database network" where
  "server_net H ldb F now addr req d =
     (if take (length addr) (req_resource req) = addr then
        (case serve H ldb F now (req\<lparr>req_resource := drop (length addr) (req_resource req)\<rparr>) d of
           Inl e \<Rightarrow> (None, d)
         | Inr (r, d') \<Rightarrow> (Some r, d'))
      else (None, d))"

lemma http_send_server:
  "http_send (server_net H ldb F now addr) m (addr @ res) body d =
     (case serve H ldb F now \<lparr>req_method = m, req_resource = res, req_body = body\<rparr> d of
        Inl e \<Rightarrow> Inl Terminated
      | Inr rd \<Rightarrow> Inr rd)"
  by (auto simp: http_send_def server_net_def split: sum.splits)

section \<open>Pages\<close>

lemma encoded_length: "http_ok H \<Longrightarrow> length (b64_encode H bs) = 4 * ((length bs + 2) div 3)"
  by (simp add: http_ok_def)

lemma decode_encoded: "http_ok H \<Longrightarrow> b64_decode H (b64_encode H bs) = bs"
  by (simp add: http_ok_def)

lemma page_roundtrip:
  assumes "http_ok H" "length bs \<le> 3069"
  shows "encode_page H bs = Inr (b64_encode H bs)" "encode_checked H bs = Inr (b64_encode H bs)"
    "decode_page H (b64_encode H bs) = Inr bs"
  using assms
  by (auto simp: encode_page_def encode_checked_def decode_page_def encoded_length decode_encoded kPageSize_def)

text \<open>A data table of one chunk of a file fits a page.\<close>

lemma chunk_table_fits:
  assumes "flat_ok F" "length c \<le> kDataChunkSize"
  shows "length (data_bytes F \<lparr>fd_data = Some c, fd_hash = h\<rparr>) \<le> 3069"
    "data_valid F (data_bytes F \<lparr>fd_data = Some c, fd_hash = h\<rparr>)"
    "data_root F (data_bytes F \<lparr>fd_data = Some c, fd_hash = h\<rparr>) = \<lparr>fd_data = Some c, fd_hash = h\<rparr>"
proof -
  let ?t = "\<lparr>fd_data = Some c, fd_hash = h\<rparr>"
  have "opt_length (fd_data ?t) < 2 ^ 30" "opt_length (fd_data ?t) \<le> 2877"
    using assms(2) by (simp_all add: opt_length_def kDataChunkSize_val)
  with assms(1) have "data_valid F (data_bytes F ?t)" "data_root F (data_bytes F ?t) = ?t"
    "length (data_bytes F ?t) \<le> opt_length (fd_data ?t) + 64"
    unfolding flat_ok_def by blast+
  with \<open>opt_length (fd_data ?t) \<le> 2877\<close>
  show "length (data_bytes F ?t) \<le> 3069" "data_valid F (data_bytes F ?t)" "data_root F (data_bytes F ?t) = ?t"
    by simp_all
qed

lemma snprintf_u64: "snprintf 32 (show_dec (unat (n :: u64))) = show_dec (unat n)"
proof -
  have "unat n < 2 ^ 64" using unsigned_less [of n] by simp
  also have "(2 :: nat) ^ 64 < 10 ^ 20" by simp
  finally have "length (show_dec (unat n)) \<le> 20" by (rule show_dec_length) simp
  then show ?thesis by (simp add: snprintf_def)
qed

section \<open>Chunks through the network\<close>

text \<open>Posting a page whose bytes verify, and fetching it back.\<close>

lemma post_chunk:
  assumes "http_ok H" "length bs \<le> 3069" "data_valid F bs" "opened ldb d"
  shows "\<exists>ok d'. client_post H (server_net H ldb F now addr)
           (addr @ ''/asset/data/'' @ keyToString key @ ''/'' @ snprintf 32 (show_dec (unat chunk))) bs d =
         Inr (ok, d') \<and> opened ldb d' \<and>
         storeAssetDataChunk ldb key chunk (SizedPointer bs) d = Inr (ok, d')"
proof -
  obtain ok d' where st: "storeAssetDataChunk ldb key chunk (SizedPointer bs) d = Inr (ok, d')" "opened ldb d'"
    using storeAssetDataChunk_refines [OF assms(4)] by blast
  have "as_u64 H (show_dec (unat chunk)) = Some chunk" using assms(1) by (simp add: http_ok_def)
  with st show ?thesis
    using page_roundtrip [OF assms(1,2)] assms(3)
    by (simp add: client_post_def http_send_server snprintf_u64 serve_routes [OF assms(1), simplified] http_postAssetData_def
        key_text.dec_enc status_response_def respond_def Let_def)
qed

lemma load_chunk:
  assumes "opened ldb d" "view ldb d (DataKey key chunk) = Some bs"
  shows "\<exists>it. loadAssetDataChunk ldb key chunk d = Inr (DatabaseRecord it) \<and> it_value it = Inr bs"
  using seek_value(1) [of ldb "the (m_database d)" "makeAssetDataKey key chunk" bs] assms
  by (simp add: loadAssetDataChunk_def opened_ptr Let_def) (simp add: opened_def view_def db_view_simps)

lemma get_chunk:
  assumes "http_ok H" "length bs \<le> 3069" "data_valid F bs" "opened ldb d"
    and "view ldb d (DataKey key chunk) = Some bs"
  shows "client_getAssetData H F (server_net H ldb F now addr) \<lparr>m_serverAddress = addr\<rparr> key chunk d =
    Inr ((key, chunk, ClientRecord (SizedPointer bs)), d)"
proof -
  obtain it where it: "loadAssetDataChunk ldb key chunk d = Inr (DatabaseRecord it)" "it_value it = Inr bs"
    using load_chunk [OF assms(4,5)] by blast
  have "as_u64 H (show_dec (unat chunk)) = Some chunk" using assms(1) by (simp add: http_ok_def)
  with it show ?thesis
    using page_roundtrip [OF assms(1,2)] assms(3)
    by (simp add: client_getAssetData_def http_send_server snprintf_u64 serve_routes [OF assms(1), simplified] http_getAssetData_def
        key_text.dec_enc send_record_def respond_def received_def Let_def)
qed

end
