(* ===== verification/File_Transfer.thy ===== *)
theory File_Transfer
  imports Server_Network
begin

text \<open>
  Files end to end: how a file is cut into chunks, hashed and uploaded, and how the cache
  manager puts it together again.
\<close>

section \<open>A file in chunks\<close>

function chunks_of :: "bytes \<Rightarrow> bytes list" where
  "chunks_of xs = (if xs = [] then [] else take kDataChunkSize xs # chunks_of (drop kDataChunkSize xs))"
  by auto

termination
  by (relation "measure length") (auto simp: kDataChunkSize_val)

declare chunks_of.simps [simp del]

lemma chunks_of_Nil [simp]: "chunks_of [] = []"
  by (simp add: chunks_of.simps)

lemma chunks_of_ne: "xs \<noteq> [] \<Longrightarrow> chunks_of xs = take kDataChunkSize xs # chunks_of (drop kDataChunkSize xs)"
  by (simp add: chunks_of.simps [of xs])

lemma concat_chunks_of [simp]: "concat (chunks_of xs) = xs"
proof (induction xs rule: chunks_of.induct)
  case (1 xs)
  then show ?case by (cases "xs = []") (simp_all add: chunks_of_ne)
qed

lemma chunks_of_bounds: "c \<in> set (chunks_of xs) \<Longrightarrow> c \<noteq> [] \<and> length c \<le> kDataChunkSize"
proof (induction xs rule: chunks_of.induct)
  case (1 xs)
  then show ?case by (cases "xs = []") (auto simp: chunks_of_ne kDataChunkSize_val)
qed

lemma length_chunks_of: "length (chunks_of xs) = (length xs + kDataChunkSize - 1) div kDataChunkSize"
proof (induction xs rule: chunks_of.induct)
  case (1 xs)
  show ?case
  proof (cases "xs = []")
    case False
    then have "length xs > 0" by simp
    with 1 False show ?thesis
      by (cases "length xs \<le> kDataChunkSize")
        (simp_all add: chunks_of_ne kDataChunkSize_val div_if)
  qed (simp add: kDataChunkSize_val)
qed

text \<open>The number of chunks recorded with a file is one too many for a whole number of chunks.\<close>

lemma recorded_chunks:
  "length xs div kDataChunkSize + 1 =
    length (chunks_of xs) + (if kDataChunkSize dvd length xs then 1 else 0)"
proof -
  have ceil: "(n + K - 1) div K = n div K + (if K dvd n then 0 else 1)" if "0 < K" for n K :: nat
  proof -
    define q r where "q = n div K" and "r = n mod K"
    have n: "n = r + K * q" and r: "r < K" using that by (simp_all add: q_def r_def)
    have "n + K - 1 = (r + K - 1) + K * q" using n that by simp
    then have "(n + K - 1) div K = (r + K - 1) div K + q"
      using div_mult_self2 [of K "r + K - 1" q] that by (simp only: mult.commute [of q])
    moreover have "(r + K - 1) div K = (if r = 0 then 0 else 1)"
      using r that by (auto simp: div_eq_dividend_iff le_div_geq)
    ultimately show ?thesis by (simp add: q_def r_def dvd_eq_mod_eq_0)
  qed
  from ceil [of kDataChunkSize "length xs"] show ?thesis
    by (simp add: length_chunks_of kDataChunkSize_val)
qed

lemma length_chunks_le: "length (chunks_of xs) \<le> length xs"
proof (induction xs rule: chunks_of.induct)
  case (1 xs)
  show ?case
  proof (cases "xs = []")
    case False
    with 1 have "length (chunks_of (drop kDataChunkSize xs)) \<le> length xs - kDataChunkSize" by simp
    moreover have "length xs - kDataChunkSize < length xs" using False by (simp add: kDataChunkSize_val)
    moreover have "length (chunks_of xs) = Suc (length (chunks_of (drop kDataChunkSize xs)))"
      using False by (simp add: chunks_of_ne)
    ultimately show ?thesis by linarith
  qed simp
qed

section \<open>Hashing and uploading\<close>

lemma unat_of_nat64: "n < 2 ^ 64 \<Longrightarrow> unat (of_nat n :: u64) = n"
  by (simp add: unat_of_nat)

lemma of_nat_less_0: "length xs < 2 ^ 64 \<Longrightarrow> (0 :: u64) < of_nat (length xs) \<longleftrightarrow> xs \<noteq> []"
  by (simp add: word_less_nat_alt unat_of_nat64)

lemma of_nat_drop: "n \<le> length xs \<Longrightarrow> (of_nat (length xs) - of_nat n :: u64) = of_nat (length xs - n)"
  by simp

lemma of_nat_rest: "(of_nat (length xs) - of_nat (length (take n xs)) :: u64) = of_nat (length (drop n xs))"
proof -
  have "length xs = length (take n xs) + length (drop n xs)" by simp
  then show ?thesis by (metis add_diff_cancel_left' of_nat_add)
qed

lemma hash_loop_chunks:
  assumes "st_good s \<or> st_rest s = []" "length (st_rest s) < 2 ^ 64" "fc \<noteq> []"
  shows "\<exists>fc' h'. hash_loop X s (of_nat (length (st_rest s))) fc h = (0, fc', h') \<and> fc' \<noteq> [] \<and>
    xx_update X h' fc' = foldl (xx_update X) h (fc # chunks_of (st_rest s))"
  using assms
proof (induction "st_rest s" arbitrary: s fc h rule: chunks_of.induct)
  case 1
  show ?case
  proof (cases "st_rest s = []")
    case True
    then show ?thesis using "1.prems" by (simp add: hash_loop.simps)
  next
    case False
    let ?r = "st_rest s"
    let ?s' = "\<lparr>st_rest = drop kDataChunkSize ?r, st_good = (kDataChunkSize \<le> length ?r)\<rparr>"
    have good: "st_good s" using False "1.prems" by simp
    have "\<exists>fc' h'. hash_loop X ?s' (of_nat (length (st_rest ?s'))) (take kDataChunkSize ?r) (xx_update X h fc) =
        (0, fc', h') \<and> fc' \<noteq> [] \<and>
        xx_update X h' fc' = foldl (xx_update X) (xx_update X h fc) (take kDataChunkSize ?r # chunks_of (st_rest ?s'))"
      using False "1.prems" by (intro "1.hyps") (auto simp: kDataChunkSize_val)
    then show ?thesis
      using good False "1.prems"(2)
      by (subst hash_loop.simps)
        (simp add: stream_read_def of_nat_less_0 of_nat_rest [of ?r, simplified] chunks_of_ne [of ?r] Let_def)
  qed
qed

lemma hash_file_eq:
  assumes "hash_ok X" "content \<noteq> []" "length content < 2 ^ 64"
  shows "hash_file X (of_nat (length content)) content = Some (xx_hash X content 0)"
proof -
  let ?s = "\<lparr>st_rest = drop kDataChunkSize content, st_good = (kDataChunkSize \<le> length content)\<rparr>"
  have pre: "st_good ?s \<or> st_rest ?s = []" "length (st_rest ?s) < 2 ^ 64" "take kDataChunkSize content \<noteq> []"
    using assms(2,3) by (auto simp: kDataChunkSize_val)
  obtain fc' h' where "hash_loop X ?s (of_nat (length (st_rest ?s))) (take kDataChunkSize content) (xx_reset X 0) = (0, fc', h')"
    "fc' \<noteq> []" "xx_update X h' fc' = foldl (xx_update X) (xx_reset X 0) (take kDataChunkSize content # chunks_of (st_rest ?s))"
    using hash_loop_chunks [OF pre, of X "xx_reset X 0"] by blast
  then show ?thesis
    using assms(1) of_nat_rest [of content kDataChunkSize]
    by (simp add: hash_file_def stream_read_def hash_ok_def chunks_of_ne [OF assms(2), symmetric] Let_def)
qed

text \<open>The data tables of a file: each chunk with the hash of everything up to its end.\<close>

fun tables_of :: "'h hash_lib \<Rightarrow> 'h \<Rightarrow> bytes list \<Rightarrow> flat_asset_data list" where
  "tables_of X h [] = []"
| "tables_of X h (c # cs) =
     \<lparr>fd_data = Some c, fd_hash = xx_digest X (xx_update X h c)\<rparr> # tables_of X (xx_update X h c) cs"

lemma length_tables_of [simp]: "length (tables_of X h cs) = length cs"
  by (induction cs arbitrary: h) auto

text \<open>A store whose writes never fail.\<close>

definition writes_succeed :: "'db leveldb \<Rightarrow> bool" where
  "writes_succeed ldb \<longleftrightarrow> (\<forall>batch db. fst (ldb_write ldb batch db))"

lemma put_batch_succeeds:
  "writes_succeed ldb \<Longrightarrow> db_put_batch ldb batch d = Inr (ok, d') \<Longrightarrow> ok"
  by (auto simp: writes_succeed_def db_put_batch_def fault_simps split_beta)

end
