(* ===== verification/File_Service.thy ===== *)
theory File_Service
  imports File_Transfer
begin

text \<open>
  The interface between the transfer of a file and the service it goes through. The locale
  \<open>file_service\<close> states what the transfer relies on: a posted table or chunk can be fetched, and
  stays while others use the service. Upload and download are followed once, from these laws;
  the interpretation shows that the asset server keeps them. A server shared with other clients
  keeps them too (\<open>Shared_Server\<close>).
\<close>

section \<open>The table of a file\<close>

lemma parseListIds_ids:
  "0 \<notin> set ids \<Longrightarrow> parseListIds (join_ids ids) a = (a\<lparr>m_lists := m_lists a @ ids\<rparr>, length ids)"
proof -
  assume "0 \<notin> set ids"
  then have "takeWhile (\<lambda>k. k \<noteq> 0) ids = ids" by (auto simp: takeWhile_eq_all_conv)
  then show ?thesis using parse_loop_join [of "[]" ids a 0] by (simp only: parseListIds_def append_Nil list.size add_0)
qed

text \<open>The table of an uploaded file, and a file that can be read twice with the same bytes.\<close>

definition file_table :: "asset_type \<Rightarrow> string \<Rightarrow> u64 \<Rightarrow> u64 \<Rightarrow> u64 list \<Rightarrow> string \<Rightarrow> u64 \<Rightarrow> nat \<Rightarrow> flat_asset" where
  "file_table t name author deprecates ids ext key n =
     \<lparr>fa_type = t, fa_key = key, fa_name = (if name = [] then None else Some name),
      fa_fileExtension = (if ext = [] then None else Some ext), fa_author = author, fa_deprecatedBy = 0,
      fa_deprecates = deprecates, fa_size = of_nat n, fa_chunks = of_nat (n div kDataChunkSize + 1),
      fa_lists = Some ids, fa_salt = 0, fa_inlineData = None\<rparr>"

definition steady_file :: "string \<Rightarrow> bytes \<Rightarrow> file_view" where
  "steady_file ext content =
     \<lparr>fv_size = of_nat (length content), fv_opens = True, fv_extension = ext, fv_first = content, fv_second = content\<rparr>"

lemma of_nat_div_64: "n < 2 ^ 64 \<Longrightarrow> 0 < k \<Longrightarrow> k < 2 ^ 64 \<Longrightarrow> (of_nat n div of_nat k :: u64) = of_nat (n div k)"
  by (rule word_unat_eq_iff [THEN iffD2]) (simp add: unat_div unat_of_nat64 order_le_less_trans [OF div_le_dividend])

lemma file_asset_flat:
  assumes "length content < 2 ^ 64" "ids \<noteq> []" "0 \<notin> set ids"
  shows "flatten (fst (parseListIds (join_ids ids) (setChunks (of_nat (length content) div of_nat kDataChunkSize + 1)
      (setSize (of_nat (length content)) (setDeprecates deprecates (setAuthor author (setFileExtension ext
        (setName name (setKey key (new_Asset t)))))))))) None =
    Inr (file_table t name author deprecates ids ext key (length content))"
proof -
  have "(of_nat (length content) div of_nat kDataChunkSize + 1 :: u64) = of_nat (length content div kDataChunkSize + 1)"
    using of_nat_div_64 [OF assms(1), of kDataChunkSize] by (simp add: kDataChunkSize_val)
  with assms(2,3) show ?thesis
    by (simp add: parseListIds_ids flatten_eq file_table_def setter_defs new_Asset_def)
qed

section \<open>What the transfer relies on\<close>

text \<open>
  \<open>w\<close> is the state of the service, \<open>later\<close> how others may change it while the client waits.
  \<open>table_at\<close> and \<open>chunk_at\<close> are what the service holds for the file's key, \<open>reliable\<close> says that
  its writes never fail.
\<close>

locale file_service =
  fixes H :: http_lib and F :: flat_lib and net :: "'w network" and hc :: http_client and key :: u64
    and ok :: "'w \<Rightarrow> bool" and later :: "'w \<Rightarrow> 'w \<Rightarrow> bool"
    and chunk_at :: "'w \<Rightarrow> u64 \<Rightarrow> bytes option" and table_at :: "'w \<Rightarrow> bytes option" and reliable :: bool
  assumes ok_flat: "ok w \<Longrightarrow> flat_ok F"
    and later_refl: "later w w"
    and later_trans: "later w w' \<Longrightarrow> later w' w'' \<Longrightarrow> later w w''"
    and later_ok: "later w w' \<Longrightarrow> ok w \<Longrightarrow> ok w'"
    and later_chunk: "later w w' \<Longrightarrow> ok w \<Longrightarrow> chunk_at w n = Some bs \<Longrightarrow> chunk_at w' n = Some bs"
    and later_table: "later w w' \<Longrightarrow> ok w \<Longrightarrow> table_at w = Some bs \<Longrightarrow> table_at w' = Some bs"
    and put_table: "ok w \<Longrightarrow> length bs \<le> 3069 \<Longrightarrow> asset_valid F bs \<Longrightarrow> fa_lists (asset_root F bs) = Some ids \<Longrightarrow>
      length ids \<le> kAssetMaxListEntries \<Longrightarrow>
      \<exists>good w'. client_post H net (m_serverAddress hc @ ''/asset/id/'' @ keyToString key) bs w = Inr (good, w') \<and> ok w' \<and>
        (reliable \<longrightarrow> good) \<and> (good \<longrightarrow> table_at w' = Some bs)"
    and put_chunk: "ok w \<Longrightarrow> length bs \<le> 3069 \<Longrightarrow> data_valid F bs \<Longrightarrow>
      \<exists>good w'. client_post H net (m_serverAddress hc @ ''/asset/data/'' @ keyToString key @ ''/'' @
          snprintf 32 (show_dec (unat n))) bs w = Inr (good, w') \<and> ok w' \<and>
        (reliable \<longrightarrow> good) \<and> (good \<longrightarrow> chunk_at w' n = Some bs) \<and>
        (\<forall>m b. m \<noteq> n \<longrightarrow> chunk_at w m = Some b \<longrightarrow> chunk_at w' m = Some b) \<and>
        (\<forall>b. table_at w = Some b \<longrightarrow> table_at w' = Some b)"
    and fetch_chunk: "ok w \<Longrightarrow> length bs \<le> 3069 \<Longrightarrow> data_valid F bs \<Longrightarrow> chunk_at w n = Some bs \<Longrightarrow>
      \<exists>w'. client_getAssetData H F net hc key n w = Inr ((key, n, ClientRecord (SizedPointer bs)), w') \<and> later w w'"

text \<open>Chunk \<open>first + j\<close> of a file is table \<open>j\<close>.\<close>

definition chunks_stored :: "flat_lib \<Rightarrow> (u64 \<Rightarrow> bytes option) \<Rightarrow> nat \<Rightarrow> flat_asset_data list \<Rightarrow> bool" where
  "chunks_stored F chunk first ts \<longleftrightarrow>
     (\<forall>j < length ts. chunk (of_nat (first + j)) = Some (data_bytes F (ts ! j)))"

lemma chunks_stored_Cons:
  "chunks_stored F chunk first (t # ts) \<longleftrightarrow>
     chunk (of_nat first) = Some (data_bytes F t) \<and> chunks_stored F chunk (Suc first) ts"
  by (simp add: chunks_stored_def All_less_Suc2 del: of_nat_add of_nat_Suc)

lemma chunks_stored_Nil [simp]: "chunks_stored F chunk first []"
  by (simp add: chunks_stored_def)

lemma chunks_stored_kept:
  "chunks_stored F chunk first ts \<Longrightarrow> (\<And>n b. chunk n = Some b \<Longrightarrow> chunk' n = Some b) \<Longrightarrow> chunks_stored F chunk' first ts"
  by (simp add: chunks_stored_def)

section \<open>Uploading\<close>

text \<open>
  The chunks and the table an upload from chunk \<open>first\<close> on keeps: the table, and the chunks
  before \<open>first\<close>.
\<close>

definition upload_keeps :: "('w \<Rightarrow> u64 \<Rightarrow> bytes option) \<Rightarrow> ('w \<Rightarrow> bytes option) \<Rightarrow> nat \<Rightarrow> 'w \<Rightarrow> 'w \<Rightarrow> bool" where
  "upload_keeps chunk_at table_at first w w' \<longleftrightarrow>
     (\<forall>j b. j < first \<longrightarrow> chunk_at w (of_nat j) = Some b \<longrightarrow> chunk_at w' (of_nat j) = Some b) \<and>
     (\<forall>b. table_at w = Some b \<longrightarrow> table_at w' = Some b)"

lemma upload_keeps_refl: "upload_keeps chunk_at table_at first w w"
  by (simp add: upload_keeps_def)

lemma upload_keeps_trans:
  "upload_keeps chunk_at table_at first w w' \<Longrightarrow> upload_keeps chunk_at table_at (Suc first) w' w'' \<Longrightarrow>
   upload_keeps chunk_at table_at first w w''"
  by (auto simp: upload_keeps_def)

context file_service
begin

text \<open>One round of the upload: a chunk is stored, or the loop is told to end.\<close>

lemma upload_chunk:
  assumes "ok w" "r \<noteq> []" "length r < 2 ^ 64" "first < 2 ^ 64"
    and "c = take kDataChunkSize r" "r' = drop kDataChunkSize r" "h' = xx_update X h c"
    and "bs = data_bytes F \<lparr>fd_data = Some c, fd_hash = xx_digest X h'\<rparr>"
  shows "\<exists>good w1. ok w1 \<and> (reliable \<longrightarrow> good) \<and> (good \<longrightarrow> chunk_at w1 (of_nat first) = Some bs) \<and>
    upload_keeps chunk_at table_at first w w1 \<and>
    upload_loop H F X net hc key True \<lparr>st_rest = r, st_good = True\<rparr> (of_nat (length r)) (of_nat first) h hash w =
      upload_loop H F X net hc key good \<lparr>st_rest = r', st_good = True\<rparr> (of_nat (length r')) (of_nat (Suc first)) h'
        (xx_digest X h') w1"
proof -
  have size: "unat (min (of_nat kDataChunkSize) (of_nat (length r) :: u64)) = min kDataChunkSize (length r)"
    using assms(3) by (simp add: min_def word_le_nat_alt unat_of_nat64 kDataChunkSize_val)
  have read: "stream_read (min kDataChunkSize (length r)) \<lparr>st_rest = r, st_good = True\<rparr> = (c, \<lparr>st_rest = r', st_good = True\<rparr>)"
    by (cases "kDataChunkSize \<le> length r") (simp_all add: stream_read_def assms(5,6))
  have left: "(of_nat (length r) - of_nat (min kDataChunkSize (length r)) :: u64) = of_nat (length r')"
    by (cases "kDataChunkSize \<le> length r") (simp_all add: assms(6))
  have pos: "(0 :: u64) < of_nat (length r)"
    using assms(2,3) by (simp add: of_nat_less_0)
  have fits: "length bs \<le> 3069" "data_valid F bs"
    using chunk_table_fits [OF ok_flat [OF assms(1)], of c] by (simp_all add: assms(5,8))
  obtain good w1 where post: "client_post H net (m_serverAddress hc @ ''/asset/data/'' @ keyToString key @ ''/'' @
        snprintf 32 (show_dec (unat (of_nat first :: u64)))) bs w = Inr (good, w1)" "ok w1" "reliable \<longrightarrow> good"
    "good \<longrightarrow> chunk_at w1 (of_nat first) = Some bs"
    "\<forall>m b. m \<noteq> of_nat first \<longrightarrow> chunk_at w m = Some b \<longrightarrow> chunk_at w1 m = Some b"
    "\<forall>b. table_at w = Some b \<longrightarrow> table_at w1 = Some b"
    using put_chunk [OF assms(1) fits] by blast
  have "(of_nat j :: u64) \<noteq> of_nat first" if "j < first" for j
    using that assms(4) by (metis nat_neq_iff order_less_trans unat_of_nat64)
  with post(5,6) have "upload_keeps chunk_at table_at first w w1" by (simp add: upload_keeps_def)
  moreover have "length c = min kDataChunkSize (length r)" by (simp add: assms(5))
  ultimately show ?thesis
    using pos post(1-4)
    by (intro exI [of _ good] exI [of _ w1], subst upload_loop.simps)
      (simp add: read size left add.commute Let_def flip: assms(7) assms(8))
qed

lemma upload_all:
  "ok w \<Longrightarrow> length r < 2 ^ 64 \<Longrightarrow> first + length (chunks_of r) < 2 ^ 64 \<Longrightarrow>
    \<exists>good rem hash' w'.
      upload_loop H F X net hc key True \<lparr>st_rest = r, st_good = True\<rparr> (of_nat (length r)) (of_nat first) h hash w =
        Inr ((good, rem, hash'), w') \<and>
      ok w' \<and> upload_keeps chunk_at table_at first w w' \<and> (reliable \<longrightarrow> good) \<and>
      (good \<longrightarrow> rem = 0 \<and>
        hash' = (if r = [] then hash else xx_digest X (foldl (xx_update X) h (chunks_of r))) \<and>
        chunks_stored F (chunk_at w') first (tables_of X h (chunks_of r)))"
proof (induction r arbitrary: w first h hash rule: chunks_of.induct)
  case (1 r)
  show ?case
  proof (cases "r = []")
    case True
    with "1.prems" show ?thesis
      by (subst upload_loop.simps) (auto intro: exI [of _ True] upload_keeps_refl)
  next
    case False
    let ?c = "take kDataChunkSize r" and ?r' = "drop kDataChunkSize r"
    let ?h = "xx_update X h ?c"
    let ?bs = "data_bytes F \<lparr>fd_data = Some ?c, fd_hash = xx_digest X ?h\<rparr>"
    have len: "length (chunks_of r) = Suc (length (chunks_of ?r'))" and first: "first < 2 ^ 64"
      using False "1.prems"(3) by (simp_all add: chunks_of_ne)
    obtain good w1 where post: "ok w1" "reliable \<longrightarrow> good" "good \<longrightarrow> chunk_at w1 (of_nat first) = Some ?bs"
        "upload_keeps chunk_at table_at first w w1"
      and step: "upload_loop H F X net hc key True \<lparr>st_rest = r, st_good = True\<rparr> (of_nat (length r)) (of_nat first) h hash w =
        upload_loop H F X net hc key good \<lparr>st_rest = ?r', st_good = True\<rparr> (of_nat (length ?r')) (of_nat (Suc first)) ?h
          (xx_digest X ?h) w1"
      using upload_chunk [OF "1.prems"(1) False "1.prems"(2) first refl refl refl refl,
          where X = X and hash = hash and h = h] by blast
    show ?thesis
    proof (cases good)
      case False
      with post show ?thesis
        unfolding step by (subst upload_loop.simps) (auto intro: exI [of _ False])
    next
      case True
      have "length ?r' < 2 ^ 64" "Suc first + length (chunks_of ?r') < 2 ^ 64"
        using "1.prems"(2,3) len by simp_all
      from "1.IH" [OF \<open>r \<noteq> []\<close> post(1) this, of ?h "xx_digest X ?h"]
      obtain good2 rem hash' w' where rest:
        "upload_loop H F X net hc key True \<lparr>st_rest = ?r', st_good = True\<rparr> (of_nat (length ?r')) (of_nat (Suc first)) ?h
          (xx_digest X ?h) w1 = Inr ((good2, rem, hash'), w')"
        "ok w'" "upload_keeps chunk_at table_at (Suc first) w1 w'" "reliable \<longrightarrow> good2"
        "good2 \<longrightarrow> rem = 0 \<and>
          hash' = (if ?r' = [] then xx_digest X ?h else xx_digest X (foldl (xx_update X) ?h (chunks_of ?r'))) \<and>
          chunks_stored F (chunk_at w') (Suc first) (tables_of X ?h (chunks_of ?r'))"
        by blast
      have "chunk_at w' (of_nat first) = Some ?bs"
        using rest(3) post(3) True by (simp add: upload_keeps_def)
      with rest True \<open>r \<noteq> []\<close> upload_keeps_trans [OF post(4) rest(3)] show ?thesis
        unfolding step by (auto simp: chunks_of_ne [of r] chunks_stored_Cons)
    qed
  qed
qed

text \<open>A whole upload: the table, then the chunks.\<close>

lemma upload_file:
  assumes "ok w" "hash_ok X"
    and content: "content \<noteq> []" "length content < 2 ^ 42"
    and ids: "ids \<noteq> []" "0 \<notin> set ids" "length ids \<le> kAssetMaxListEntries"
    and key: "key = xx_hash X content 0"
    and tbl: "tbl = file_table t name author deprecates ids ext key (length content)"
      "asset_fits tbl" "length (asset_bytes F tbl) \<le> 3069"
  shows "\<exists>good w'. postFileAsset H F X net hc t name author deprecates (join_ids ids) (steady_file ext content) w =
      Inr (if good then key else 0, w') \<and> ok w' \<and> (reliable \<longrightarrow> good) \<and>
    (good \<longrightarrow> table_at w' = Some (asset_bytes F tbl) \<and>
       chunks_stored F (chunk_at w') 0 (tables_of X (xx_reset X 0) (chunks_of content)))"
proof -
  let ?bs = "asset_bytes F tbl"
  have len: "length content < 2 ^ 64" using content(2) by simp
  have valid: "asset_valid F ?bs" "asset_root F ?bs = tbl"
    using ok_flat [OF assms(1)] tbl(2) by (simp_all add: flat_ok_def)
  obtain ok1 w1 where p: "client_post H net (m_serverAddress hc @ ''/asset/id/'' @ keyToString key) ?bs w = Inr (ok1, w1)"
    "ok w1" "reliable \<longrightarrow> ok1" "ok1 \<longrightarrow> table_at w1 = Some ?bs"
    using put_table [OF assms(1) tbl(3) valid(1) _ ids(3)] valid(2) by (auto simp: tbl(1) file_table_def)
  have hash: "hash_file X (fv_size (steady_file ext content)) (fv_first (steady_file ext content)) = Some key"
    using hash_file_eq [OF assms(2) content(1) len] by (simp add: steady_file_def key)
  have size: "(of_nat (length content) :: u64) \<noteq> 0"
    using of_nat_less_0 [OF len] content(1) by (metis word_gt_0)
  note flat = file_asset_flat [OF len ids(1,2), where ext = ext and name = name and author = author and
    deprecates = deprecates and key = key and t = t, folded tbl(1)]
  show ?thesis
  proof (cases ok1)
    case False
    then show ?thesis
      using p hash flat size
      by (auto simp: postFileAsset_def steady_file_def Let_def intro!: exI [of _ False])
  next
    case True
    have "0 + length (chunks_of content) < 2 ^ 64" using length_chunks_le [of content] len by simp
    from upload_all [OF p(2) len this, of X "xx_reset X 0" 0]
    obtain ok2 rem hash' w' where u: "upload_loop H F X net hc key True \<lparr>st_rest = content, st_good = True\<rparr>
          (of_nat (length content)) 0 (xx_reset X 0) 0 w1 = Inr ((ok2, rem, hash'), w')"
      "ok w'" "upload_keeps chunk_at table_at 0 w1 w'" "reliable \<longrightarrow> ok2"
      "ok2 \<longrightarrow> rem = 0 \<and> hash' = xx_digest X (foldl (xx_update X) (xx_reset X 0) (chunks_of content)) \<and>
        chunks_stored F (chunk_at w') 0 (tables_of X (xx_reset X 0) (chunks_of content))"
      using content(1) by auto
    have hash': "hash' = key" if ok2
      using u(5) that assms(2) by (simp add: hash_ok_def key)
    have "table_at w' = Some ?bs"
      using u(3) p(4) True by (simp add: upload_keeps_def)
    moreover have "postFileAsset H F X net hc t name author deprecates (join_ids ids) (steady_file ext content) w =
        Inr (if ok2 then key else 0, w')"
      using p(1) True hash flat size u(1,5) hash'
      by (cases ok2) (simp_all add: postFileAsset_def steady_file_def Let_def)
    ultimately show ?thesis using u by blast
  qed
qed

end

section \<open>Downloading\<close>

lemma chunk_callback_table:
  assumes "data_valid F bs" "data_root F bs = \<lparr>fd_data = Some c, fd_hash = xx_digest X (xx_update X (dl_hash s) c)\<rparr>"
  shows "chunk_callback F X (ClientRecord (SizedPointer bs)) s =
    Inr (s\<lparr>dl_hash := xx_update X (dl_hash s) c, dl_digest := xx_digest X (xx_update X (dl_hash s) c),
           dl_written := dl_written s @ c\<rparr>)"
  using assms by (simp add: chunk_callback_def GetFlatAssetData_def Let_def)

lemma few_chunks: "length content < 2 ^ 42 \<Longrightarrow> length (chunks_of content) + 1 < 2 ^ 31"
proof -
  assume "length content < 2 ^ 42"
  then have "(length content + kDataChunkSize - 1) div kDataChunkSize \<le> (2 ^ 42 + 2877) div 2877"
    unfolding kDataChunkSize_val by (intro div_le_mono) simp
  then show ?thesis by (simp add: length_chunks_of)
qed

lemma download_loop_end: "chunks \<le> i \<Longrightarrow> download_loop H F X net hc key chunks i s w = Inr (s, w)"
  by (subst download_loop.simps) simp

lemma recorded_chunks_u64:
  "length content < 2 ^ 42 \<Longrightarrow> unat (of_nat (length content div kDataChunkSize + 1) :: u64) = length content div kDataChunkSize + 1"
  by (rule unat_of_nat64) (simp add: order_le_less_trans [OF div_le_dividend])

text \<open>The state of a download before any chunk, and after all chunks of a stored file.\<close>

definition nothing_downloaded :: "'h hash_lib \<Rightarrow> 'h download_state" where
  "nothing_downloaded X = \<lparr>dl_written = [], dl_digest = 0, dl_hash = xx_reset X 0, dl_ok = True\<rparr>"

definition file_downloaded :: "'h hash_lib \<Rightarrow> bytes \<Rightarrow> 'h download_state" where
  "file_downloaded X content =
     \<lparr>dl_written = content, dl_digest = xx_hash X content 0,
      dl_hash = foldl (xx_update X) (xx_reset X 0) (chunks_of content), dl_ok = True\<rparr>"

context file_service
begin

lemma download_chunks:
  "ok w \<Longrightarrow> chunks_stored F (chunk_at w) i (tables_of X (dl_hash s) cs) \<Longrightarrow>
    (\<And>c. c \<in> set cs \<Longrightarrow> length c \<le> kDataChunkSize) \<Longrightarrow> i + length cs < 2 ^ 31 \<Longrightarrow> dl_ok s \<Longrightarrow>
    i + length cs \<le> chunks \<Longrightarrow>
    \<exists>w'. later w w' \<and> download_loop H F X net hc key chunks i s w =
      download_loop H F X net hc key chunks (i + length cs)
        (s\<lparr>dl_hash := foldl (xx_update X) (dl_hash s) cs,
           dl_digest := (if cs = [] then dl_digest s else xx_digest X (foldl (xx_update X) (dl_hash s) cs)),
           dl_written := dl_written s @ concat cs\<rparr>) w'"
proof (induction cs arbitrary: i s w)
  case Nil
  then show ?case by (auto intro: exI [of _ w] later_refl)
next
  case (Cons c cs)
  let ?t = "\<lparr>fd_data = Some c, fd_hash = xx_digest X (xx_update X (dl_hash s) c)\<rparr>"
  let ?s = "s\<lparr>dl_hash := xx_update X (dl_hash s) c, dl_digest := xx_digest X (xx_update X (dl_hash s) c),
           dl_written := dl_written s @ c\<rparr>"
  have st: "chunk_at w (of_nat i) = Some (data_bytes F ?t)"
    "chunks_stored F (chunk_at w) (Suc i) (tables_of X (dl_hash ?s) cs)"
    using Cons.prems(2) by (simp_all add: chunks_stored_Cons)
  have c: "length c \<le> kDataChunkSize" using Cons.prems(3) by simp
  note fits = chunk_table_fits [OF ok_flat [OF Cons.prems(1)] c]
  have callback: "chunk_callback F X (ClientRecord (SizedPointer (data_bytes F ?t))) s = Inr ?s"
    by (rule chunk_callback_table [OF fits(2,3)])
  obtain w1 where get: "client_getAssetData H F net hc key (of_nat i) w =
      Inr ((key, of_nat i, ClientRecord (SizedPointer (data_bytes F ?t))), w1)" "later w w1"
    using fetch_chunk [OF Cons.prems(1) fits(1,2) st(1)] by blast
  have here: "download_loop H F X net hc key chunks i s w = download_loop H F X net hc key chunks (Suc i) ?s w1"
    using Cons.prems(4-6) get(1) callback by (subst download_loop.simps) simp
  have "chunks_stored F (chunk_at w1) (Suc i) (tables_of X (dl_hash ?s) cs)"
    using st(2) later_chunk [OF get(2) Cons.prems(1)] by (rule chunks_stored_kept)
  from Cons.IH [OF later_ok [OF get(2) Cons.prems(1)] this] Cons.prems(3-6)
  obtain w' where "later w1 w'" "download_loop H F X net hc key chunks (Suc i) ?s w1 =
      download_loop H F X net hc key chunks (Suc i + length cs)
      (?s\<lparr>dl_hash := foldl (xx_update X) (dl_hash ?s) cs,
         dl_digest := (if cs = [] then dl_digest ?s else xx_digest X (foldl (xx_update X) (dl_hash ?s) cs)),
         dl_written := dl_written ?s @ concat cs\<rparr>) w'"
    by auto
  with here later_trans [OF get(2)] show ?case by (intro exI [of _ w']) simp
qed

lemma download_all_chunks:
  assumes "ok w" "hash_ok X" "content \<noteq> []" "length content < 2 ^ 42"
    and "chunks_stored F (chunk_at w) 0 (tables_of X (xx_reset X 0) (chunks_of content))"
    and "length (chunks_of content) \<le> chunks"
  shows "\<exists>w'. later w w' \<and> download_loop H F X net hc key chunks 0 (nothing_downloaded X) w =
    download_loop H F X net hc key chunks (length (chunks_of content)) (file_downloaded X content) w'"
proof -
  have "chunks_of content \<noteq> []" using assms(3) by (simp add: chunks_of_ne)
  moreover have "xx_digest X (foldl (xx_update X) (xx_reset X 0) (chunks_of content)) = xx_hash X content 0"
    using assms(2) by (simp add: hash_ok_def)
  moreover have "0 + length (chunks_of content) < 2 ^ 31" using few_chunks [OF assms(4)] by simp
  moreover have "chunks_stored F (chunk_at w) 0 (tables_of X (dl_hash (nothing_downloaded X)) (chunks_of content))"
    using assms(5) by (simp add: nothing_downloaded_def)
  ultimately show ?thesis
    using download_chunks [OF assms(1), of 0 X "nothing_downloaded X" "chunks_of content" chunks] chunks_of_bounds assms(6)
    by (simp add: file_downloaded_def nothing_downloaded_def)
qed

text \<open>
  A download with the size, the number of chunks and the extension of the stored table writes the
  file, when its size is no multiple of the chunk size.
\<close>

lemma download_file:
  assumes "ok w" "hash_ok X" "content \<noteq> []" "length content < 2 ^ 42" "\<not> kDataChunkSize dvd length content"
    and "chunks_stored F (chunk_at w) 0 (tables_of X (xx_reset X 0) (chunks_of content))"
    and "tbl = file_table t name author deprecates ids ext key (length content)" "key = xx_hash X content 0"
    and "path = m_cachePath c @ ''/'' @ keyToString key @ ext" "opens path"
  shows "\<exists>w'. later w w' \<and> download H F X net hc opens time key (fa_size tbl) (fa_chunks tbl) ext c fs w =
      Inr ((path, c\<lparr>m_currentSize := m_currentSize c + of_nat (length content),
                    m_timeQueue := pq_push (time, path) (m_timeQueue c),
                    m_extensionMap := umap_insert key ext (m_extensionMap c)\<rparr>,
            umap_assign path (Regular content time) fs), w')"
proof -
  have n: "length content div kDataChunkSize + 1 = length (chunks_of content)"
    using recorded_chunks [of content] assms(5) by simp
  have chunks: "unat (fa_chunks tbl) = length (chunks_of content)"
    using recorded_chunks_u64 [OF assms(4)] unfolding n [symmetric] by (simp add: assms(7) file_table_def)
  obtain w' where "later w w'" "download_loop H F X net hc key (length (chunks_of content)) 0 (nothing_downloaded X) w =
      Inr (file_downloaded X content, w')"
    using download_all_chunks [OF assms(1-4,6) order_refl] by (auto simp: download_loop_end)
  then show ?thesis
    using assms(9,10)
    by (intro exI [of _ w'], simp add: download_def chunks nothing_downloaded_def [symmetric])
      (simp add: file_downloaded_def assms(7,8) file_table_def Let_def)
qed

end

section \<open>The asset server\<close>

lemma post_asset:
  assumes "http_ok H" "length bs \<le> 3069" "asset_valid F bs" "fa_lists (asset_root F bs) = Some ids"
    and "length ids \<le> kAssetMaxListEntries" "opened ldb d"
  shows "\<exists>ok d'. client_post H (server_net H ldb F now addr) (addr @ ''/asset/id/'' @ keyToString key) bs d = Inr (ok, d') \<and>
    storeAsset ldb F now key (SizedPointer bs) d = Inr (ok, d') \<and> opened ldb d' \<and> (writes_succeed ldb \<longrightarrow> ok) \<and>
    view ldb d' = (if ok then update_view (asset_batch now key bs (asset_root F bs) ids) (view ldb d) else view ldb d)"
proof -
  obtain ok d' where st: "storeAsset ldb F now key (SizedPointer bs) d = Inr (ok, d')" "opened ldb d'"
    "view ldb d' = (if ok then update_view (asset_batch now key bs (asset_root F bs) ids) (view ldb d) else view ldb d)"
    using storeAsset_refines [OF assms(6,3,4,5)] by blast
  have "writes_succeed ldb \<longrightarrow> ok"
    using st(1) assms(3,4) put_batch_succeeds by (fastforce simp: storeAsset_def GetFlatAsset_def Let_def fault_simps)
  moreover have "client_post H (server_net H ldb F now addr) (addr @ ''/asset/id/'' @ keyToString key) bs d = Inr (ok, d')"
    using page_roundtrip [OF assms(1,2)] assms(3) st
    by (simp add: client_post_def http_send_server serve_routes [OF assms(1), simplified] http_postAsset_def
        key_text.dec_enc status_response_def respond_def Let_def)
  ultimately show ?thesis using st by blast
qed

interpretation server_files: file_service H F "server_net H ldb F now addr" "\<lparr>m_serverAddress = addr\<rparr>" key
    "\<lambda>d. http_ok H \<and> flat_ok F \<and> opened ldb d" "(=)" "\<lambda>d n. view ldb d (DataKey key n)" "\<lambda>d. view ldb d (AssetKey key)"
    "writes_succeed ldb"
  for H ldb F now addr key
proof (unfold_locales, goal_cases)
  case (7 d bs ids)
  then obtain ok d' where p: "client_post H (server_net H ldb F now addr) (addr @ ''/asset/id/'' @ keyToString key) bs d = Inr (ok, d')"
    "opened ldb d'" "writes_succeed ldb \<longrightarrow> ok"
    "view ldb d' = (if ok then update_view (asset_batch now key bs (asset_root F bs) ids) (view ldb d) else view ldb d)"
    using post_asset [of H bs F ids ldb d now addr key] by blast
  with 7 show ?case by (auto simp: asset_batch_def update_view_append)
next
  case (8 d bs n)
  then obtain ok d' where p: "client_post H (server_net H ldb F now addr) (addr @ ''/asset/data/'' @ keyToString key @ ''/'' @
      snprintf 32 (show_dec (unat n))) bs d = Inr (ok, d')" "opened ldb d'"
    "storeAssetDataChunk ldb key n (SizedPointer bs) d = Inr (ok, d')"
    using post_chunk [of H bs F ldb d now addr key n] by blast
  have "view ldb d' = (if ok then (view ldb d)(DataKey key n \<mapsto> bs) else view ldb d)"
    using storeAssetDataChunk_refines [of ldb d key n bs] p(3) 8 by auto
  moreover have "writes_succeed ldb \<longrightarrow> ok"
    using p(3) by (auto simp: storeAssetDataChunk_def dest: put_batch_succeeds)
  ultimately show ?case using 8 p(1,2) by auto
next
  case (9 d bs n)
  with get_chunk [of H bs F ldb d key n now addr] show ?case by simp
qed auto

end
