(* ===== verification/Cache_Spec.thy ===== *)
theory Cache_Spec
  imports File_Service
begin

text \<open>
  What the cache manager promises: a downloaded file is what its key names, eviction keeps
  the recorded size the sum of the files, and a download from the server of a file that was
  uploaded there gives the file back.
\<close>

section \<open>Downloads\<close>

text \<open>
  Whatever the network answers, the digest after a successful download is that of the bytes
  written.
\<close>

definition dl_inv :: "'h hash_lib \<Rightarrow> 'h download_state \<Rightarrow> bool" where
  "dl_inv X s \<longleftrightarrow>
     (\<exists>cs. dl_hash s = foldl (xx_update X) (xx_reset X 0) cs \<and> dl_written s = concat cs \<and>
       (if cs = [] then dl_digest s = 0 else dl_digest s = xx_digest X (dl_hash s)))"

lemma chunk_callback_inv:
  assumes "dl_inv X s" "chunk_callback F X rec s = Inr s'" "dl_ok s'"
  shows "dl_inv X s'"
proof -
  obtain cs where cs: "dl_hash s = foldl (xx_update X) (xx_reset X 0) cs" "dl_written s = concat cs"
    using assms(1) by (auto simp: dl_inv_def)
  have "\<not> record_empty rec" using assms(2,3) by (auto simp: chunk_callback_def)
  with assms(2) obtain t :: flat_asset_data where t: "(case fd_data t of None \<Rightarrow> Inl NullDeref
     | Some chunkData \<Rightarrow>
         let h = xx_update X (dl_hash s) chunkData; digest = xx_digest X h;
             s = s\<lparr>dl_hash := h, dl_digest := digest\<rparr>
         in if digest \<noteq> fd_hash t then Inr (s\<lparr>dl_ok := False\<rparr>)
            else Inr (s\<lparr>dl_written := dl_written s @ chunkData\<rparr>)) = Inr s'"
    by (auto simp: chunk_callback_def fault_simps)
  then obtain c where c: "fd_data t = Some c" by (cases "fd_data t") auto
  have "s' = s\<lparr>dl_hash := xx_update X (dl_hash s) c, dl_digest := xx_digest X (xx_update X (dl_hash s) c),
           dl_written := dl_written s @ c\<rparr>"
    using t assms(3) by (auto simp: c Let_def split: if_splits)
  with cs show ?thesis
    unfolding dl_inv_def by (intro exI [of _ "cs @ [c]"]) simp
qed

lemma download_loop_inv:
  "download_loop H F X net hc key chunks i s w = Inr (s', w') \<Longrightarrow> dl_inv X s \<Longrightarrow> dl_ok s' \<Longrightarrow> dl_inv X s'"
proof (induction H F X net hc key chunks i s w rule: download_loop.induct)
  case (1 H F X net hc key chunks i s w)
  show ?case
  proof (cases "i < chunks")
    case False
    with "1.prems" show ?thesis by (simp add: download_loop.simps)
  next
    case True
    with "1.prems"(1) obtain rec w1 s1 where a: "client_getAssetData H F net hc key (of_nat i) w = Inr ((key, of_nat i, rec), w1)"
      "chunk_callback F X rec s = Inr s1"
      "(if \<not> dl_ok s1 then Inr (s1, w1) else if i + 1 \<ge> 2 ^ 31 then Inl SignedOverflow
        else download_loop H F X net hc key chunks (i + 1) s1 w1) = Inr (s', w')"
      by (subst (asm) download_loop.simps) (auto simp: fault_simps client_getAssetData_def Let_def)
    show ?thesis
    proof (cases "dl_ok s1")
      case False
      with a(3) "1.prems"(3) show ?thesis by simp
    next
      case okay: True
      then have "dl_inv X s1" using chunk_callback_inv a(2) "1.prems"(2) by blast
      with a(3) okay "1.prems"(3) show ?thesis
        by (auto split: if_splits intro: "1.IH" [OF True])
    qed
  qed
qed

text \<open>What a successful download leaves in the cache, whatever the network did.\<close>

lemma download_result:
  assumes "hash_ok X" "key \<noteq> 0"
    and "download H F X net hc opens now key fileSize chunks ext c fs w = Inr ((path, c', fs'), w')" "path \<noteq> []"
  shows "\<exists>content. path = m_cachePath c @ ''/'' @ keyToString key @ ext \<and>
    fs' = umap_assign path (Regular content now) fs \<and> xx_hash X content 0 = key \<and> of_nat (length content) = fileSize \<and>
    c' = c\<lparr>m_currentSize := m_currentSize c + fileSize, m_timeQueue := pq_push (now, path) (m_timeQueue c),
           m_extensionMap := umap_insert key ext (m_extensionMap c)\<rparr>"
proof -
  let ?s0 = "\<lparr>dl_written = [], dl_digest = 0, dl_hash = xx_reset X 0, dl_ok = True\<rparr>"
  let ?path = "m_cachePath c @ ''/'' @ keyToString key @ ext"
  obtain s where s: "download_loop H F X net hc key (unat chunks) 0 ?s0 w = Inr (s, w')"
    "dl_ok s" "key = dl_digest s" "fileSize = of_nat (length (dl_written s))"
    "path = ?path" "fs' = umap_assign ?path (Regular (dl_written s) now) fs"
    "c' = c\<lparr>m_currentSize := m_currentSize c + fileSize, m_timeQueue := pq_push (now, ?path) (m_timeQueue c),
           m_extensionMap := umap_insert key ext (m_extensionMap c)\<rparr>"
    using assms(3,4) by (auto simp: download_def Let_def fault_simps split: if_splits)
  have "dl_inv X ?s0" by (auto simp: dl_inv_def)
  from download_loop_inv [OF s(1) this s(2)] obtain cs where
    cs: "dl_hash s = foldl (xx_update X) (xx_reset X 0) cs" "dl_written s = concat cs"
      "if cs = [] then dl_digest s = 0 else dl_digest s = xx_digest X (dl_hash s)"
    by (auto simp: dl_inv_def)
  have "dl_digest s = xx_hash X (dl_written s) 0"
    using cs s(3) assms(1,2) by (cases "cs = []") (auto simp: hash_ok_def)
  with s show ?thesis by auto
qed

section \<open>The queue\<close>

text \<open>The contract of a priority queue: what goes in comes out, greatest first.\<close>

locale priority_queue =
  fixes less :: "'e \<Rightarrow> 'e \<Rightarrow> bool"
    and invar :: "'e list \<Rightarrow> bool"
    and push :: "'e \<Rightarrow> 'e list \<Rightarrow> 'e list"
    and top_of :: "'e list \<Rightarrow> fault + 'e"
    and pop :: "'e list \<Rightarrow> 'e list"
  assumes invar_push: "invar q \<Longrightarrow> invar (push e q)"
    and mset_push: "mset (push e q) = add_mset e (mset q)"
    and invar_pop: "invar q \<Longrightarrow> invar (pop q)"
    and mset_pop: "top_of q = Inr x \<Longrightarrow> mset q = add_mset x (mset (pop q))"
    and top_greatest: "invar q \<Longrightarrow> top_of q = Inr x \<Longrightarrow> y \<in> set q \<Longrightarrow> \<not> less x y"
    and top_empty: "top_of q = Inl err \<Longrightarrow> q = []"
begin

lemma set_pop: "top_of q = Inr x \<Longrightarrow> set q = insert x (set (pop q))"
  by (metis mset_pop set_mset_add_mset_insert set_mset_mset)

lemma pop_not_greater: "invar q \<Longrightarrow> top_of q = Inr x \<Longrightarrow> y \<in> set (pop q) \<Longrightarrow> \<not> less x y"
  using top_greatest set_pop by blast

lemma top_total: "q \<noteq> [] \<Longrightarrow> \<exists>x. top_of q = Inr x"
  using top_empty by (cases "top_of q") auto

end

definition pq_ok :: "time_path list \<Rightarrow> bool" where
  "pq_ok q \<longleftrightarrow> sorted_wrt (\<lambda>x y. \<not> time_path_less x y) q"

lemma time_path_less_asym: "time_path_less x y \<Longrightarrow> \<not> time_path_less y x"
  by (auto simp: time_path_less_def)

lemma time_path_less_trans: "time_path_less x y \<Longrightarrow> time_path_less y z \<Longrightarrow> time_path_less x z"
  by (auto simp: time_path_less_def)

lemma set_pq_push [simp]: "set (pq_push e q) = insert e (set q)"
  by (induction q) auto

lemma pq_ok_push: "pq_ok q \<Longrightarrow> pq_ok (pq_push e q)"
  unfolding pq_ok_def
proof (induction q)
  case Nil
  then show ?case by simp
next
  case (Cons x q)
  show ?case
  proof (cases "time_path_less x e")
    case True
    have "\<not> time_path_less e y" if "y \<in> set (x # q)" for y
      using that Cons.prems True time_path_less_asym [OF True] time_path_less_trans [OF True, of y] by auto
    with Cons.prems True show ?thesis by simp
  next
    case False
    with Cons show ?thesis by simp
  qed
qed

interpretation pq: priority_queue time_path_less pq_ok pq_push pq_top pq_pop
proof unfold_locales
  show "pq_ok (pq_pop q)" if "pq_ok q" for q
    using that by (cases q) (auto simp: pq_ok_def pq_pop_def)
  show "mset q = add_mset x (mset (pq_pop q))" if "pq_top q = Inr x" for q x
    using that by (cases q) (auto simp: pq_pop_def)
  show "\<not> time_path_less x y" if "pq_ok q" "pq_top q = Inr x" "y \<in> set q" for q x y
    using that time_path_less_asym by (cases q) (auto simp: pq_ok_def)
  show "q = []" if "pq_top q = Inl e" for q e
    using that by (cases q) auto
qed (simp_all add: pq_ok_push)

section \<open>Eviction\<close>

definition file_bytes :: "fs \<Rightarrow> string \<Rightarrow> nat" where
  "file_bytes fs p = (case umap_find fs p of Some (Regular content t) \<Rightarrow> length content | _ \<Rightarrow> 0)"

definition queue_bytes :: "fs \<Rightarrow> time_path list \<Rightarrow> nat" where
  "queue_bytes fs q = sum_list (map (\<lambda>e. file_bytes fs (snd e)) q)"

definition is_file :: "fs \<Rightarrow> string \<Rightarrow> bool" where
  "is_file fs p \<longleftrightarrow> (\<exists>content t. umap_find fs p = Some (Regular content t))"

text \<open>
  The bookkeeping of the cache: every queued path is a file of the directory, none is queued
  twice, and the recorded size is the sum of their sizes.
\<close>

definition cache_ok :: "cache_manager \<Rightarrow> fs \<Rightarrow> bool" where
  "cache_ok c fs \<longleftrightarrow>
     pq_ok (m_timeQueue c) \<and> distinct (map snd (m_timeQueue c)) \<and>
     (\<forall>e \<in> set (m_timeQueue c). is_file fs (snd e)) \<and>
     m_currentSize c = of_nat (queue_bytes fs (m_timeQueue c)) \<and>
     queue_bytes fs (m_timeQueue c) < 2 ^ 64"

lemma queue_bytes_remove:
  "p \<notin> snd ` set q \<Longrightarrow> queue_bytes (fs_remove p fs) q = queue_bytes fs q"
  unfolding queue_bytes_def
  by (rule arg_cong [where f = sum_list], rule map_cong)
    (auto simp: file_bytes_def fs_remove_def umap.find_erase)

lemma queue_bytes_push [simp]: "queue_bytes fs (pq_push e q) = file_bytes fs (snd e) + queue_bytes fs q"
  unfolding queue_bytes_def by (induction q) auto

lemma queue_bytes_Cons [simp]: "queue_bytes fs (e # q) = file_bytes fs (snd e) + queue_bytes fs q"
  by (simp add: queue_bytes_def)

lemma distinct_pq_push: "distinct (map snd (pq_push e q)) \<longleftrightarrow> snd e \<notin> snd ` set q \<and> distinct (map snd q)"
  by (induction q) auto

lemma is_file_remove: "is_file fs q \<Longrightarrow> q \<noteq> p \<Longrightarrow> is_file (fs_remove p fs) q"
  by (simp add: is_file_def fs_remove_def umap.find_erase)

lemma cache_ok_pop:
  assumes "cache_ok c fs" "m_timeQueue c = (t, p) # q"
  shows "cache_ok (c\<lparr>m_timeQueue := q, m_currentSize := m_currentSize c - of_nat (file_bytes fs p),
      m_extensionMap := e\<rparr>) (fs_remove p fs)"
proof -
  have "p \<notin> snd ` set q" using assms by (auto simp: cache_ok_def)
  then show ?thesis
    using assms by (auto simp: cache_ok_def queue_bytes_remove pq_ok_def intro!: is_file_remove)
qed

lemma cache_ok_refresh:
  assumes "cache_ok c fs" "m_timeQueue c = (t, p) # q"
  shows "cache_ok (c\<lparr>m_timeQueue := pq_push (t', p) q\<rparr>) fs"
  using assms pq.invar_push by (auto simp: cache_ok_def distinct_pq_push pq_ok_def)

lemma is_file_ops:
  assumes "is_file fs p"
  shows "\<exists>t. fs_last_write_time p fs = Inr t" "fs_file_size p fs = Inr (of_nat (file_bytes fs p))"
  using assms by (auto simp: is_file_def fs_last_write_time_def fs_file_size_def file_bytes_def)

text \<open>The two ways an iteration of the eviction loop continues.\<close>

lemma makeRoomFor_step:
  assumes "m_currentSize c + added > m_maxSize c" "m_timeQueue c = (t, p) # q" "is_file fs p"
  shows "fs_last_write_time p fs = Inr t \<Longrightarrow> makeRoomFor added c fs = makeRoomFor added
      (c\<lparr>m_timeQueue := q, m_currentSize := m_currentSize c - of_nat (file_bytes fs p),
         m_extensionMap := umap_erase (stringToKey (path_stem p)) (m_extensionMap c)\<rparr>) (fs_remove p fs)"
    and "fs_last_write_time p fs = Inr t' \<Longrightarrow> t' \<noteq> t \<Longrightarrow>
      makeRoomFor added c fs = makeRoomFor added (c\<lparr>m_timeQueue := pq_push (t', p) q\<rparr>) fs"
  using assms is_file_ops(2) [OF assms(3)]
  by (subst makeRoomFor.simps, simp add: pq_pop_def)+

lemma makeRoomFor_stop: "m_currentSize c + added \<le> m_maxSize c \<Longrightarrow> makeRoomFor added c fs = Inr (c, fs)"
  by (subst makeRoomFor.simps) (simp add: linorder_not_less [THEN iffD2])

text \<open>An induction principle that follows the two continuations.\<close>

lemma makeRoomFor_induct [case_names stop evict refresh]:
  assumes "cache_ok c fs" "unat added \<le> unat (m_maxSize c)" "queue_bytes fs (m_timeQueue c) + unat added < 2 ^ 64"
    and "\<And>c fs. cache_ok c fs \<Longrightarrow> m_currentSize c + added \<le> m_maxSize c \<Longrightarrow> P c fs"
    and "\<And>c fs t p q. cache_ok c fs \<Longrightarrow> m_currentSize c + added > m_maxSize c \<Longrightarrow> m_timeQueue c = (t, p) # q \<Longrightarrow>
       fs_last_write_time p fs = Inr t \<Longrightarrow>
       P (c\<lparr>m_timeQueue := q, m_currentSize := m_currentSize c - of_nat (file_bytes fs p),
            m_extensionMap := umap_erase (stringToKey (path_stem p)) (m_extensionMap c)\<rparr>) (fs_remove p fs) \<Longrightarrow> P c fs"
    and "\<And>c fs t t' p q. cache_ok c fs \<Longrightarrow> m_currentSize c + added > m_maxSize c \<Longrightarrow> m_timeQueue c = (t, p) # q \<Longrightarrow>
       fs_last_write_time p fs = Inr t' \<Longrightarrow> t' \<noteq> t \<Longrightarrow> P (c\<lparr>m_timeQueue := pq_push (t', p) q\<rparr>) fs \<Longrightarrow> P c fs"
  shows "P c fs"
  using assms(1-3)
proof (induction "(c, fs)" arbitrary: c fs rule: wf_induct_rule [OF wf_measures
    [of "[\<lambda>(c, fs). length (m_timeQueue c), \<lambda>(c, fs). length (filter (stale fs) (m_timeQueue c))]"]])
  case (1 c fs)
  show ?case
  proof (cases "m_currentSize c + added > m_maxSize c")
    case False
    with "1.prems"(1) assms(4) show ?thesis by simp
  next
    case True
    have "m_timeQueue c \<noteq> []"
    proof
      assume "m_timeQueue c = []"
      then have "m_currentSize c = 0" using "1.prems"(1) by (simp add: cache_ok_def queue_bytes_def)
      with True "1.prems"(2) show False by (simp add: word_less_nat_alt)
    qed
    then obtain t p q where q: "m_timeQueue c = (t, p) # q" by (cases "m_timeQueue c") auto
    then have "is_file fs p" using "1.prems"(1) by (simp add: cache_ok_def)
    then obtain t' where t': "fs_last_write_time p fs = Inr t'" using is_file_ops(1) by blast
    show ?thesis
    proof (cases "t' = t")
      case same: True
      let ?c = "c\<lparr>m_timeQueue := q, m_currentSize := m_currentSize c - of_nat (file_bytes fs p),
            m_extensionMap := umap_erase (stringToKey (path_stem p)) (m_extensionMap c)\<rparr>"
      have "p \<notin> snd ` set q" using "1.prems"(1) q by (auto simp: cache_ok_def)
      then have "P ?c (fs_remove p fs)"
        using "1.prems" q cache_ok_pop [OF "1.prems"(1) q]
        by (intro "1.hyps") (auto simp: queue_bytes_remove)
      with assms(5) "1.prems"(1) True q t' same show ?thesis by blast
    next
      case False
      have "P (c\<lparr>m_timeQueue := pq_push (t', p) q\<rparr>) fs"
        using "1.prems" q t' False cache_ok_refresh [OF "1.prems"(1) q, of t']
        by (intro "1.hyps") (auto simp: length_filter_pq_push stale_def)
      with assms(6) "1.prems"(1) True q t' False show ?thesis by blast
    qed
  qed
qed

lemma makeRoomFor_ok:
  assumes "cache_ok c fs" "unat added \<le> unat (m_maxSize c)" "queue_bytes fs (m_timeQueue c) + unat added < 2 ^ 64"
  shows "\<exists>c' fs'. makeRoomFor added c fs = Inr (c', fs') \<and> cache_ok c' fs' \<and> m_currentSize c' + added \<le> m_maxSize c \<and>
    m_maxSize c' = m_maxSize c \<and> snd ` set (m_timeQueue c') \<subseteq> snd ` set (m_timeQueue c) \<and>
    (\<forall>p. p \<in> snd ` set (m_timeQueue c') \<or> p \<notin> snd ` set (m_timeQueue c) \<longrightarrow> umap_find fs' p = umap_find fs p)"
    (is "?P c fs")
  using assms
proof (rule makeRoomFor_induct [where P = ?P])
  fix c fs
  assume "cache_ok c fs" "m_currentSize c + added \<le> m_maxSize c"
  then show "?P c fs" by (auto simp: makeRoomFor_stop)
next
  fix c fs t p q
  assume ok: "cache_ok c fs" and over: "m_currentSize c + added > m_maxSize c" and q: "m_timeQueue c = (t, p) # q"
    and t: "fs_last_write_time p fs = Inr t"
    and IH: "?P (c\<lparr>m_timeQueue := q, m_currentSize := m_currentSize c - of_nat (file_bytes fs p),
            m_extensionMap := umap_erase (stringToKey (path_stem p)) (m_extensionMap c)\<rparr>) (fs_remove p fs)"
  have "is_file fs p" "p \<notin> snd ` set q" using ok q by (auto simp: cache_ok_def)
  note step = makeRoomFor_step(1) [OF over q \<open>is_file fs p\<close> t]
  have find: "umap_find (fs_remove p fs) r = (if r = p then None else umap_find fs r)" for r
    by (simp add: fs_remove_def umap.find_erase)
  from IH obtain c' fs' where 1: "makeRoomFor added (c\<lparr>m_timeQueue := q, m_currentSize := m_currentSize c - of_nat (file_bytes fs p),
            m_extensionMap := umap_erase (stringToKey (path_stem p)) (m_extensionMap c)\<rparr>) (fs_remove p fs) = Inr (c', fs')"
    "cache_ok c' fs'" "m_currentSize c' + added \<le> m_maxSize c" "m_maxSize c' = m_maxSize c"
    "snd ` set (m_timeQueue c') \<subseteq> snd ` set q"
    "\<forall>r. r \<in> snd ` set (m_timeQueue c') \<or> r \<notin> snd ` set q \<longrightarrow> umap_find fs' r = umap_find (fs_remove p fs) r"
    by simp blast
  have "umap_find fs' r = umap_find fs r"
    if "r \<in> snd ` set (m_timeQueue c') \<or> r \<notin> snd ` set (m_timeQueue c)" for r
  proof -
    have "r \<noteq> p" "r \<in> snd ` set (m_timeQueue c') \<or> r \<notin> snd ` set q"
      using that 1(5) q \<open>p \<notin> snd ` set q\<close> by auto
    with 1(6) find show ?thesis by metis
  qed
  moreover have "snd ` set (m_timeQueue c') \<subseteq> snd ` set (m_timeQueue c)" using 1(5) q by auto
  ultimately show "?P c fs"
    unfolding step using 1(1-4) by blast
next
  fix c fs t t' p q
  assume ok: "cache_ok c fs" and over: "m_currentSize c + added > m_maxSize c" and q: "m_timeQueue c = (t, p) # q"
    and t: "fs_last_write_time p fs = Inr t'" "t' \<noteq> t"
    and IH: "?P (c\<lparr>m_timeQueue := pq_push (t', p) q\<rparr>) fs"
  have "is_file fs p" using ok q by (auto simp: cache_ok_def)
  with IH q makeRoomFor_step(2) [OF over q _ t] show "?P c fs" by simp
qed

text \<open>No file was touched since it was queued.\<close>

definition fresh :: "cache_manager \<Rightarrow> fs \<Rightarrow> bool" where
  "fresh c fs \<longleftrightarrow> (\<forall>e \<in> set (m_timeQueue c). fs_last_write_time (snd e) fs = Inr (fst e))"

lemma last_write_time_remove: "q \<noteq> p \<Longrightarrow> fs_last_write_time q (fs_remove p fs) = fs_last_write_time q fs"
  by (simp add: fs_last_write_time_def fs_remove_def umap.find_erase)

lemma makeRoomFor_fresh:
  assumes "cache_ok c fs" "unat added \<le> unat (m_maxSize c)" "queue_bytes fs (m_timeQueue c) + unat added < 2 ^ 64"
  shows "fresh c fs \<longrightarrow> (\<exists>k c' fs'. makeRoomFor added c fs = Inr (c', fs') \<and> m_timeQueue c' = drop k (m_timeQueue c) \<and>
    (\<forall>p \<in> snd ` set (take k (m_timeQueue c)). umap_find fs' p = None) \<and>
    (\<forall>p. p \<notin> snd ` set (take k (m_timeQueue c)) \<longrightarrow> umap_find fs' p = umap_find fs p))"
    (is "?P c fs")
  using assms
proof (rule makeRoomFor_induct [where P = ?P])
  fix c fs
  assume "cache_ok c fs" "m_currentSize c + added \<le> m_maxSize c"
  then show "?P c fs" by (intro impI exI [of _ 0]) (simp add: makeRoomFor_stop)
next
  fix c :: cache_manager and fs t p q
  let ?c = "c\<lparr>m_timeQueue := q, m_currentSize := m_currentSize c - of_nat (file_bytes fs p),
            m_extensionMap := umap_erase (stringToKey (path_stem p)) (m_extensionMap c)\<rparr>"
  assume ok: "cache_ok c fs" and over: "m_currentSize c + added > m_maxSize c" and q: "m_timeQueue c = (t, p) # q"
    and t: "fs_last_write_time p fs = Inr t" and IH: "?P ?c (fs_remove p fs)"
  have p: "is_file fs p" "p \<notin> snd ` set q" using ok q by (auto simp: cache_ok_def)
  note step = makeRoomFor_step(1) [OF over q p(1) t]
  have find: "umap_find (fs_remove p fs) r = (if r = p then None else umap_find fs r)" for r
    by (simp add: fs_remove_def umap.find_erase)
  show "?P c fs"
  proof
    assume fr: "fresh c fs"
    have "fresh ?c (fs_remove p fs)"
      unfolding fresh_def
    proof
      fix e assume "e \<in> set (m_timeQueue ?c)"
      then have "e \<in> set q" by simp
      then have "snd e \<noteq> p" "fs_last_write_time (snd e) fs = Inr (fst e)"
        using p(2) fr q by (auto simp: fresh_def)
      then show "fs_last_write_time (snd e) (fs_remove p fs) = Inr (fst e)"
        by (simp add: last_write_time_remove)
    qed
    with IH obtain k c' fs' where 1: "makeRoomFor added ?c (fs_remove p fs) = Inr (c', fs')" "m_timeQueue c' = drop k q"
      "\<forall>r \<in> snd ` set (take k q). umap_find fs' r = None"
      "\<forall>r. r \<notin> snd ` set (take k q) \<longrightarrow> umap_find fs' r = umap_find (fs_remove p fs) r"
      by simp blast
    have "p \<notin> snd ` set (take k q)" using p(2) by (metis image_mono set_take_subset subsetD)
    then have "umap_find fs' p = None" using 1(4) find by simp
    with 1 find show "\<exists>k c' fs'. makeRoomFor added c fs = Inr (c', fs') \<and> m_timeQueue c' = drop k (m_timeQueue c) \<and>
      (\<forall>r \<in> snd ` set (take k (m_timeQueue c)). umap_find fs' r = None) \<and>
      (\<forall>r. r \<notin> snd ` set (take k (m_timeQueue c)) \<longrightarrow> umap_find fs' r = umap_find fs r)"
      unfolding step q by (intro exI [of _ "Suc k"] exI [of _ c'] exI [of _ fs']) simp
  qed
next
  fix c :: cache_manager and fs t t' p q
  assume "m_timeQueue c = (t, p) # q" "fs_last_write_time p fs = Inr t'" "t' \<noteq> t"
  then show "?P c fs" by (simp add: fresh_def)
qed

section \<open>Start-up\<close>

lemma validate_loop_chunks:
  assumes "st_good s \<or> st_rest s = []" "length (st_rest s) < 2 ^ 64"
  shows "validate_loop X s (of_nat (length (st_rest s))) h = (0, foldl (xx_update X) h (chunks_of (st_rest s)))"
  using assms
proof (induction "st_rest s" arbitrary: s h rule: chunks_of.induct)
  case 1
  show ?case
  proof (cases "st_rest s = []")
    case True
    then show ?thesis by (simp add: validate_loop.simps)
  next
    case False
    let ?r = "st_rest s"
    let ?s' = "\<lparr>st_rest = drop kDataChunkSize ?r, st_good = (kDataChunkSize \<le> length ?r)\<rparr>"
    have "validate_loop X ?s' (of_nat (length (st_rest ?s'))) (xx_update X h (take kDataChunkSize ?r)) =
        (0, foldl (xx_update X) (xx_update X h (take kDataChunkSize ?r)) (chunks_of (st_rest ?s')))"
      using False "1.prems" by (intro "1.hyps") auto
    then show ?thesis
      using False "1.prems"
      by (subst validate_loop.simps)
        (simp add: stream_read_def of_nat_less_0 of_nat_rest [of ?r, simplified] chunks_of_ne [of ?r])
  qed
qed

lemma file_valid_hash:
  assumes "hash_ok X" "length content < 2 ^ 64" "file_valid X opens key (of_nat (length content)) content"
  shows "xx_hash X content 0 = key"
proof -
  have "validate_loop X \<lparr>st_rest = content, st_good = True\<rparr> (of_nat (length content)) (xx_reset X 0) =
      (0, foldl (xx_update X) (xx_reset X 0) (chunks_of content))"
    using validate_loop_chunks [of "\<lparr>st_rest = content, st_good = True\<rparr>"] assms(2) by simp
  with assms(1,3) show ?thesis
    by (simp add: file_valid_def hash_ok_def split: if_splits)
qed

text \<open>Every queued file has the hash its name says.\<close>

definition names_valid :: "'h hash_lib \<Rightarrow> cache_manager \<Rightarrow> fs \<Rightarrow> bool" where
  "names_valid X c fs \<longleftrightarrow>
     (\<forall>e \<in> set (m_timeQueue c). \<exists>content t. umap_find fs (snd e) = Some (Regular content t) \<and>
        xx_hash X content 0 = stringToKey (path_stem (snd e)))"

fun node_bytes :: "fs_node \<Rightarrow> nat" where
  "node_bytes (Regular content t) = length content"
| "node_bytes NonRegular = 0"

definition started :: "'h hash_lib \<Rightarrow> bool \<Rightarrow> cache_manager \<Rightarrow> fs \<Rightarrow> bool" where
  "started X validate c fs \<longleftrightarrow> cache_ok c fs \<and> fresh c fs \<and> (validate \<longrightarrow> names_valid X c fs)"

lemma started_add:
  assumes "started X validate c fs" "umap_find fs p = Some (Regular content t)" "p \<notin> snd ` set (m_timeQueue c)"
    and "queue_bytes fs (m_timeQueue c) + length content < 2 ^ 64"
    and "validate \<Longrightarrow> xx_hash X content 0 = stringToKey (path_stem p)"
  shows "started X validate (c\<lparr>m_currentSize := m_currentSize c + of_nat (length content),
      m_timeQueue := pq_push (t, p) (m_timeQueue c), m_extensionMap := e\<rparr>) fs"
proof -
  have f: "file_bytes fs p = length content" "is_file fs p" "fs_last_write_time p fs = Inr t"
    using assms(2) by (simp_all add: file_bytes_def is_file_def fs_last_write_time_def)
  have "cache_ok (c\<lparr>m_currentSize := m_currentSize c + of_nat (length content),
      m_timeQueue := pq_push (t, p) (m_timeQueue c), m_extensionMap := e\<rparr>) fs"
    using assms(1,3,4) f pq.invar_push by (simp add: started_def cache_ok_def distinct_pq_push add.commute)
  with assms(1,2,5) f show ?thesis by (simp add: started_def fresh_def names_valid_def)
qed

lemma started_remove:
  assumes "started X validate c fs" "p \<notin> snd ` set (m_timeQueue c)"
  shows "started X validate c (fs_remove p fs)"
proof -
  have find: "umap_find (fs_remove p fs) (snd e) = umap_find fs (snd e)" if "e \<in> set (m_timeQueue c)" for e
    using that assms(2) by (auto simp: fs_remove_def umap.find_erase)
  have "queue_bytes (fs_remove p fs) (m_timeQueue c) = queue_bytes fs (m_timeQueue c)"
    by (rule queue_bytes_remove) (rule assms(2))
  with assms(1) find show ?thesis
    by (simp add: started_def cache_ok_def fresh_def names_valid_def is_file_def fs_last_write_time_def)
qed

lemma check_entry_started:
  assumes "hash_ok X" "started X validate c fs" "umap_find fs (fst e) = Some (snd e)" "fst e \<notin> snd ` set (m_timeQueue c)"
    and "queue_bytes fs (m_timeQueue c) + node_bytes (snd e) < 2 ^ 64"
    and "check_entry X opens validate e (c, fs) = (c1, fs1)"
  shows "started X validate c1 fs1 \<and> m_maxSize c1 = m_maxSize c \<and>
    queue_bytes fs1 (m_timeQueue c1) \<le> queue_bytes fs (m_timeQueue c) + node_bytes (snd e) \<and>
    snd ` set (m_timeQueue c1) \<subseteq> insert (fst e) (snd ` set (m_timeQueue c)) \<and>
    (\<forall>q. q \<noteq> fst e \<longrightarrow> umap_find fs1 q = umap_find fs q)"
proof (cases "snd e")
  case NonRegular
  with assms show ?thesis by (cases e) (auto simp: check_entry_def)
next
  case (Regular content t)
  obtain p where e: "e = (p, Regular content t)" using Regular by (cases e) simp
  let ?key = "stringToKey (path_stem p)"
  define valid where "valid \<longleftrightarrow>
    (if validate then file_valid X (opens p) ?key (of_nat (length content)) content else True)"
  have p: "umap_find fs p = Some (Regular content t)" "p \<notin> snd ` set (m_timeQueue c)"
    and small: "queue_bytes fs (m_timeQueue c) + length content < 2 ^ 64"
    using assms(3-5) e by simp_all
  let ?c = "c\<lparr>m_currentSize := m_currentSize c + of_nat (length content),
    m_timeQueue := pq_push (t, p) (m_timeQueue c),
    m_extensionMap := umap_insert ?key (path_extension p) (m_extensionMap c)\<rparr>"
  have "check_entry X opens validate e (c, fs) = (if valid then (?c, fs) else (c, fs_remove p fs))"
    by (simp add: e check_entry_def valid_def Let_def)
  with assms(6) have step: "(c1, fs1) = (if valid then (?c, fs) else (c, fs_remove p fs))" by simp
  show ?thesis
  proof (cases valid)
    case True
    have "xx_hash X content 0 = ?key" if validate
      using True that small by (intro file_valid_hash [OF assms(1), of _ "opens p"]) (simp_all add: valid_def)
    then have "started X validate ?c fs"
      by (rule started_add [OF assms(2) p small])
    moreover have "file_bytes fs p = length content" using p by (simp add: file_bytes_def)
    ultimately show ?thesis using step True by (simp add: e)
  next
    case False
    with step have "c1 = c" "fs1 = fs_remove p fs" by simp_all
    moreover have "umap_find (fs_remove p fs) q = umap_find fs q" if "q \<noteq> p" for q
      using that by (simp add: fs_remove_def umap.find_erase)
    ultimately show ?thesis
      using started_remove [OF assms(2) p(2)] by (auto simp: e queue_bytes_remove [OF p(2)])
  qed
qed

lemma fold_check_entries:
  assumes "hash_ok X"
  shows "started X validate c fs \<Longrightarrow> distinct (map fst es) \<Longrightarrow>
    (\<forall>e \<in> set es. umap_find fs (fst e) = Some (snd e) \<and> fst e \<notin> snd ` set (m_timeQueue c)) \<Longrightarrow>
    queue_bytes fs (m_timeQueue c) + sum_list (map (node_bytes \<circ> snd) es) < 2 ^ 64 \<Longrightarrow>
    fold (check_entry X opens validate) es (c, fs) = (c', fs') \<Longrightarrow>
    started X validate c' fs' \<and> m_maxSize c' = m_maxSize c"
proof (induction es arbitrary: c fs)
  case Nil
  then show ?case by simp
next
  case (Cons e es)
  obtain c1 fs1 where step: "check_entry X opens validate e (c, fs) = (c1, fs1)"
    by (cases "check_entry X opens validate e (c, fs)")
  note one = check_entry_started [OF assms Cons.prems(1) _ _ _ step]
  have c1: "started X validate c1 fs1" "m_maxSize c1 = m_maxSize c"
    "queue_bytes fs1 (m_timeQueue c1) \<le> queue_bytes fs (m_timeQueue c) + node_bytes (snd e)"
    "snd ` set (m_timeQueue c1) \<subseteq> insert (fst e) (snd ` set (m_timeQueue c))"
    "\<And>q. q \<noteq> fst e \<Longrightarrow> umap_find fs1 q = umap_find fs q"
    using one Cons.prems(3,4) by simp_all
  have "umap_find fs1 (fst f) = Some (snd f) \<and> fst f \<notin> snd ` set (m_timeQueue c1)" if f: "f \<in> set es" for f
  proof -
    have "fst f \<noteq> fst e" using Cons.prems(2) f by (auto simp: rev_image_eqI)
    moreover have "umap_find fs (fst f) = Some (snd f)" "fst f \<notin> snd ` set (m_timeQueue c)"
      using Cons.prems(3) f by simp_all
    ultimately show ?thesis using subsetD [OF c1(4), of "fst f"] c1(5) [of "fst f"] by auto
  qed
  then have "started X validate c' fs' \<and> m_maxSize c' = m_maxSize c1"
    using Cons.prems(2,4,5) step c1(1,3) by (intro Cons.IH [of c1 fs1]) auto
  with c1(2) show ?case by simp
qed

text \<open>The entries of a listed directory are among the files, each once.\<close>

lemma listed_entries:
  assumes "iteration_order order" "umap_ok fs"
  shows "sum_list (map (node_bytes \<circ> snd) (order (filter P fs))) \<le> sum_list (map (node_bytes \<circ> snd) fs)"
    and "distinct (map fst (order (filter P fs)))"
    and "\<forall>e \<in> set (order (filter P fs)). umap_find fs (fst e) = Some (snd e)"
proof -
  have "sum_mset (image_mset (node_bytes \<circ> snd) (mset (order (filter P fs)))) =
      sum_mset (image_mset (node_bytes \<circ> snd) (mset (filter P fs)))"
    using assms(1) by (simp add: iteration_order_def)
  then have "sum_list (map (node_bytes \<circ> snd) (order (filter P fs))) = sum_list (map (node_bytes \<circ> snd) (filter P fs))"
    by (simp only: mset_map [symmetric] sum_mset_sum_list)
  also have "\<dots> \<le> sum_list (map (node_bytes \<circ> snd) fs)"
    by (rule sum_list_filter_le_nat)
  finally show "sum_list (map (node_bytes \<circ> snd) (order (filter P fs))) \<le> sum_list (map (node_bytes \<circ> snd) fs)" .
  have "umap_ok (filter P fs)" using assms(2) by (simp add: umap_ok_def distinct_map_filter)
  then show "distinct (map fst (order (filter P fs)))" by (rule iteration_order_distinct [OF assms(1)])
  show "\<forall>e \<in> set (order (filter P fs)). umap_find fs (fst e) = Some (snd e)"
  proof
    fix e assume "e \<in> set (order (filter P fs))"
    then have "(fst e, snd e) \<in> set fs" using iteration_order_set [OF assms(1), of "filter P fs"] by simp
    then show "umap_find fs (fst e) = Some (snd e)"
      using assms(2) unfolding umap_ok_def by (intro map_of_is_SomeI)
  qed
qed

lemma names_valid_subset:
  assumes "names_valid X c fs" "snd ` set (m_timeQueue c') \<subseteq> snd ` set (m_timeQueue c)"
    and "\<forall>p. p \<in> snd ` set (m_timeQueue c') \<or> p \<notin> snd ` set (m_timeQueue c) \<longrightarrow> umap_find fs' p = umap_find fs p"
  shows "names_valid X c' fs'"
  unfolding names_valid_def
proof
  fix e assume e: "e \<in> set (m_timeQueue c')"
  then obtain e1 where "e1 \<in> set (m_timeQueue c)" "snd e1 = snd e"
    using assms(2) by (metis image_iff subsetD imageI)
  with assms(1,3) e show "\<exists>content t. umap_find fs' (snd e) = Some (Regular content t) \<and>
      xx_hash X content 0 = stringToKey (path_stem (snd e))"
    unfolding names_valid_def by (metis imageI)
qed

lemma checkExistingEntries_ok:
  assumes "hash_ok X" "iteration_order order" "umap_ok fs" "umap_find fs (m_cachePath c) = Some NonRegular"
    and "sum_list (map (node_bytes \<circ> snd) fs) < 2 ^ 64"
  shows "\<exists>c' fs'. checkExistingEntries X opens order validate c fs = Inr (c', fs') \<and> cache_ok c' fs' \<and>
    m_currentSize c' \<le> m_maxSize c \<and> (validate \<longrightarrow> names_valid X c' fs')"
proof -
  let ?dir = "filter (\<lambda>(q, _). path_parent q = m_cachePath c) fs"
  let ?es = "order ?dir"
  let ?c = "c\<lparr>m_currentSize := 0, m_timeQueue := [], m_extensionMap := []\<rparr>"
  note es = listed_entries [OF assms(2,3), of "\<lambda>(q, _). path_parent q = m_cachePath c"]
  have "started X validate ?c fs"
    by (simp add: started_def cache_ok_def fresh_def names_valid_def pq_ok_def queue_bytes_def)
  moreover obtain c1 fs1 where f: "fold (check_entry X opens validate) ?es (?c, fs) = (c1, fs1)" by fastforce
  ultimately have st: "started X validate c1 fs1" "m_maxSize c1 = m_maxSize c"
    using fold_check_entries [OF assms(1), of validate ?c fs ?es opens c1 fs1] es assms(5)
    by (simp_all add: queue_bytes_def)
  then have ok: "cache_ok c1 fs1" by (simp add: started_def)
  then have "queue_bytes fs1 (m_timeQueue c1) < 2 ^ 64" by (simp add: cache_ok_def)
  then have "\<exists>c' fs'. makeRoomFor 0 c1 fs1 = Inr (c', fs') \<and> cache_ok c' fs' \<and> m_currentSize c' + 0 \<le> m_maxSize c1 \<and>
      m_maxSize c' = m_maxSize c1 \<and> snd ` set (m_timeQueue c') \<subseteq> snd ` set (m_timeQueue c1) \<and>
      (\<forall>p. p \<in> snd ` set (m_timeQueue c') \<or> p \<notin> snd ` set (m_timeQueue c1) \<longrightarrow> umap_find fs' p = umap_find fs1 p)"
    by (intro makeRoomFor_ok [OF ok]) simp_all
  then obtain c' fs' where m: "makeRoomFor 0 c1 fs1 = Inr (c', fs')" "cache_ok c' fs'"
    "m_currentSize c' + 0 \<le> m_maxSize c1" "snd ` set (m_timeQueue c') \<subseteq> snd ` set (m_timeQueue c1)"
    "\<forall>p. p \<in> snd ` set (m_timeQueue c') \<or> p \<notin> snd ` set (m_timeQueue c1) \<longrightarrow> umap_find fs' p = umap_find fs1 p"
    by (elim exE conjE)
  have "names_valid X c' fs'" if validate
    using st(1) that by (intro names_valid_subset [OF _ m(4,5)]) (simp add: started_def)
  moreover have "checkExistingEntries X opens order validate c fs = Inr (c', fs')"
    using m(1) f assms(4) by (simp add: checkExistingEntries_def directory_def Let_def)
  ultimately show ?thesis using m(2,3) st(2) by simp
qed

end
