(* ===== verification/Network_Instances.thy ===== *)
theory Network_Instances
  imports Server_Network
begin

text \<open>
  Concrete libraries for the parameters of the network, so that properties which assume their
  laws have witnesses: a router and number parser as documented, a four-for-three encoder, and
  a hash with a streaming interface.
\<close>

section \<open>Numbers\<close>

definition read_dec :: "string \<Rightarrow> nat" where
  "read_dec s = foldl (\<lambda>n c. 10 * n + (of_char c - 48)) 0 s"

lemma read_dec_snoc: "read_dec (s @ [c]) = 10 * read_dec s + (of_char c - 48)"
  by (simp add: read_dec_def)

lemma read_dec_show_dec [simp]: "read_dec (show_dec n) = n"
proof (induction n rule: show_dec.induct)
  case (1 n)
  show ?case
  proof (cases "n < 10")
    case True
    then show ?thesis
      by (simp add: show_dec.simps [of n] read_dec_def of_char_digit_char)
  next
    case False
    with 1 show ?thesis
      by (simp add: show_dec.simps [of n] read_dec_snoc of_char_digit_char)
  qed
qed

section \<open>Base 64\<close>

text \<open>Every group of up to three bytes becomes four, the last telling how many there were.\<close>

fun pad_encode :: "bytes \<Rightarrow> bytes" where
  "pad_encode [] = []"
| "pad_encode [a] = [a, 0, 0, 1]"
| "pad_encode [a, b] = [a, b, 0, 2]"
| "pad_encode (a # b # c # r) = a # b # c # 3 # pad_encode r"

fun pad_decode :: "bytes \<Rightarrow> bytes" where
  "pad_decode (a # b # c # n # r) = take (unat n) [a, b, c] @ pad_decode r"
| "pad_decode _ = []"

lemma pad_decode_encode: "pad_decode (pad_encode bs) = bs"
  by (induction bs rule: pad_encode.induct) simp_all

lemma length_pad_encode: "length (pad_encode bs) = 4 * ((length bs + 2) div 3)"
proof (induction bs rule: pad_encode.induct)
  case (4 a b c r)
  have "(length r + 5) div 3 = Suc ((length r + 2) div 3)" by linarith
  with 4 show ?case by (simp add: add.commute)
qed simp_all

definition sample_http :: http_lib where
  "sample_http =
     \<lparr>router_match = (\<lambda>pat res. match_segments (segments pat) (segments res)),
      as_u64 = (\<lambda>s. Some (of_nat (read_dec s))),
      no_route = \<lparr>resp_code = Not_Found, resp_body = []\<rparr>,
      bad_param = \<lparr>resp_code = Internal_Server_Error, resp_body = []\<rparr>,
      b64_encode = pad_encode, b64_decode = pad_decode\<rparr>"

lemma sample_http_ok: "http_ok sample_http"
  by (simp add: http_ok_def sample_http_def pad_decode_encode length_pad_encode)

section \<open>The hash\<close>

definition sample_hash :: "u64 hash_lib" where
  "sample_hash =
     \<lparr>xx_hash = (\<lambda>bs seed. seed + of_nat (length bs) + 1), xx_reset = (\<lambda>seed. seed),
      xx_update = (\<lambda>h bs. h + of_nat (length bs)), xx_digest = (\<lambda>h. h + 1)\<rparr>"

lemma foldl_add_lengths:
  "foldl (\<lambda>h bs. h + of_nat (length bs)) h cs = (h :: u64) + of_nat (length (concat cs))"
  by (induction cs arbitrary: h) (simp_all add: algebra_simps)

lemma sample_hash_ok: "hash_ok sample_hash"
  by (simp add: hash_ok_def sample_hash_def foldl_add_lengths)

end
