(* ===== verification/File_Properties.thy ===== *)
theory File_Properties
  imports Cache_Spec Network_Instances
begin

text \<open>
  Files from one client to the server and back to the cache of another, with witnesses over
  the store in memory.
\<close>

section \<open>A file through the server\<close>

lemmas upload_to_server = server_files.upload_file [OF conjI [OF _ conjI]]

text \<open>
  C7: A file uploaded by one client comes back to another, byte for byte: a download with
  the size, the number of chunks and the extension recorded in the stored asset writes the
  same bytes under the asset's key, when the size is no multiple of the chunk size.
\<close>

theorem uploaded_file_comes_back:
  assumes "http_ok H" "hash_ok X" "flat_ok F" "opened ldb d"
    and "content \<noteq> []" "length content < 2 ^ 42" "\<not> kDataChunkSize dvd length content"
    and "ids \<noteq> []" "0 \<notin> set ids" "length ids \<le> kAssetMaxListEntries"
    and "tbl = file_table t name author deprecates ids ext key (length content)"
    and "key = xx_hash X content 0" "asset_fits tbl" "length (asset_bytes F tbl) \<le> 3069"
    and "postFileAsset H F X (server_net H ldb F now addr) \<lparr>m_serverAddress = addr\<rparr> t name author deprecates
        (join_ids ids) (steady_file ext content) d = Inr (posted, d')" "posted \<noteq> 0"
    and "path = m_cachePath c @ ''/'' @ keyToString key @ ext" "opens path"
  shows "posted = key \<and> view ldb d' (AssetKey key) = Some (asset_bytes F tbl) \<and>
    download H F X (server_net H ldb F later addr) \<lparr>m_serverAddress = addr\<rparr> opens time key
        (fa_size tbl) (fa_chunks tbl) ext c fs d' =
      Inr ((path, c\<lparr>m_currentSize := m_currentSize c + of_nat (length content),
                    m_timeQueue := pq_push (time, path) (m_timeQueue c),
                    m_extensionMap := umap_insert key ext (m_extensionMap c)\<rparr>,
            umap_assign path (Regular content time) fs), d')"
proof -
  obtain ok d1 where up: "postFileAsset H F X (server_net H ldb F now addr) \<lparr>m_serverAddress = addr\<rparr> t name author deprecates
      (join_ids ids) (steady_file ext content) d = Inr (if ok then key else 0, d1)" "opened ldb d1"
    "ok \<longrightarrow> view ldb d1 (AssetKey key) = Some (asset_bytes F tbl) \<and>
       chunks_stored F (\<lambda>n. view ldb d1 (DataKey key n)) 0 (tables_of X (xx_reset X 0) (chunks_of content))"
    using upload_to_server [OF assms(1,3,4,2,5,6,8-10,12,11,13,14), of now addr] by blast
  with assms(15,16) have ok: ok "posted = key" "d1 = d'" by (auto split: if_splits)
  then have at: "http_ok H \<and> flat_ok F \<and> opened ldb d'" using assms(1,3) up(2) by simp
  have "chunks_stored F (\<lambda>n. view ldb d' (DataKey key n)) 0 (tables_of X (xx_reset X 0) (chunks_of content))"
    using up(3) ok by simp
  from server_files.download_file [where opens = opens and path = path, OF at assms(2,5,6,7) this assms(11,12,17,18)] up(3) ok show ?thesis
    by simp
qed

text \<open>What a request for a chunk brings back is always the value of some record of the store.\<close>

lemma get_chunk_from_store:
  assumes "http_ok H" "opened ldb d"
    and "client_getAssetData H F (server_net H ldb F now addr) \<lparr>m_serverAddress = addr\<rparr> key n d = Inr ((k, m, rec), w)"
  shows "w = d \<and> (record_empty rec \<or>
    (\<exists>e \<in> set (ldb_entries ldb (the (m_database d))). rec = ClientRecord (SizedPointer (snd e)) \<and> data_valid F (snd e)))"
proof -
  have n: "as_u64 H (show_dec (unat n)) = Some n" using assms(1) by (simp add: http_ok_def)
  let ?it = "seek ldb (makeAssetDataKey key n) (the (m_database d))"
  show ?thesis
  proof (cases ?it)
    case Nil
    with assms n show ?thesis
      by (simp add: client_getAssetData_def http_send_server snprintf_u64 serve_routes [OF assms(1), simplified]
          http_getAssetData_def key_text.dec_enc send_record_def loadAssetDataChunk_def opened_ptr Let_def)
  next
    case (Cons e r)
    have e: "e \<in> set (ldb_entries ldb (the (m_database d)))"
      using Cons by (simp add: seek_def it_seek_def) (metis list.set_intros(1) set_dropWhileD)
    obtain k' bs where kb: "e = (k', bs)" by fastforce
    note sent = client_getAssetData_def http_send_server snprintf_u64 serve_routes [OF assms(1), simplified]
      http_getAssetData_def key_text.dec_enc send_record_def loadAssetDataChunk_def opened_ptr [OF assms(2)] Let_def
      respond_def received_def encode_page_def decode_page_def decode_encoded [OF assms(1)] n Cons kb
    have "w = d \<and> (record_empty rec \<or> rec = ClientRecord (SizedPointer bs) \<and> data_valid F bs)"
    proof (cases "length (b64_encode H bs) > kPageSize")
      case True
      with assms(3) show ?thesis by (auto simp: sent)
    next
      case False
      then have "\<not> length bs > kPageSize" using encoded_length [OF assms(1), of bs] by simp
      with False assms(3) show ?thesis by (cases "data_valid F bs") (auto simp: sent)
    qed
    then have "w = d \<and> (record_empty rec \<or> rec = ClientRecord (SizedPointer (snd e)) \<and> data_valid F (snd e))"
      by (simp add: kb)
    with e show ?thesis by blast
  qed
qed

lemma download_surplus_chunk:
  assumes "http_ok H" "opened ldb d" "n + 1 < 2 ^ 31" "hash_ok X"
    and "\<forall>e \<in> set (ldb_entries ldb (the (m_database d))). data_valid F (snd e) \<longrightarrow>
      (\<forall>x. fd_data (data_root F (snd e)) = Some x \<longrightarrow> 0 < length x \<and> length x \<le> kPageSize)"
    and "download_loop H F X (server_net H ldb F now addr) \<lparr>m_serverAddress = addr\<rparr> key (n + 1) n
        (file_downloaded X content) d = Inr (s, w)"
  shows "dl_ok s \<longrightarrow> (of_nat (length (dl_written s)) :: u64) \<noteq> of_nat (length content)"
proof -
  obtain rec w1 s1 where step: "client_getAssetData H F (server_net H ldb F now addr) \<lparr>m_serverAddress = addr\<rparr> key (of_nat n) d
      = Inr ((key, of_nat n, rec), w1)"
    "chunk_callback F X rec (file_downloaded X content) = Inr s1" "s = s1"
    using assms(3,6) by (subst (asm) download_loop.simps)
      (auto simp: fault_simps download_loop_end client_getAssetData_def Let_def split: if_splits)
  show ?thesis
  proof (cases "record_empty rec")
    case True
    with step show ?thesis by (auto simp: chunk_callback_def)
  next
    case False
    then obtain e where e: "e \<in> set (ldb_entries ldb (the (m_database d)))"
      "rec = ClientRecord (SizedPointer (snd e))" "data_valid F (snd e)"
      using get_chunk_from_store [OF assms(1,2) step(1)] by blast
    obtain x where x: "fd_data (data_root F (snd e)) = Some x"
      using step(2) e by (cases "fd_data (data_root F (snd e))") (auto simp: chunk_callback_def GetFlatAssetData_def)
    with assms(5) e have len: "0 < length x" "length x \<le> kPageSize" by blast+
    have "dl_ok s \<longrightarrow> dl_written s = content @ x"
      using step(2,3) e x by (auto simp: chunk_callback_def GetFlatAssetData_def file_downloaded_def Let_def split: if_splits)
    moreover have "(of_nat (length x) :: u64) \<noteq> 0"
    proof -
      have "length x < 2 ^ 64" using len(2) by (simp add: kPageSize_def)
      with len(1) show ?thesis using of_nat_less_0 [of x] by (metis length_greater_0_conv word_gt_0)
    qed
    ultimately show ?thesis by auto
  qed
qed

text \<open>
  C35: A file whose size is a multiple of the chunk size can be uploaded but not downloaded:
  the number of chunks recorded is one too many, the request for the surplus chunk brings
  back another record or nothing, and the download reports failure.
\<close>

theorem whole_chunks_never_downloaded:
  assumes "http_ok H" "hash_ok X" "flat_ok F" "opened ldb d"
    and "content \<noteq> []" "length content < 2 ^ 42" "kDataChunkSize dvd length content"
    and "ids \<noteq> []" "0 \<notin> set ids" "length ids \<le> kAssetMaxListEntries"
    and "tbl = file_table t name author deprecates ids ext key (length content)"
    and "key = xx_hash X content 0" "asset_fits tbl" "length (asset_bytes F tbl) \<le> 3069"
    and "postFileAsset H F X (server_net H ldb F now addr) \<lparr>m_serverAddress = addr\<rparr> t name author deprecates
        (join_ids ids) (steady_file ext content) d = Inr (posted, d')" "posted \<noteq> 0"
    and "\<forall>e \<in> set (ldb_entries ldb (the (m_database d'))). data_valid F (snd e) \<longrightarrow>
      (\<forall>x. fd_data (data_root F (snd e)) = Some x \<longrightarrow> 0 < length x \<and> length x \<le> kPageSize)"
  shows "view ldb d' (AssetKey key) = Some (asset_bytes F tbl) \<and>
    \<not> (\<exists>path c' fs' w. download H F X (server_net H ldb F later addr) \<lparr>m_serverAddress = addr\<rparr> opens time key
        (fa_size tbl) (fa_chunks tbl) ext c fs d' = Inr ((path, c', fs'), w) \<and> path \<noteq> [])"
proof -
  obtain ok d1 where up: "postFileAsset H F X (server_net H ldb F now addr) \<lparr>m_serverAddress = addr\<rparr> t name author deprecates
      (join_ids ids) (steady_file ext content) d = Inr (if ok then key else 0, d1)" "opened ldb d1"
    "ok \<longrightarrow> view ldb d1 (AssetKey key) = Some (asset_bytes F tbl) \<and>
       chunks_stored F (\<lambda>n. view ldb d1 (DataKey key n)) 0 (tables_of X (xx_reset X 0) (chunks_of content))"
    using upload_to_server [OF assms(1,3,4,2,5,6,8-10,12,11,13,14), of now addr] by blast
  with assms(15,16) have ok: ok "d1 = d'" by (auto split: if_splits)
  have n: "length content div kDataChunkSize + 1 = length (chunks_of content) + 1"
    using recorded_chunks [of content] assms(7) by simp
  have chunks: "unat (fa_chunks tbl) = length (chunks_of content) + 1"
    using recorded_chunks_u64 [OF assms(6)] unfolding n by (simp only: assms(11) file_table_def flat_asset.select_convs n)
  have size: "fa_size tbl = of_nat (length content)" by (simp add: assms(11) file_table_def)
  have opened: "opened ldb d'" using up(2) ok by simp
  then have at: "http_ok H \<and> flat_ok F \<and> opened ldb d'" using assms(1,3) by simp
  have "download_loop H F X (server_net H ldb F later addr) \<lparr>m_serverAddress = addr\<rparr> key (length (chunks_of content) + 1) 0
      \<lparr>dl_written = [], dl_digest = 0, dl_hash = xx_reset X 0, dl_ok = True\<rparr> d' =
    download_loop H F X (server_net H ldb F later addr) \<lparr>m_serverAddress = addr\<rparr> key (length (chunks_of content) + 1)
      (length (chunks_of content)) (file_downloaded X content) d'"
    using server_files.download_all_chunks [OF at assms(2,5,6)] up(3) ok by (auto simp: nothing_downloaded_def)
  with download_surplus_chunk [OF assms(1) opened few_chunks [OF assms(6)] assms(2,17), of later addr key content]
  have "\<not> dl_ok s \<or> fa_size tbl \<noteq> of_nat (length (dl_written s))"
    if "download_loop H F X (server_net H ldb F later addr) \<lparr>m_serverAddress = addr\<rparr> key (length (chunks_of content) + 1) 0
      \<lparr>dl_written = [], dl_digest = 0, dl_hash = xx_reset X 0, dl_ok = True\<rparr> d' = Inr (s, w)" for s w
    using that size by fastforce
  then show ?thesis
    using up(3) ok by (auto simp: download_def chunks fault_simps Let_def split: if_splits)
qed

section \<open>Witnesses\<close>

definition sample_cache :: cache_manager where
  "sample_cache = new_CacheManager ''c'' 4"

definition sample_table :: flat_asset where
  "sample_table = file_table kSample ''a'' 0 0 [5] ''.wav'' 4 3"

lemma sample_writes: "writes_succeed mem_store"
  by (simp add: writes_succeed_def mem_store_def)

lemma length_esc: "length (esc bs) = 2 * length bs + 1"
  by (induction bs) simp_all

lemma sample_table_fits:
  "asset_fits sample_table" "length (asset_bytes plain_flat sample_table) \<le> 3069"
  by (simp_all add: sample_table_def file_table_def asset_fits_def opt_length_def plain_asset_def put_opt_def length_esc)

lemma uploaded_file_comes_back_witness:
  "\<exists>d'. postFileAsset sample_http plain_flat sample_hash (server_net sample_http mem_store plain_flat 1 ''s'')
       \<lparr>m_serverAddress = ''s''\<rparr> kSample ''a'' 0 0 (join_ids [5]) (steady_file ''.wav'' [1, 2, 3]) (memory_db []) = Inr (4, d') \<and>
     download sample_http plain_flat sample_hash (server_net sample_http mem_store plain_flat 2 ''s'')
       \<lparr>m_serverAddress = ''s''\<rparr> (\<lambda>_. True) 9 4 3 1 ''.wav'' sample_cache [(''c'', NonRegular)] d' =
     Inr ((''c/'' @ keyToString 4 @ ''.wav'',
       sample_cache\<lparr>m_currentSize := 3, m_timeQueue := [(9, ''c/'' @ keyToString 4 @ ''.wav'')], m_extensionMap := [(4, ''.wav'')]\<rparr>,
       [(''c'', NonRegular), (''c/'' @ keyToString 4 @ ''.wav'', Regular [1, 2, 3] 9)]), d')"
proof -
  have key: "4 = xx_hash sample_hash [1, 2, 3] 0" by (simp add: sample_hash_def)
  have len: "([1, 2, 3] :: bytes) \<noteq> []" "length ([1, 2, 3] :: bytes) < 2 ^ 42" "\<not> kDataChunkSize dvd length ([1, 2, 3] :: bytes)"
    by (auto simp: kDataChunkSize_val dest: dvd_imp_le)
  have ids: "[5] \<noteq> ([] :: u64 list)" "0 \<notin> set [5 :: u64]" "length [5 :: u64] \<le> kAssetMaxListEntries"
    by (simp_all add: kAssetMaxListEntries_def)
  have tbl: "sample_table = file_table kSample ''a'' 0 0 [5] ''.wav'' 4 (length ([1, 2, 3] :: bytes))"
    by (simp add: sample_table_def numeral_3_eq_3)
  obtain d' where up: "postFileAsset sample_http plain_flat sample_hash (server_net sample_http mem_store plain_flat 1 ''s'')
       \<lparr>m_serverAddress = ''s''\<rparr> kSample ''a'' 0 0 (join_ids [5]) (steady_file ''.wav'' [1, 2, 3]) (memory_db []) = Inr (4, d')"
    using upload_to_server [OF sample_http_ok plain_flat_ok memory_opened sample_hash_ok len(1,2) ids key tbl
        sample_table_fits, of 1 "''s''" "[]"] sample_writes by auto
  have "fa_size sample_table = 3" "fa_chunks sample_table = 1"
    by (simp_all add: sample_table_def file_table_def kDataChunkSize_val)
  with uploaded_file_comes_back [OF sample_http_ok sample_hash_ok plain_flat_ok memory_opened len ids tbl key
      sample_table_fits up _ refl, of "\<lambda>_. True" sample_cache 2 9 "[(''c'', NonRegular)]"] up
  show ?thesis
    by (simp add: sample_cache_def new_CacheManager_def umap_insert_def)
qed

section \<open>A file of one whole chunk\<close>

definition whole_chunk :: bytes where "whole_chunk = replicate 2877 1"

definition whole_key :: u64 where "whole_key = 2878"

definition whole_table :: flat_asset where
  "whole_table = file_table kSample ''a'' 0 0 [5] ''.wav'' whole_key 2877"

definition whole_batch :: mem where
  "whole_batch = [(of_chars ''naa'', le_bytes whole_key), (listEntryKey 5 1 whole_key, []),
     (makeAssetKey whole_key, plain_asset whole_table)]"

definition whole_db :: "mem asset_database" where
  "whole_db = memory_db ((makeAssetDataKey whole_key 0, plain_data \<lparr>fd_data = Some whole_chunk, fd_hash = whole_key\<rparr>) #
     rev whole_batch)"

lemma whole_chunk_facts:
  "length whole_chunk = 2877" "whole_chunk \<noteq> []" "whole_key = xx_hash sample_hash whole_chunk 0"
  by (simp_all add: whole_chunk_def whole_key_def sample_hash_def)

lemma whole_table_fits:
  "asset_fits whole_table" "length (asset_bytes plain_flat whole_table) \<le> 3069"
  by (simp_all add: whole_table_def file_table_def asset_fits_def opt_length_def plain_asset_def put_opt_def length_esc)

lemma whole_asset_stored:
  "storeAsset mem_store plain_flat 1 whole_key (SizedPointer (plain_asset whole_table)) (memory_db []) =
     Inr (True, memory_db (rev whole_batch))"
  by (simp add: storeAsset_def GetFlatAsset_def whole_batch_def whole_table_def file_table_def name_entry_def
      kAssetNamePrefix_def kListEntryKeySize_def kAssetMaxListEntries_def Let_def)

lemma whole_chunk_uploaded:
  "upload_loop sample_http plain_flat sample_hash (server_net sample_http mem_store plain_flat 1 ''s'')
     \<lparr>m_serverAddress = ''s''\<rparr> whole_key True \<lparr>st_rest = whole_chunk, st_good = True\<rparr> 2877 0 0 0
     (memory_db (rev whole_batch)) = Inr ((True, 0, whole_key), whole_db)"
proof -
  let ?t = "\<lparr>fd_data = Some whole_chunk, fd_hash = whole_key\<rparr>"
  have "length whole_chunk \<le> kDataChunkSize" by (simp add: whole_chunk_facts kDataChunkSize_val)
  note fits = chunk_table_fits [OF plain_flat_ok this, of whole_key]
  have "storeAssetDataChunk mem_store whole_key 0 (SizedPointer (data_bytes plain_flat ?t)) (memory_db (rev whole_batch)) =
      Inr (True, whole_db)"
    by (simp add: storeAssetDataChunk_def whole_db_def)
  with post_chunk [OF sample_http_ok fits(1,2) memory_opened [of "rev whole_batch"], of 1 "''s''" whole_key 0]
  have post: "client_post sample_http (server_net sample_http mem_store plain_flat 1 ''s'')
      (''s'' @ ''/asset/data/'' @ keyToString whole_key @ ''/'' @ snprintf 32 (show_dec (unat (0 :: u64))))
      (data_bytes plain_flat ?t) (memory_db (rev whole_batch)) = Inr (True, whole_db)"
    by auto
  have hash: "sample_hash\<lparr>xx_hash := xx_hash sample_hash\<rparr> = sample_hash" by simp
  have upd: "xx_update sample_hash 0 whole_chunk = 2877" "xx_digest sample_hash 2877 = whole_key"
    by (simp_all add: sample_hash_def whole_chunk_facts whole_key_def)
  have read: "stream_read 2877 \<lparr>st_rest = whole_chunk, st_good = True\<rparr> = (whole_chunk, \<lparr>st_rest = [], st_good = True\<rparr>)"
    by (simp add: stream_read_def whole_chunk_facts)
  have m: "min (of_nat kDataChunkSize) (2877 :: u64) = 2877" by (simp add: kDataChunkSize_val)
  show ?thesis
    using post
    by (subst upload_loop.simps) (simp add: m read upd whole_chunk_facts(1) upload_loop.simps [of _ _ _ _ _ _ _ _ 0] Let_def)
qed

lemma whole_chunk_posted:
  "postFileAsset sample_http plain_flat sample_hash (server_net sample_http mem_store plain_flat 1 ''s'')
    \<lparr>m_serverAddress = ''s''\<rparr> kSample ''a'' 0 0 (join_ids [5]) (steady_file ''.wav'' whole_chunk) (memory_db []) =
   Inr (whole_key, whole_db)"
proof -
  have root: "asset_root plain_flat (plain_asset whole_table) = whole_table" by simp
  have "fa_lists whole_table = Some [5]" "length [5 :: u64] \<le> kAssetMaxListEntries"
    by (simp_all add: whole_table_def file_table_def kAssetMaxListEntries_def)
  then have post: "client_post sample_http (server_net sample_http mem_store plain_flat 1 ''s'')
      (''s'' @ ''/asset/id/'' @ keyToString whole_key) (plain_asset whole_table) (memory_db []) = Inr (True, memory_db (rev whole_batch))"
    using post_asset [OF sample_http_ok whole_table_fits(2), where F = plain_flat and ids = "[5]" and ldb = mem_store and d = "memory_db []" and now = 1
        and addr = "''s''" and key = whole_key]
    by (auto simp: whole_asset_stored)
  have hash: "hash_file sample_hash 2877 whole_chunk = Some whole_key"
    using hash_file_eq [OF sample_hash_ok, of whole_chunk] by (simp add: whole_chunk_facts)
  have "length whole_chunk < 2 ^ 64" by (simp add: whole_chunk_facts)
  note flat = file_asset_flat [OF this, where ids = "[5]" and ext = "''.wav''" and name = "''a''" and author = 0 and
      deprecates = 0 and key = whole_key and t = kSample, unfolded whole_chunk_facts(1), folded whole_table_def]
  show ?thesis
    using post flat whole_chunk_uploaded
    by (simp add: postFileAsset_def steady_file_def whole_chunk_facts(1) hash Let_def sample_hash_def [THEN arg_cong [where f = xx_reset]])
qed

lemma whole_db_data:
  "\<forall>e \<in> set (ldb_entries mem_store (the (m_database whole_db))). data_valid plain_flat (snd e) \<longrightarrow>
     (\<forall>x. fd_data (data_root plain_flat (snd e)) = Some x \<longrightarrow> 0 < length x \<and> length x \<le> kPageSize)"
proof
  fix e assume "e \<in> set (ldb_entries mem_store (the (m_database whole_db)))"
  then have "snd e = plain_data \<lparr>fd_data = Some whole_chunk, fd_hash = whole_key\<rparr> \<or> snd e = plain_asset whole_table \<or>
      snd e = [] \<or> snd e = le_bytes whole_key"
    using mem_entries_subset by (fastforce simp: whole_db_def memory_db_def whole_batch_def)
  moreover have "fd_data (plain_data_root (le_bytes whole_key)) = None"
    using get_u64_le_bytes [of whole_key "[]"] by (simp add: plain_data_root_def)
  moreover have "\<not> data_valid plain_flat []"
  proof
    assume "data_valid plain_flat []"
    then have "length (plain_data (plain_data_root [])) = 0" by (simp add: plain_flat_def)
    then show False by (simp add: plain_data_def split: option.splits)
  qed
  moreover have "\<not> data_valid plain_flat (plain_asset whole_table)"
  proof -
    have "le_bytes whole_key = 62 # tl (le_bytes whole_key)" by code_simp
    then have "\<exists>r. plain_asset whole_table = le_bytes (ucast kSample) @ 62 # r"
      by (simp add: plain_asset_def whole_table_def file_table_def) (metis append_Cons)
    then obtain r where "plain_asset whole_table = le_bytes (ucast kSample) @ 62 # r" by blast
    then show ?thesis by (simp add: plain_flat_def plain_data_root_def plain_data_def)
  qed
  ultimately show "data_valid plain_flat (snd e) \<longrightarrow>
     (\<forall>x. fd_data (data_root plain_flat (snd e)) = Some x \<longrightarrow> 0 < length x \<and> length x \<le> kPageSize)"
    by (auto simp: whole_chunk_facts kPageSize_def plain_flat_def)
qed

lemma whole_chunks_never_downloaded_witness:
  "\<not> (\<exists>path c' fs' w. download sample_http plain_flat sample_hash (server_net sample_http mem_store plain_flat 2 ''s'')
       \<lparr>m_serverAddress = ''s''\<rparr> (\<lambda>_. True) 9 whole_key 2877 2 ''.wav'' sample_cache [(''c'', NonRegular)] whole_db =
     Inr ((path, c', fs'), w) \<and> path \<noteq> [])"
proof -
  have len: "whole_chunk \<noteq> []" "length whole_chunk < 2 ^ 42" "kDataChunkSize dvd length whole_chunk"
    by (simp_all add: whole_chunk_facts kDataChunkSize_val)
  have ids: "[5] \<noteq> ([] :: u64 list)" "0 \<notin> set [5 :: u64]" "length [5 :: u64] \<le> kAssetMaxListEntries"
    by (simp_all add: kAssetMaxListEntries_def)
  have tbl: "whole_table = file_table kSample ''a'' 0 0 [5] ''.wav'' whole_key (length whole_chunk)"
    by (simp add: whole_table_def whole_chunk_facts)
  have "fa_size whole_table = 2877" "fa_chunks whole_table = 2" "whole_key \<noteq> 0"
    by (simp_all add: whole_table_def file_table_def kDataChunkSize_val whole_key_def)
  with whole_chunks_never_downloaded [OF sample_http_ok sample_hash_ok plain_flat_ok memory_opened len ids tbl
      whole_chunk_facts(3) whole_table_fits whole_chunk_posted _ whole_db_data, of 2 "\<lambda>_. True" 9]
  show ?thesis by simp
qed

end
