(* ===== verification/Cache_Properties.thy ===== *)
theory Cache_Properties
  imports File_Properties
begin

text \<open>
  What the cache promises about the files it takes in, keeps and removes, and where it does
  not keep its word, with a witness for each property.
\<close>

section \<open>Downloads\<close>

text \<open>
  C20: Whatever the network answers, a file the cache takes in is what its key says: its
  content has the hash that is its key and the recorded size. Room is never made for it: the
  recorded size of the cache grows by the file's, whatever the limit is.
\<close>

theorem downloaded_file_matches_key:
  assumes "hash_ok X" "key \<noteq> 0"
    and "download H F X net hc opens now key fileSize chunks ext c fs w = Inr ((path, c', fs'), w')" "path \<noteq> []"
  shows "path = m_cachePath c @ ''/'' @ keyToString key @ ext \<and>
    (\<exists>content. umap_find fs' path = Some (Regular content now) \<and> xx_hash X content 0 = key \<and>
       of_nat (length content) = fileSize) \<and>
    (\<forall>p. p \<noteq> path \<longrightarrow> umap_find fs' p = umap_find fs p) \<and>
    m_currentSize c' = m_currentSize c + fileSize \<and> m_maxSize c' = m_maxSize c"
proof -
  obtain content where r: "path = m_cachePath c @ ''/'' @ keyToString key @ ext"
    "fs' = umap_assign path (Regular content now) fs" "xx_hash X content 0 = key" "of_nat (length content) = fileSize"
    "c' = c\<lparr>m_currentSize := m_currentSize c + fileSize, m_timeQueue := pq_push (now, path) (m_timeQueue c),
           m_extensionMap := umap_insert key ext (m_extensionMap c)\<rparr>"
    using download_result [OF assms] by blast
  then show ?thesis by (simp add: umap.find_assign)
qed

section \<open>The directory and its records\<close>


text \<open>
  C21: Making room always ends with enough room, and it removes the files written or used
  last: no file that stays is younger than one that goes. The header promises the opposite,
  the removal of the oldest.
\<close>

theorem newest_evicted_first:
  assumes "cache_ok c fs" "fresh c fs" "unat added \<le> unat (m_maxSize c)"
    and "queue_bytes fs (m_timeQueue c) + unat added < 2 ^ 64"
  shows "\<exists>c' fs'. makeRoomFor added c fs = Inr (c', fs') \<and> cache_ok c' fs' \<and>
    m_currentSize c' + added \<le> m_maxSize c \<and>
    (\<forall>gone \<in> set (m_timeQueue c) - set (m_timeQueue c'). umap_find fs' (snd gone) = None \<and>
       (\<forall>stays \<in> set (m_timeQueue c'). fst stays \<le> fst gone))"
proof -
  let ?q = "m_timeQueue c"
  obtain k c' fs' where m: "makeRoomFor added c fs = Inr (c', fs')" "m_timeQueue c' = drop k ?q"
    "\<forall>p \<in> snd ` set (take k ?q). umap_find fs' p = None"
    using makeRoomFor_fresh [OF assms(1,3,4)] assms(2) by blast
  have "cache_ok c' fs'" "m_currentSize c' + added \<le> m_maxSize c"
    using makeRoomFor_ok [OF assms(1,3,4)] m(1) by auto
  moreover have "umap_find fs' (snd gone) = None" "\<forall>stays \<in> set (drop k ?q). fst stays \<le> fst gone"
    if "gone \<in> set ?q - set (drop k ?q)" for gone
  proof -
    have "set ?q = set (take k ?q) \<union> set (drop k ?q)" by (metis append_take_drop_id set_append)
    with that have gone: "gone \<in> set (take k ?q)" by blast
    with m(3) show "umap_find fs' (snd gone) = None" by blast
    have "sorted_wrt (\<lambda>x y. \<not> time_path_less x y) (take k ?q @ drop k ?q)"
      using assms(1) by (simp add: cache_ok_def pq_ok_def)
    with gone show "\<forall>stays \<in> set (drop k ?q). fst stays \<le> fst gone"
      by (auto simp: sorted_wrt_append time_path_less_def not_less simp del: append_take_drop_id)
  qed
  ultimately show ?thesis using m(1,2) by auto
qed

lemma path_filename_suffix:
  assumes "CHR ''/'' \<notin> set s"
  shows "length s \<le> length (path_filename (p @ s))"
proof -
  have "takeWhile (\<lambda>c. c \<noteq> CHR ''/'') (rev s @ rev p) = rev s @ takeWhile (\<lambda>c. c \<noteq> CHR ''/'') (rev p)"
    by (rule takeWhile_append2) (use assms in auto)
  then show ?thesis by (simp add: path_filename_def)
qed

text \<open>
  A downloaded file is not found by the next lookup: \<open>checkCache\<close> joins the directory and
  the file name without the separator that \<open>download\<close> puts between them, so it touches a path
  outside the directory and throws.
\<close>

lemma lookup_after_download_throws:
  assumes "download H F X net hc opens now key fileSize chunks ext c fs w = Inr ((path, c', fs'), w')" "path \<noteq> []"
    and "umap_find (m_extensionMap c) key = None" "m_cachePath c \<noteq> []" "CHR ''/'' \<notin> set ext"
    and "\<forall>p. umap_find fs p \<noteq> None \<longrightarrow> p = m_cachePath c \<or> path_parent p = m_cachePath c"
  shows "checkCache later key c' fs' = Inl FilesystemError"
proof -
  let ?name = "keyToString key @ ext" and ?dir = "m_cachePath c"
  have d: "path = ?dir @ ''/'' @ ?name" "m_cachePath c' = ?dir"
    "m_extensionMap c' = umap_insert key ext (m_extensionMap c)" "\<exists>t. fs' = umap_assign path t fs"
    using assms(1,2) by (auto simp: download_def Let_def fault_simps split: if_splits)
  have "CHR ''/'' \<notin> set ?name" using assms(5) keyToString_no_slash by simp
  from path_filename_suffix [OF this, of ?dir]
  have "length (path_parent (?dir @ ?name)) < length ?dir"
    using assms(4) by (cases ?dir) (auto simp: path_parent_def)
  then have "path_parent (?dir @ ?name) \<noteq> ?dir" by auto
  moreover have "?dir @ ?name \<noteq> ?dir" by simp
  ultimately have "umap_find fs (?dir @ ?name) = None" using assms(6) by blast
  moreover have "?dir @ ?name \<noteq> path" by (simp add: d(1) del: same_append_eq)
  ultimately have "umap_find fs' (?dir @ ?name) = None"
    using d(4) by (auto simp: umap.find_assign)
  then show ?thesis
    using d(2,3) assms(3) by (simp add: checkCache_def umap_insert_def umap.find_assign fs_touch_def)
qed

section \<open>Witnesses\<close>

definition sample_dir :: fs where
  "sample_dir = [(''c'', NonRegular), (''c/0000000000000004.wav'', Regular [1, 2, 3] 7),
     (''c/0000000000000003.wav'', Regular [8, 9] 6)]"


definition full_cache :: cache_manager where
  "full_cache = sample_cache\<lparr>m_currentSize := 5,
     m_timeQueue := [(7, ''c/0000000000000004.wav''), (6, ''c/0000000000000003.wav'')]\<rparr>"

lemma full_cache_ok: "cache_ok full_cache sample_dir \<and> fresh full_cache sample_dir"
  by (simp add: cache_ok_def fresh_def pq_ok_def full_cache_def sample_dir_def time_path_less_def is_file_def
      queue_bytes_def file_bytes_def fs_last_write_time_def)

lemma newest_evicted_first_witness:
  "\<exists>c' fs'. makeRoomFor 0 full_cache sample_dir = Inr (c', fs') \<and> cache_ok c' fs' \<and>
    m_currentSize c' + 0 \<le> m_maxSize full_cache \<and>
    (\<forall>gone \<in> set (m_timeQueue full_cache) - set (m_timeQueue c'). umap_find fs' (snd gone) = None \<and>
       (\<forall>stays \<in> set (m_timeQueue c'). fst stays \<le> fst gone))"
  using newest_evicted_first [of full_cache sample_dir 0] full_cache_ok
  by (simp add: full_cache_def sample_dir_def queue_bytes_def file_bytes_def)

text \<open>A network that answers every request with the table of one chunk.\<close>

definition one_chunk_net :: "unit network" where
  "one_chunk_net req w =
     (Some \<lparr>resp_code = Ok, resp_body = pad_encode (plain_data \<lparr>fd_data = Some [1, 2, 3], fd_hash = 4\<rparr>)\<rparr>, w)"

definition sample_download :: "u64 \<Rightarrow> fault + (string \<times> cache_manager \<times> fs) \<times> unit" where
  "sample_download fileSize = download sample_http plain_flat sample_hash one_chunk_net \<lparr>m_serverAddress = ''s''\<rparr> (\<lambda>_. True) 9
     4 fileSize 1 ''.wav'' sample_cache [(''c'', NonRegular)] ()"

lemma sample_download:
  "sample_download fileSize =
    (if fileSize = 3 then Inr ((''c/0000000000000004.wav'',
       sample_cache\<lparr>m_currentSize := 3, m_timeQueue := [(9, ''c/0000000000000004.wav'')], m_extensionMap := [(4, ''.wav'')]\<rparr>,
       [(''c'', NonRegular), (''c/0000000000000004.wav'', Regular [1, 2, 3] 9)]), ())
     else Inr (([], sample_cache, [(''c'', NonRegular)]), ()))"
proof -
  let ?bs = "plain_data \<lparr>fd_data = Some [1, 2, 3], fd_hash = 4\<rparr>"
  have page: "decode_page sample_http (pad_encode ?bs) = Inr ?bs"
    using length_plain_data [of "\<lparr>fd_data = Some [1, 2, 3], fd_hash = 4\<rparr>"]
    by (simp add: decode_page_def sample_http_def pad_decode_encode kPageSize_def opt_length_def)
  have key: "keyToString 4 = ''0000000000000004''" by code_simp
  show ?thesis
    by (simp add: sample_download_def download_def download_loop.simps [of _ _ _ _ _ _ _ 0] download_loop_end
      client_getAssetData_def http_send_def one_chunk_net_def received_def page chunk_callback_def GetFlatAssetData_def
      sample_hash_def key sample_cache_def new_CacheManager_def umap_insert_def fs_remove_def Let_def)
qed

lemma sample_download_ok:
  "sample_download 3 = Inr ((''c/0000000000000004.wav'',
     sample_cache\<lparr>m_currentSize := 3, m_timeQueue := [(9, ''c/0000000000000004.wav'')], m_extensionMap := [(4, ''.wav'')]\<rparr>,
     [(''c'', NonRegular), (''c/0000000000000004.wav'', Regular [1, 2, 3] 9)]), ())"
  by (simp add: sample_download)

lemma downloaded_file_matches_key_witness:
  "umap_find [(''c'', NonRegular), (''c/0000000000000004.wav'', Regular [1, 2, 3] 9)] ''c/0000000000000004.wav'' =
     Some (Regular [1, 2, 3] 9) \<and>
   (\<exists>content. xx_hash sample_hash content 0 = 4 \<and> of_nat (length content) = (3 :: u64))"
  using downloaded_file_matches_key [OF sample_hash_ok _ sample_download_ok [unfolded sample_download_def]] by auto

end
