(* ===== verification/Http_Properties.thy ===== *)
theory Http_Properties
  imports File_Properties AssetDatabase_Properties
begin

text \<open>
  The asset database as its clients see it through HTTP, with a witness for each property.
\<close>

section \<open>Requests keep the database well formed\<close>

lemma send_record_db: "send_record H rec d = Inr (r, d') \<Longrightarrow> d' = d"
  by (auto simp: send_record_def fault_simps respond_def split: if_splits)

lemma http_get_db:
  "http_getAsset H ldb F k d = Inr (r, d') \<Longrightarrow> d' = d"
  "http_getNamedAsset H ldb F body d = Inr (r, d') \<Longrightarrow> d' = d"
  "http_getAssetData H ldb k n d = Inr (r, d') \<Longrightarrow> d' = d"
  "http_getList H ldb k d = Inr (r, d') \<Longrightarrow> d' = d"
  "http_getNamedList H ldb body d = Inr (r, d') \<Longrightarrow> d' = d"
  "http_getListItems H ldb k n d = Inr (r, d') \<Longrightarrow> d' = d"
  unfolding http_getAsset_def http_getNamedAsset_def http_getAssetData_def http_getList_def
    http_getNamedList_def http_getListItems_def Let_def
  by (auto simp: fault_simps respond_def split: option.splits if_splits dest: send_record_db)

lemma status_response_db: "status_response ok d = Inr (r, d') \<Longrightarrow> d' = d"
  by (simp add: status_response_def respond_def)

lemma http_post_db:
  assumes "db_wf ldb F d"
  shows "http_postAsset H ldb F now k body d = Inr (r, d') \<Longrightarrow> db_wf ldb F d'"
    "http_postAssetData H ldb F k n body d = Inr (r, d') \<Longrightarrow> db_wf ldb F d'"
    "http_postList H ldb F k body d = Inr (r, d') \<Longrightarrow> db_wf ldb F d'"
  unfolding http_postAsset_def http_postAssetData_def http_postList_def Let_def
  using assms
  by (auto simp: fault_simps split: option.splits if_splits dest!: status_response_db
      dest: storeAsset_db_wf storeAssetDataChunk_db_wf storeList_db_wf)

text \<open>A server answers a sequence of requests, each at its time.\<close>

definition answer :: "http_lib \<Rightarrow> 'db leveldb \<Rightarrow> flat_lib \<Rightarrow> u64 \<times> http_request \<Rightarrow> 'db asset_database \<Rightarrow>
    fault + 'db asset_database" where
  "answer H ldb F req d = rbind (serve H ldb F (fst req) (snd req) d) (\<lambda>(r, d'). Inr d')"

lemma serve_db_wf:
  assumes "db_wf ldb F d" "serve H ldb F now req d = Inr (r, d')"
  shows "db_wf ldb F d'"
proof -
  have "db_wf ldb F d'" if "run_handler H ldb F now h binds body d = Inr (r, d')" for h binds body
    using that assms(1)
    by (cases h) (auto simp: run_handler_def dest: http_get_db intro: http_post_db)
  with assms show ?thesis
    by (auto simp: serve_def split: option.splits)
qed

text \<open>
  C3: No sequence of requests, whatever their resources and bodies, makes the database ill
  formed, as long as none of them brings the server down: what a handler stores has verified.
\<close>

theorem requests_keep_wf:
  assumes "rfold (answer H ldb F) reqs d = Inr d'" "db_wf ldb F d"
  shows "db_wf ldb F d'"
  using assms
proof (induction reqs arbitrary: d)
  case (Cons req reqs)
  then show ?case by (auto simp: answer_def fault_simps dest: serve_db_wf)
qed simp

section \<open>Assets\<close>

lemma send_found:
  assumes "http_ok H" "length bs \<le> 3069" "\<not> record_empty rec" "record_data rec = Inr (SizedPointer bs)"
  shows "send_record H rec d = Inr (\<lparr>resp_code = Ok, resp_body = b64_encode H bs\<rparr>, d)"
  using assms page_roundtrip(1) [OF assms(1,2)] by (simp add: send_record_def respond_def)

lemma received_page:
  assumes "http_ok H" "length bs \<le> 3069" "valid bs"
  shows "received H valid \<lparr>resp_code = Ok, resp_body = b64_encode H bs\<rparr> = Inr (ClientRecord (SizedPointer bs))"
  using page_roundtrip(3) [OF assms(1,2)] assms(3) by (simp add: received_def)

text \<open>
  C6: A lookup over the network is the lookup in the server's database: a missing asset is
  reported as an empty record, any other comes back byte for byte as the record at the end of
  its chain of deprecations, when the stored assets fit a page.
\<close>

theorem remote_lookup_is_local:
  assumes "http_ok H" "db_wf ldb F d" "\<forall>k bs. view ldb d (AssetKey k) = Some bs \<longrightarrow> length bs \<le> 3069"
    and "resolves ldb F d key r"
  shows "\<exists>rec. client_getAsset H F (server_net H ldb F now addr) \<lparr>m_serverAddress = addr\<rparr> key d = Inr ((key, rec), d) \<and>
    (case r of None \<Rightarrow> rec = EmptyRecord
     | Some k \<Rightarrow> (\<exists>bs. view ldb d (AssetKey k) = Some bs \<and> rec = ClientRecord (SizedPointer bs)))"
proof -
  note wf = db_wfD [OF assms(2)]
  obtain rec where rec: "findAsset ldb F key d = Inr rec" "found ldb d r rec"
    using findAsset_outcome(1) [OF wf(1,3) assms(4)] by blast
  note sent = client_getAsset_def http_send_server serve_routes [OF assms(1), simplified] http_getAsset_def
    key_text.dec_enc rec(1) Let_def
  show ?thesis
  proof (cases r)
    case None
    with rec(2) show ?thesis by (simp add: sent found_def send_record_def respond_def received_def)
  next
    case (Some k)
    with rec(2) obtain bs where bs: "view ldb d (AssetKey k) = Some bs" "\<not> record_empty rec"
      "record_data rec = Inr (SizedPointer bs)" by (auto simp: found_def)
    have page: "length bs \<le> 3069" "asset_valid F bs"
      using assms(3) wf(3) bs(1) by (auto simp: assets_verified_def)
    show ?thesis
      using Some bs(1) by (simp add: sent send_found [OF assms(1) page(1) bs(2,3)] received_page [where valid = "asset_valid F", OF assms(1) page])
  qed
qed

text \<open>The table of an inline asset.\<close>

definition inline_table :: "asset_type \<Rightarrow> string \<Rightarrow> u64 \<Rightarrow> u64 \<Rightarrow> u64 list \<Rightarrow> u64 \<Rightarrow> u64 \<Rightarrow> bytes \<Rightarrow> flat_asset" where
  "inline_table t name author deprecates ids salt key data =
     \<lparr>fa_type = t, fa_key = key, fa_name = (if name = [] then None else Some name), fa_fileExtension = None,
      fa_author = author, fa_deprecatedBy = 0, fa_deprecates = deprecates, fa_size = of_nat (length data),
      fa_chunks = 0, fa_lists = (if ids = [] then None else Some ids), fa_salt = salt, fa_inlineData = Some data\<rparr>"

lemma inline_flat:
  assumes "0 \<notin> set ids" "length data \<le> kSingleChunkDataSize"
  shows "flatten (setSize (of_nat (length data)) (fst (parseListIds (join_ids ids) (setKey key
      (setSalt salt (setDeprecates deprecates (setAuthor author (setName name (new_Asset t))))))))) (Some (data @ rest)) =
    Inr (inline_table t name author deprecates ids salt key data)"
proof -
  have "unat (of_nat (length data) :: u64) = length data"
    using assms(2) by (intro unat_of_nat64) (simp add: kSingleChunkDataSize_def)
  with assms show ?thesis
    by (simp add: parseListIds_ids flatten_eq inline_table_def setter_defs new_Asset_def copy_out_def)
qed

lemma postInlineAsset_eq:
  assumes "0 \<notin> set ids" "length data \<le> kSingleChunkDataSize" "key = xx_hash X data salt"
  shows "postInlineAsset H F X net hc salt t name author deprecates (join_ids ids) (of_nat (length data)) (data @ rest) w =
    rbind (client_post H net (m_serverAddress hc @ ''/asset/id/'' @ keyToString key)
        (asset_bytes F (inline_table t name author deprecates ids salt key data)) w)
      (\<lambda>(ok, w'). Inr (if ok then key else 0, w'))"
proof -
  have "unat (of_nat (length data) :: u64) = length data"
    using assms(2) by (intro unat_of_nat64) (simp add: kSingleChunkDataSize_def)
  moreover have "m_salt (setSalt salt (setDeprecates deprecates (setAuthor author (setName name (new_Asset t))))) = salt"
    by (simp add: setter_defs)
  ultimately show ?thesis
    using assms(2) inline_flat [OF assms(1,2), of key salt deprecates author name t rest]
    by (simp add: postInlineAsset_def copy_out_def Let_def assms(3) cong: if_cong)
qed

lemma inline_asset_found:
  assumes "http_ok H" "flat_ok F" "db_wf ldb F d"
    and "ids \<noteq> []" "0 \<notin> set ids" "length ids \<le> kAssetMaxListEntries"
    and "length data \<le> kSingleChunkDataSize" "key = xx_hash X data salt"
    and "tbl = inline_table t name author deprecates ids salt key data"
    and "asset_fits tbl" "length (asset_bytes F tbl) \<le> 3069"
    and "postInlineAsset H F X (server_net H ldb F now addr) \<lparr>m_serverAddress = addr\<rparr> salt t name author deprecates
        (join_ids ids) (of_nat (length data)) (data @ rest) d = Inr (posted, d')" "posted \<noteq> 0"
  shows "posted = key \<and>
    client_getAsset H F (server_net H ldb F later addr) \<lparr>m_serverAddress = addr\<rparr> key d' =
      Inr ((key, ClientRecord (SizedPointer (asset_bytes F tbl))), d') \<and>
    (name \<noteq> [] \<longrightarrow> client_getNamedAsset H F (server_net H ldb F later addr) \<lparr>m_serverAddress = addr\<rparr> name d' =
      Inr (ClientRecord (SizedPointer (asset_bytes F tbl)), d'))"
proof -
  let ?bs = "asset_bytes F tbl"
  have valid: "asset_valid F ?bs" "asset_root F ?bs = tbl"
    using assms(2,10) by (simp_all add: flat_ok_def)
  have "fa_lists (asset_root F ?bs) = Some ids" unfolding valid(2) using assms(4) by (simp add: assms(9) inline_table_def)
  from post_asset [OF assms(1,11) valid(1) this assms(6) db_wfD(1) [OF assms(3)], of now addr key]
  obtain ok d1 where p: "client_post H (server_net H ldb F now addr) (addr @ ''/asset/id/'' @ keyToString key) ?bs d = Inr (ok, d1)"
    "storeAsset ldb F now key (SizedPointer ?bs) d = Inr (ok, d1)" by blast
  have "posted = (if ok then key else 0)" "d1 = d'"
    using assms(12) p(1) unfolding postInlineAsset_eq [OF assms(5,7,8)] by (simp_all add: assms(9))
  with assms(13) p(2) have ok: "posted = key" "storeAsset ldb F now key (SizedPointer ?bs) d = Inr (True, d')"
    by (auto split: if_splits)
  have "fa_deprecatedBy (asset_root F ?bs) = 0" unfolding valid(2) by (simp add: assms(9) inline_table_def)
  from stored_asset_lookup [OF assms(3) ok(2) this] obtain rec where rec: "findAsset ldb F key d' = Inr rec"
    "\<not> record_empty rec" "record_data rec = Inr (SizedPointer ?bs)"
    "\<forall>n. fa_name tbl = Some n \<longrightarrow> n \<noteq> [] \<longrightarrow> findNamedAsset ldb F n d' = Inr rec"
    unfolding valid(2) by blast
  have named: "findNamedAsset ldb F name d' = Inr rec" if "name \<noteq> []"
    using rec(4) that by (simp add: assms(9) inline_table_def)
  note sent = http_send_server serve_routes [OF assms(1), simplified] key_text.dec_enc Let_def
    send_found [OF assms(1,11) rec(2,3)] received_page [where valid = "asset_valid F", OF assms(1,11) valid(1)]
  show ?thesis
    using ok(1) rec(1) named
    by (simp add: client_getAsset_def client_getNamedAsset_def http_getAsset_def http_getNamedAsset_def sent)
qed

text \<open>
  C9: An inline asset posted by one client is found by every other, by its key and by its
  name, with the fields it was posted with, when it is in a list, its table fits a page and
  the server could store it.
\<close>

theorem inline_asset_comes_back:
  assumes "http_ok H" "flat_ok F" "db_wf ldb F d"
    and "ids \<noteq> []" "0 \<notin> set ids" "length ids \<le> kAssetMaxListEntries"
    and "length data \<le> kSingleChunkDataSize" "key = xx_hash X data salt"
    and "tbl = inline_table t name author deprecates ids salt key data"
    and "asset_fits tbl" "length (asset_bytes F tbl) \<le> 3069"
    and "postInlineAsset H F X (server_net H ldb F now addr) \<lparr>m_serverAddress = addr\<rparr> salt t name author deprecates
        (join_ids ids) (of_nat (length data)) (data @ rest) d = Inr (posted, d')" "posted \<noteq> 0"
  shows "posted = key \<and>
    client_getAsset H F (server_net H ldb F later addr) \<lparr>m_serverAddress = addr\<rparr> key d' =
      Inr ((key, ClientRecord (SizedPointer (asset_bytes F tbl))), d') \<and>
    (name \<noteq> [] \<longrightarrow> client_getNamedAsset H F (server_net H ldb F later addr) \<lparr>m_serverAddress = addr\<rparr> name d' =
      Inr (ClientRecord (SizedPointer (asset_bytes F tbl)), d'))"
  by (rule inline_asset_found [OF assms])

text \<open>
  C36: Posting an asset that is in no list brings the server down: the handler verifies the
  table, and storing it reads the number of lists through a null pointer.
\<close>

theorem unlisted_asset_crashes_server:
  assumes "http_ok H" "flat_ok F" "length data \<le> kSingleChunkDataSize" "key = xx_hash X data salt"
    and "tbl = inline_table t name author deprecates [] salt key data"
    and "asset_fits tbl" "length (asset_bytes F tbl) \<le> 3069"
  shows "serve H ldb F now \<lparr>req_method = Post, req_resource = ''/asset/id/'' @ keyToString key,
      req_body = b64_encode H (asset_bytes F tbl)\<rparr> d = Inl NullDeref \<and>
    postInlineAsset H F X (server_net H ldb F now addr) \<lparr>m_serverAddress = addr\<rparr> salt t name author deprecates
      [] (of_nat (length data)) (data @ rest) d = Inl Terminated"
proof -
  let ?bs = "asset_bytes F tbl"
  have valid: "asset_valid F ?bs" "asset_root F ?bs = tbl"
    using assms(2,6) by (simp_all add: flat_ok_def)
  have "storeAsset ldb F now key (SizedPointer ?bs) d = Inl NullDeref"
    using valid by (simp add: storeAsset_def GetFlatAsset_def assms(5) inline_table_def Let_def)
  then have crash: "serve H ldb F now \<lparr>req_method = Post, req_resource = ''/asset/id/'' @ keyToString key,
      req_body = b64_encode H ?bs\<rparr> d = Inl NullDeref"
    using page_roundtrip [OF assms(1,7)] valid(1)
    by (simp only: serve_routes [OF assms(1)] http_postAsset_def key_text.dec_enc Let_def) simp
  moreover have "postInlineAsset H F X (server_net H ldb F now addr) \<lparr>m_serverAddress = addr\<rparr> salt t name author deprecates
      (join_ids []) (of_nat (length data)) (data @ rest) d = Inl Terminated"
    using crash page_roundtrip [OF assms(1,7)]
    by (subst postInlineAsset_eq [OF _ assms(3,4)])
      (simp_all add: client_post_def http_send_server assms(5) [symmetric])
  ultimately show ?thesis by simp
qed

section \<open>Lists\<close>

lemma length_pair_line: "length (pair_line p) = 34"
  by (simp add: pair_line_def)

lemma length_page_text: "length (concat (map pair_line ps)) = 34 * length ps"
  by (induction ps) (simp_all add: length_pair_line)

lemma page_after_nonempty:
  assumes "T \<noteq> kEndList" "(T, a) \<in> set items" "items = xs @ [(kEndList, kEndList)]" "n > 0"
  shows "page_after n T items \<noteq> []"
proof -
  have T: "(T, a) \<in> set xs" using assms by auto
  let ?rest = "dropWhile (\<lambda>p. fst p \<noteq> T) xs"
  have "dropWhile (\<lambda>p. fst p \<noteq> T) items = ?rest @ [(kEndList, kEndList)]"
    unfolding assms(3) using T by (subst dropWhile_append1) auto
  moreover have "?rest \<noteq> []" using T by (force simp: dropWhile_eq_Nil_conv)
  ultimately show ?thesis using assms(4) by (cases ?rest) (simp_all add: page_after_def)
qed


section \<open>Oversized requests\<close>

text \<open>
  C34: The server accepts requests of up to two pages but decodes their bodies into one: an
  encoded body of more than a page overruns the buffer of every handler that stores, before
  any verification.
\<close>

theorem oversized_body_overruns_page:
  assumes "http_ok H" "kPageSize < length bs" "length bs \<le> 6000"
  shows "length (b64_encode H bs) \<le> 2 * kPageSize \<and>
    serve H ldb F now \<lparr>req_method = Post, req_resource = ''/asset/id/'' @ keyToString key, req_body = b64_encode H bs\<rparr> d =
      Inl OutOfBounds \<and>
    serve H ldb F now \<lparr>req_method = Post, req_resource = ''/list/id/'' @ keyToString key, req_body = b64_encode H bs\<rparr> d =
      Inl OutOfBounds \<and>
    serve H ldb F now \<lparr>req_method = Post,
        req_resource = ''/asset/data/'' @ keyToString key @ ''/'' @ show_dec (unat (n :: u64)), req_body = b64_encode H bs\<rparr> d =
      Inl OutOfBounds"
proof -
  have "as_u64 H (show_dec (unat n)) = Some n" using assms(1) by (simp add: http_ok_def)
  moreover have "decode_page H (b64_encode H bs) = Inl OutOfBounds"
    using assms(2) by (simp add: decode_page_def decode_encoded [OF assms(1)])
  moreover have "length (b64_encode H bs) \<le> 2 * kPageSize"
    using assms(3) by (simp add: encoded_length [OF assms(1)] kPageSize_def)
  ultimately show ?thesis
    by (simp only: serve_routes [OF assms(1)] http_postAsset_def http_postList_def http_postAssetData_def Let_def) simp
qed

section \<open>Witnesses\<close>

lemma empty_wf: "db_wf mem_store plain_flat (memory_db [])"
  using empty_db_wf [OF mem_store_ok] by (simp add: memory_db_def empty_memory)

lemma requests_keep_wf_witness:
  "\<exists>d'. rfold (answer sample_http mem_store plain_flat)
       [(1, \<lparr>req_method = Post, req_resource = ''/asset/id/'' @ keyToString whole_key,
             req_body = b64_encode sample_http (plain_asset whole_table)\<rparr>)] (memory_db []) = Inr d' \<and>
     view mem_store d' (AssetKey whole_key) = Some (plain_asset whole_table) \<and> db_wf mem_store plain_flat d'"
proof -
  let ?req = "(1, \<lparr>req_method = Post, req_resource = ''/asset/id/'' @ keyToString whole_key,
             req_body = b64_encode sample_http (plain_asset whole_table)\<rparr>)"
  have page: "decode_page sample_http (b64_encode sample_http (plain_asset whole_table)) = Inr (plain_asset whole_table)"
    using page_roundtrip(3) [OF sample_http_ok] whole_table_fits(2) by simp
  have "serve sample_http mem_store plain_flat 1 (snd ?req) (memory_db []) =
      Inr (\<lparr>resp_code = Ok, resp_body = []\<rparr>, memory_db (rev whole_batch))"
    by (simp only: snd_conv serve_routes [OF sample_http_ok] http_postAsset_def key_text.dec_enc page Let_def)
      (simp add: whole_asset_stored status_response_def respond_def)
  then have run: "rfold (answer sample_http mem_store plain_flat) [?req] (memory_db []) = Inr (memory_db (rev whole_batch))"
    by (simp add: answer_def del: append.simps)
  moreover have "view mem_store (memory_db (rev whole_batch)) (AssetKey whole_key) = Some (plain_asset whole_table)"
    by (simp add: memory_view whole_batch_def)
  ultimately show ?thesis using requests_keep_wf [OF run empty_wf] by blast
qed

lemma plain_sample_length: "length (plain_asset (sample_asset k n)) \<le> 3069"
  by (simp add: plain_asset_def sample_asset_def flat_asset_default_def put_opt_def length_esc)

lemma remote_lookup_is_local_witness:
  "\<exists>bs. client_getAsset sample_http plain_flat (server_net sample_http mem_store plain_flat 1 ''s'') \<lparr>m_serverAddress = ''s''\<rparr>
      1 (memory_db chain_db) = Inr ((1, ClientRecord (SizedPointer bs)), memory_db chain_db)"
proof -
  have "\<forall>k bs. view mem_store (memory_db chain_db) (AssetKey k) = Some bs \<longrightarrow> length bs \<le> 3069"
    using plain_sample_length by (auto simp: chain_view split: if_splits)
  from remote_lookup_is_local [OF sample_http_ok chain_wf this chain_resolves, of 1 "''s''"] show ?thesis by auto
qed

definition inline_sample :: flat_asset where
  "inline_sample = inline_table kYAML ''b'' 0 0 [5] 7 10 (of_chars ''hi'')"

lemma inline_sample_fits:
  "asset_fits inline_sample" "length (asset_bytes plain_flat inline_sample) \<le> 3069"
  by (simp_all add: inline_sample_def inline_table_def asset_fits_def opt_length_def plain_asset_def put_opt_def length_esc)

lemma inline_sample_facts:
  "10 = xx_hash sample_hash (of_chars ''hi'') 7" "length (of_chars ''hi'') \<le> kSingleChunkDataSize"
  "[5] \<noteq> ([] :: u64 list)" "0 \<notin> set [5 :: u64]" "length [5 :: u64] \<le> kAssetMaxListEntries"
  by (simp_all add: sample_hash_def kSingleChunkDataSize_def kAssetMaxListEntries_def)

lemma inline_sample_posted:
  "\<exists>d'. postInlineAsset sample_http plain_flat sample_hash (server_net sample_http mem_store plain_flat 1 ''s'')
      \<lparr>m_serverAddress = ''s''\<rparr> 7 kYAML ''b'' 0 0 (join_ids [5]) (of_nat (length (of_chars ''hi''))) (of_chars ''hi'' @ [0])
      (memory_db []) = Inr (10, d')"
proof -
  have valid: "asset_valid plain_flat (asset_bytes plain_flat inline_sample)" by simp
  have lists: "fa_lists (asset_root plain_flat (asset_bytes plain_flat inline_sample)) = Some [5]"
    by simp (simp add: inline_sample_def inline_table_def)
  obtain d' where p: "client_post sample_http (server_net sample_http mem_store plain_flat 1 ''s'')
      (''s'' @ ''/asset/id/'' @ keyToString 10) (asset_bytes plain_flat inline_sample) (memory_db []) = Inr (True, d')"
    using post_asset [OF sample_http_ok inline_sample_fits(2) valid lists inline_sample_facts(5) memory_opened [of "[]"], of 1 "''s''" 10] sample_writes
    by auto
  then show ?thesis
    by (subst postInlineAsset_eq [OF inline_sample_facts(4,2,1)]) (simp add: inline_sample_def)
qed

lemma inline_asset_comes_back_witness:
  "\<exists>d'. postInlineAsset sample_http plain_flat sample_hash (server_net sample_http mem_store plain_flat 1 ''s'')
      \<lparr>m_serverAddress = ''s''\<rparr> 7 kYAML ''b'' 0 0 (join_ids [5]) 2 (of_chars ''hi'' @ [0]) (memory_db []) = Inr (10, d') \<and>
    client_getNamedAsset sample_http plain_flat (server_net sample_http mem_store plain_flat 2 ''s'')
      \<lparr>m_serverAddress = ''s''\<rparr> ''b'' d' = Inr (ClientRecord (SizedPointer (plain_asset inline_sample)), d')"
proof -
  obtain d' where up: "postInlineAsset sample_http plain_flat sample_hash (server_net sample_http mem_store plain_flat 1 ''s'')
      \<lparr>m_serverAddress = ''s''\<rparr> 7 kYAML ''b'' 0 0 (join_ids [5]) (of_nat (length (of_chars ''hi''))) (of_chars ''hi'' @ [0])
      (memory_db []) = Inr (10, d')"
    using inline_sample_posted by blast
  from inline_asset_comes_back [OF sample_http_ok plain_flat_ok empty_wf inline_sample_facts(3-5,2,1) inline_sample_def
      inline_sample_fits up, of 2] up
  show ?thesis by auto
qed

lemma unlisted_asset_crashes_server_witness:
  "postInlineAsset sample_http plain_flat sample_hash (server_net sample_http mem_store plain_flat 1 ''s'')
      \<lparr>m_serverAddress = ''s''\<rparr> 7 kYAML ''b'' 0 0 [] 2 (of_chars ''hi'' @ [0]) (memory_db []) = Inl Terminated"
proof -
  let ?t = "inline_table kYAML ''b'' 0 0 [] 7 10 (of_chars ''hi'')"
  have "asset_fits ?t" "length (asset_bytes plain_flat ?t) \<le> 3069"
    by (simp_all add: inline_table_def asset_fits_def opt_length_def plain_asset_def put_opt_def length_esc)
  from unlisted_asset_crashes_server [OF sample_http_ok plain_flat_ok inline_sample_facts(2,1) refl this, of mem_store 1 "memory_db []" "''s''" "[0]"]
  show ?thesis by (simp add: kSingleChunkDataSize_def)
qed


lemma oversized_body_overruns_page_witness:
  "serve sample_http mem_store plain_flat 1 \<lparr>req_method = Post, req_resource = ''/list/id/'' @ keyToString 3,
      req_body = pad_encode (replicate 5000 0)\<rparr> (memory_db []) = Inl OutOfBounds"
proof -
  have "kPageSize < length (replicate 5000 0 :: bytes)" "length (replicate 5000 0 :: bytes) \<le> 6000"
    by (simp_all add: kPageSize_def)
  from oversized_body_overruns_page [OF sample_http_ok this, of mem_store plain_flat 1 3 "memory_db []" 0]
  have "serve sample_http mem_store plain_flat 1 \<lparr>req_method = Post, req_resource = ''/list/id/'' @ keyToString 3,
      req_body = b64_encode sample_http (replicate 5000 0)\<rparr> (memory_db []) = Inl OutOfBounds" by blast
  then show ?thesis by (simp add: sample_http_def del: append.simps)
qed

end
