(* ===== verification/OscHandler.thy ===== *)
theory OscHandler
  imports CacheManager
begin

text \<open>
  \<open>src/confab/OscHandler.cpp\<close>: the OSC interface of the client program. A message is parsed
  into a task, the task calls the database, the HTTP client and the cache, and answers with
  at most one packet.

  The code starts every task with \<open>std::async\<close> and discards the future. The destructor of
  that future waits for the task, so tasks run one after the other, on the thread that
  received the message, and an exception a task throws is dropped with the future. Here a
  task is a function on the state; the two exceptions that can leave one, of a filesystem
  call and of a packet that outgrows its buffer, end it without an answer. Other faults end
  the program.
\<close>

section \<open>Messages\<close>

datatype osc_value = Osc_int int | Osc_string string | Osc_blob bytes | Osc_other

type_synonym osc_message = "string \<times> osc_value list"

datatype osc_error = MissingArgument | WrongArgumentType | ExcessArgument

text \<open>\<open>(arguments++)->AsString()\<close> and \<open>AsInt32()\<close>: the value and the arguments left.\<close>

fun as_string :: "osc_value list \<Rightarrow> osc_error + string \<times> osc_value list" where
  "as_string [] = Inl MissingArgument"
| "as_string (Osc_string s # as) = Inr (s, as)"
| "as_string (_ # as) = Inl WrongArgumentType"

fun as_int32 :: "osc_value list \<Rightarrow> osc_error + int \<times> osc_value list" where
  "as_int32 [] = Inl MissingArgument"
| "as_int32 (Osc_int i # as) = Inr (i, as)"
| "as_int32 (_ # as) = Inl WrongArgumentType"

fun at_end :: "osc_value list \<Rightarrow> osc_error + unit" where
  "at_end [] = Inr ()"
| "at_end (a # as) = Inl ExcessArgument"

text \<open>The tasks, with what their closures capture.\<close>

datatype osc_task =
    Find_asset u64
  | Find_named_asset string
  | Load_asset u64
  | Add_asset_file asset_type int string u64 u64 string string
  | Add_asset_string asset_type int string u64 u64 string string
  | Add_list string
  | Find_list string
  | Next_list u64 u64

section \<open>Parsing\<close>

definition parse_assetFind :: "osc_value list \<Rightarrow> osc_error + osc_task option" where
  "parse_assetFind as =
     rbind (as_string as) (\<lambda>(assetIdString, as).
     rbind (at_end as) (\<lambda>_.
       let assetKey = stringToKey assetIdString
       in Inr (if assetKey = 0 then None else Some (Find_asset assetKey))))"

definition parse_assetFindName :: "osc_value list \<Rightarrow> osc_error + osc_task option" where
  "parse_assetFindName as =
     rbind (as_string as) (\<lambda>(name, as).
     rbind (at_end as) (\<lambda>_. Inr (Some (Find_named_asset name))))"

definition parse_assetLoad :: "osc_value list \<Rightarrow> osc_error + osc_task option" where
  "parse_assetLoad as =
     rbind (as_string as) (\<lambda>(keyString, as).
     rbind (at_end as) (\<lambda>_.
       let key = stringToKey keyString
       in Inr (if key = 0 then None else Some (Load_asset key))))"

text \<open>
  The key parsed from a non-empty deprecates argument is bound to a new local variable,
  \<open>deprecats\<close>; the captured one stays zero.
\<close>

definition parse_assetAddFile :: "osc_value list \<Rightarrow> osc_error + osc_task option" where
  "parse_assetAddFile as =
     rbind (as_int32 as) (\<lambda>(serialNumber, as).
     rbind (as_string as) (\<lambda>(typeString, as).
     rbind (as_string as) (\<lambda>(name, as).
     rbind (as_string as) (\<lambda>(authorString, as).
       let author = (if length authorString > 0 then stringToKey authorString else 0)
       in rbind (as_string as) (\<lambda>(deprecatesString, as).
       let deprecates = 0;
           deprecats = (if length deprecatesString > 0 then Some (stringToKey deprecatesString) else None)
       in rbind (as_string as) (\<lambda>(listIds, as).
       rbind (as_string as) (\<lambda>(filePath, as).
       rbind (at_end as) (\<lambda>_.
         let type = typeStringToEnum typeString
         in Inr (if type = kInvalid then None
                 else Some (Add_asset_file type serialNumber name author deprecates listIds filePath))))))))))"

definition parse_assetAddString :: "osc_value list \<Rightarrow> osc_error + osc_task option" where
  "parse_assetAddString as =
     rbind (as_int32 as) (\<lambda>(serialNumber, as).
     rbind (as_string as) (\<lambda>(typeString, as).
     rbind (as_string as) (\<lambda>(name, as).
     rbind (as_string as) (\<lambda>(authorString, as).
       let author = (if length authorString > 0 then stringToKey authorString else 0)
       in rbind (as_string as) (\<lambda>(deprecatesString, as).
       let deprecates = (if length deprecatesString > 0 then stringToKey deprecatesString else 0)
       in rbind (as_string as) (\<lambda>(listIds, as).
       rbind (as_string as) (\<lambda>(assetString, as).
       rbind (at_end as) (\<lambda>_.
         let type = typeStringToEnum typeString
         in Inr (if type = kInvalid then None
                 else Some (Add_asset_string type serialNumber name author deprecates listIds assetString))))))))))"

definition parse_listAdd :: "osc_value list \<Rightarrow> osc_error + osc_task option" where
  "parse_listAdd as =
     rbind (as_string as) (\<lambda>(name, as).
     rbind (at_end as) (\<lambda>_. Inr (Some (Add_list name))))"

definition parse_listFind :: "osc_value list \<Rightarrow> osc_error + osc_task option" where
  "parse_listFind as =
     rbind (as_string as) (\<lambda>(name, as).
     rbind (at_end as) (\<lambda>_. Inr (Some (Find_list name))))"

text \<open>The only message whose arguments may be followed by others.\<close>

definition parse_listNext :: "osc_value list \<Rightarrow> osc_error + osc_task option" where
  "parse_listNext as =
     rbind (as_string as) (\<lambda>(keyString, as).
       let key = stringToKey keyString
       in rbind (as_string as) (\<lambda>(tokenString, as).
         let token = stringToKey tokenString
         in Inr (Some (Next_list key token))))"

definition parse_message :: "osc_message \<Rightarrow> osc_error + osc_task option" where
  "parse_message m =
     (case m of (address, as) \<Rightarrow>
        if address = ''/assetFind'' then parse_assetFind as
        else if address = ''/assetFindName'' then parse_assetFindName as
        else if address = ''/assetLoad'' then parse_assetLoad as
        else if address = ''/assetAddFile'' then parse_assetAddFile as
        else if address = ''/assetAddString'' then parse_assetAddString as
        else if address = ''/listAdd'' then parse_listAdd as
        else if address = ''/listFind'' then parse_listFind as
        else if address = ''/listNext'' then parse_listNext as
        else Inr None)"

section \<open>The handler\<close>

text \<open>
  Its state: the local database, the cache with its directory, the rest of the world and
  the packets sent. Its surroundings at the time of a task: the libraries, the network, the
  files the user names (nothing for a path whose size cannot be read), the clocks, the next
  random number and the size of a packet.
\<close>

record ('db, 'w) osc_handler =
  m_assetDatabase :: "'db asset_database"
  m_cacheManager :: cache_manager
  os_files :: fs
  os_world :: 'w
  m_transmitSocket :: "osc_message list"

record ('db, 'h, 'w) osc_env =
  env_http :: http_lib
  env_ldb :: "'db leveldb"
  env_flat :: flat_lib
  env_hash :: "'h hash_lib"
  env_net :: "'w network"
  m_httpClient :: http_client
  env_opens :: "string \<Rightarrow> bool"
  env_file :: "string \<Rightarrow> file_view option"
  env_micros :: u64
  env_time :: nat
  env_random :: u64
  packet_size :: "osc_message \<Rightarrow> nat"

text \<open>
  Fill a packet stream over a buffer of \<open>capacity\<close> bytes and send it. Every task ends with
  this step, so a packet that does not fit leaves the state as it is.
\<close>

definition send_packet :: "('db, 'h, 'w) osc_env \<Rightarrow> nat \<Rightarrow> osc_message \<Rightarrow> ('db, 'w) osc_handler \<Rightarrow>
    ('db, 'w) osc_handler" where
  "send_packet e capacity msg s =
     (if packet_size e msg \<le> capacity then s\<lparr>m_transmitSocket := m_transmitSocket s @ [msg]\<rparr> else s)"

definition sendAsset :: "('db, 'h, 'w) osc_env \<Rightarrow> string \<Rightarrow> record_ptr \<Rightarrow> ('db, 'w) osc_handler \<Rightarrow>
    fault + ('db, 'w) osc_handler" where
  "sendAsset e requested rec s =
     rbind (record_data rec) (\<lambda>p.
     rbind (sp_data p) (\<lambda>bs.
     rbind (GetFlatAsset (env_flat e) bs) (\<lambda>asset.
     case fa_name asset of
       None \<Rightarrow> Inl NullDeref
     | Some name \<Rightarrow>
         let blob = (case fa_inlineData asset of None \<Rightarrow> [] | Some d \<Rightarrow> d)
         in Inr (send_packet e kDataChunkSize
              (''/assetFound'',
               [Osc_string (c_str requested), Osc_string (keyToString (fa_key asset)),
                Osc_string (enumToTypeString (fa_type asset)), Osc_string (c_str name),
                Osc_string (keyToString (fa_author asset)), Osc_string (keyToString (fa_deprecatedBy asset)),
                Osc_string (keyToString (fa_deprecates asset)), Osc_blob blob]) s))))"

text \<open>Store a record in the local database; the result is not looked at.\<close>

definition cache_record :: "('db, 'h, 'w) osc_env \<Rightarrow> u64 \<Rightarrow> record_ptr \<Rightarrow> ('db, 'w) osc_handler \<Rightarrow>
    fault + ('db, 'w) osc_handler" where
  "cache_record e key rec s =
     rbind (record_data rec) (\<lambda>p.
     rbind (storeAsset (env_ldb e) (env_flat e) (env_micros e) key p (m_assetDatabase s)) (\<lambda>(ok, d').
       Inr (s\<lparr>m_assetDatabase := d'\<rparr>)))"

definition task_findAsset :: "('db, 'h, 'w) osc_env \<Rightarrow> u64 \<Rightarrow> ('db, 'w) osc_handler \<Rightarrow>
    fault + ('db, 'w) osc_handler" where
  "task_findAsset e assetId s =
     rbind (findAsset (env_ldb e) (env_flat e) assetId (m_assetDatabase s)) (\<lambda>databaseAsset.
       if \<not> record_empty databaseAsset then sendAsset e (keyToString assetId) databaseAsset s
       else
         rbind (client_getAsset (env_http e) (env_flat e) (env_net e) (m_httpClient e) assetId (os_world s))
           (\<lambda>((loadedKey, rec), w).
           let s = s\<lparr>os_world := w\<rparr>
           in if record_empty rec then
                Inr (send_packet e kDataChunkSize
                  (''/assetError'',
                   [Osc_string (keyToString assetId), Osc_string ''Failed to find asset associated with key.'']) s)
              else rbind (cache_record e loadedKey rec s) (sendAsset e (keyToString assetId) rec)))"

definition task_findNamedAsset :: "('db, 'h, 'w) osc_env \<Rightarrow> string \<Rightarrow> ('db, 'w) osc_handler \<Rightarrow>
    fault + ('db, 'w) osc_handler" where
  "task_findNamedAsset e name s =
     rbind (client_getNamedAsset (env_http e) (env_flat e) (env_net e) (m_httpClient e) name (os_world s))
       (\<lambda>(rec, w).
       let s = s\<lparr>os_world := w\<rparr>
       in if record_empty rec then
            Inr (send_packet e kDataChunkSize
              (''/assetError'', [Osc_string (c_str name), Osc_string ''Failed to find named asset.'']) s)
          else
            rbind (record_data rec) (\<lambda>p.
            rbind (sp_data p) (\<lambda>bs.
            rbind (GetFlatAsset (env_flat e) bs) (\<lambda>flatAsset.
            rbind (cache_record e (fa_key flatAsset) rec s) (sendAsset e name rec)))))"

text \<open>
  What \<open>loadAsset\<close> takes from the record of an asset: its key, size, number of chunks and
  extension.
\<close>

definition download_info :: "flat_lib \<Rightarrow> u64 \<Rightarrow> record_ptr \<Rightarrow> fault + u64 \<times> u64 \<times> u64 \<times> string" where
  "download_info F key rec =
     rbind (record_data rec) (\<lambda>p.
     rbind (sp_data p) (\<lambda>bs.
     rbind (GetFlatAsset F bs) (\<lambda>flatAsset.
     case fa_fileExtension flatAsset of
       None \<Rightarrow> Inl NullDeref
     | Some ext \<Rightarrow> Inr (key, fa_size flatAsset, fa_chunks flatAsset, ext))))"

definition locate_asset :: "('db, 'h, 'w) osc_env \<Rightarrow> u64 \<Rightarrow> ('db, 'w) osc_handler \<Rightarrow>
    fault + (u64 \<times> u64 \<times> u64 \<times> string) \<times> ('db, 'w) osc_handler" where
  "locate_asset e key s =
     rbind (findAsset (env_ldb e) (env_flat e) key (m_assetDatabase s)) (\<lambda>asset.
       if record_empty asset then
         rbind (client_getAsset (env_http e) (env_flat e) (env_net e) (m_httpClient e) key (os_world s))
           (\<lambda>((loadedKey, rec), w).
           let s = s\<lparr>os_world := w\<rparr>
           in if record_empty rec then Inr ((0, 0, 0, []), s)
              else rbind (cache_record e loadedKey rec s) (\<lambda>s.
                   rbind (download_info (env_flat e) loadedKey rec) (\<lambda>info. Inr (info, s))))
       else rbind (download_info (env_flat e) key asset) (\<lambda>info. Inr (info, s)))"

definition task_loadAsset :: "('db, 'h, 'w) osc_env \<Rightarrow> u64 \<Rightarrow> ('db, 'w) osc_handler \<Rightarrow>
    fault + ('db, 'w) osc_handler" where
  "task_loadAsset e key s =
     rbind (checkCache (env_time e) key (m_cacheManager s) (os_files s)) (\<lambda>(assetPath, fs).
       let s = s\<lparr>os_files := fs\<rparr>
       in rbind (if assetPath = [] then
                   rbind (locate_asset e key s) (\<lambda>((downloadKey, sz, chunks, fileExtension), s).
                     if downloadKey \<noteq> 0 then
                       rbind (download (env_http e) (env_flat e) (env_hash e) (env_net e) (m_httpClient e) (env_opens e)
                                (env_time e) downloadKey sz chunks fileExtension (m_cacheManager s) (os_files s) (os_world s))
                         (\<lambda>((path, c, fs), w).
                         Inr (path, downloadKey, s\<lparr>m_cacheManager := c, os_files := fs, os_world := w\<rparr>))
                     else Inr ([], downloadKey, s))
                 else Inr (assetPath, 0, s))
            (\<lambda>(assetPath, downloadKey, s).
            Inr (send_packet e kPageSize
              (''/assetLoaded'',
               [Osc_string (keyToString key), Osc_string (keyToString downloadKey), Osc_string (c_str assetPath)]) s)))"

definition task_addAssetFile :: "('db, 'h, 'w) osc_env \<Rightarrow> asset_type \<Rightarrow> int \<Rightarrow> string \<Rightarrow> u64 \<Rightarrow> u64 \<Rightarrow> string \<Rightarrow>
    string \<Rightarrow> ('db, 'w) osc_handler \<Rightarrow> fault + ('db, 'w) osc_handler" where
  "task_addAssetFile e type serialNumber name author deprecates listIds filePath s =
     (case env_file e filePath of
        None \<Rightarrow> Inl FilesystemError
      | Some file \<Rightarrow>
          rbind (postFileAsset (env_http e) (env_flat e) (env_hash e) (env_net e) (m_httpClient e) type name author
                   deprecates listIds file (os_world s))
            (\<lambda>(key, w).
            Inr (send_packet e kPageSize
              (''/assetAdded'', [Osc_int serialNumber, Osc_string (keyToString key)]) (s\<lparr>os_world := w\<rparr>))))"

text \<open>The inline data is the string's characters with the zero that ends them.\<close>

definition task_addAssetString :: "('db, 'h, 'w) osc_env \<Rightarrow> asset_type \<Rightarrow> int \<Rightarrow> string \<Rightarrow> u64 \<Rightarrow> u64 \<Rightarrow> string \<Rightarrow>
    string \<Rightarrow> ('db, 'w) osc_handler \<Rightarrow> fault + ('db, 'w) osc_handler" where
  "task_addAssetString e type serialNumber name author deprecates listIds assetString s =
     rbind (postInlineAsset (env_http e) (env_flat e) (env_hash e) (env_net e) (m_httpClient e) (env_random e) type name
              author deprecates listIds (of_nat (length assetString)) (of_chars assetString @ [0]) (os_world s))
       (\<lambda>(key, w).
       Inr (send_packet e kPageSize
         (''/assetAdded'', [Osc_int serialNumber, Osc_string (keyToString key)]) (s\<lparr>os_world := w\<rparr>)))"

definition task_addList :: "('db, 'h, 'w) osc_env \<Rightarrow> string \<Rightarrow> ('db, 'w) osc_handler \<Rightarrow>
    fault + ('db, 'w) osc_handler" where
  "task_addList e name s =
     rbind (postList (env_http e) (env_flat e) (env_net e) (m_httpClient e) (env_random e) name (os_world s)) (\<lambda>(key, w).
       Inr (send_packet e kPageSize
         (if key \<noteq> 0 then (''/listFound'', [Osc_string (c_str name), Osc_string (keyToString key)])
          else (''/listError'', [Osc_string (c_str name), Osc_string ''error adding new list.'']))
         (s\<lparr>os_world := w\<rparr>)))"

definition task_findList :: "('db, 'h, 'w) osc_env \<Rightarrow> string \<Rightarrow> ('db, 'w) osc_handler \<Rightarrow>
    fault + ('db, 'w) osc_handler" where
  "task_findList e name s =
     rbind (client_getNamedList (env_http e) (env_flat e) (env_net e) (m_httpClient e) name (os_world s)) (\<lambda>(rec, w).
       rbind (if record_empty rec
              then Inr (''/listError'', [Osc_string (c_str name), Osc_string ''error finding list.''])
              else
                rbind (record_data rec) (\<lambda>p.
                rbind (sp_data p) (\<lambda>bs.
                rbind (GetFlatList (env_flat e) bs) (\<lambda>flatList.
                Inr (''/listFound'', [Osc_string (c_str name), Osc_string (keyToString (fl_key flatList))])))))
         (\<lambda>msg. Inr (send_packet e kPageSize msg (s\<lparr>os_world := w\<rparr>))))"

definition task_nextList :: "('db, 'h, 'w) osc_env \<Rightarrow> u64 \<Rightarrow> u64 \<Rightarrow> ('db, 'w) osc_handler \<Rightarrow>
    fault + ('db, 'w) osc_handler" where
  "task_nextList e key token s =
     rbind (client_getListItems (env_net e) (m_httpClient e) key token (os_world s)) (\<lambda>(tokens, w).
       Inr (send_packet e kPageSize
         (''/listItems'', [Osc_string (keyToString key), Osc_string (c_str (to_chars tokens))])
         (s\<lparr>os_world := w\<rparr>)))"

fun run_task :: "('db, 'h, 'w) osc_env \<Rightarrow> osc_task \<Rightarrow> ('db, 'w) osc_handler \<Rightarrow> fault + ('db, 'w) osc_handler" where
  "run_task e (Find_asset key) s = task_findAsset e key s"
| "run_task e (Find_named_asset name) s = task_findNamedAsset e name s"
| "run_task e (Load_asset key) s = task_loadAsset e key s"
| "run_task e (Add_asset_file t n name author deps ids path) s = task_addAssetFile e t n name author deps ids path s"
| "run_task e (Add_asset_string t n name author deps ids str) s = task_addAssetString e t n name author deps ids str s"
| "run_task e (Add_list name) s = task_addList e name s"
| "run_task e (Find_list name) s = task_findList e name s"
| "run_task e (Next_list key token) s = task_nextList e key token s"

text \<open>
  The filesystem exceptions are thrown by the first calls of \<open>loadAsset\<close> and
  \<open>addAssetFile\<close>, before anything has changed; the future drops them.
\<close>

definition ProcessMessage :: "('db, 'h, 'w) osc_env \<Rightarrow> osc_message \<Rightarrow> ('db, 'w) osc_handler \<Rightarrow>
    fault + ('db, 'w) osc_handler" where
  "ProcessMessage e m s =
     (case parse_message m of
        Inl err \<Rightarrow> Inr s
      | Inr None \<Rightarrow> Inr s
      | Inr (Some task) \<Rightarrow>
          (case run_task e task s of
             Inl FilesystemError \<Rightarrow> Inr s
           | r \<Rightarrow> r))"

section \<open>Construction, start and stop\<close>

text \<open>
  The ports, and the sockets opened on them. Whether a port can be bound is a parameter; the
  library throws when it cannot. The handler owns nothing else that is not in the state above.
\<close>

record osc_sockets =
  m_listenPort :: int
  m_sendPort :: int
  sends_to :: "(string \<times> int) option"
  listens_on :: "int option"
  break_asked :: bool

definition new_OscHandler :: "int \<Rightarrow> int \<Rightarrow> 'db asset_database \<Rightarrow> cache_manager \<Rightarrow> fs \<Rightarrow> 'w \<Rightarrow>
    osc_sockets \<times> ('db, 'w) osc_handler" where
  "new_OscHandler listenPort sendPort assetDatabase cacheManager fs w =
     (\<lparr>m_listenPort = listenPort, m_sendPort = sendPort, sends_to = None, listens_on = None, break_asked = False\<rparr>,
      \<lparr>m_assetDatabase = assetDatabase, m_cacheManager = cacheManager, os_files = fs, os_world = w,
       m_transmitSocket = []\<rparr>)"

text \<open>\<open>run\<close> up to the receive loop, which it then waits for.\<close>

definition osc_run :: "(int \<Rightarrow> bool) \<Rightarrow> osc_sockets \<Rightarrow> fault + osc_sockets" where
  "osc_run binds p =
     (let p = p\<lparr>sends_to := Some (''127.0.0.1'', m_sendPort p)\<rparr>
      in if \<not> binds (m_listenPort p) then Inl SocketError
         else Inr (p\<lparr>listens_on := Some (m_listenPort p)\<rparr>))"

definition osc_shutdown :: "osc_sockets \<Rightarrow> fault + osc_sockets" where
  "osc_shutdown p =
     (case listens_on p of
        None \<Rightarrow> Inl NullDeref
      | Some port \<Rightarrow> Inr (p\<lparr>break_asked := True\<rparr>))"

end
