(* ===== verification/Osc_Properties.thy ===== *)
theory Osc_Properties
  imports OscHandler Http_Properties Cache_Properties
begin

text \<open>
  The properties of the OSC interface: what a message does to the local state, and what a
  user sees of the whole system, each with a witness.
\<close>

section \<open>Packets\<close>

lemma send_packet_fields [simp]:
  "m_assetDatabase (send_packet e n m s) = m_assetDatabase s" "m_cacheManager (send_packet e n m s) = m_cacheManager s"
  "os_files (send_packet e n m s) = os_files s" "os_world (send_packet e n m s) = os_world s"
  by (simp_all add: send_packet_def)

text \<open>What a task does to the packets: it appends at most one.\<close>

definition one_packet :: "('db, 'w) osc_handler \<Rightarrow> ('db, 'w) osc_handler \<Rightarrow> bool" where
  "one_packet s s' \<longleftrightarrow> (\<exists>ms. m_transmitSocket s' = m_transmitSocket s @ ms \<and> length ms \<le> 1)"

lemma one_packet_send: "m_transmitSocket s' = m_transmitSocket s \<Longrightarrow> one_packet s (send_packet e n m s')"
  by (simp add: one_packet_def send_packet_def)

lemma one_packet_refl: "one_packet s s"
  by (simp add: one_packet_def)

lemma sendAsset_shape: "sendAsset e r rec s = Inr s' \<Longrightarrow> \<exists>m. s' = send_packet e kDataChunkSize m s"
  by (auto simp: sendAsset_def fault_simps split: option.splits)

lemma cache_record_shape: "cache_record e k rec s = Inr s' \<Longrightarrow> \<exists>d. s' = s\<lparr>m_assetDatabase := d\<rparr>"
  by (auto simp: cache_record_def fault_simps)

lemma cache_record_wf:
  assumes "cache_record e k rec s = Inr s'" "db_wf (env_ldb e) (env_flat e) (m_assetDatabase s)"
  shows "db_wf (env_ldb e) (env_flat e) (m_assetDatabase s')"
proof -
  obtain p ok d' where "record_data rec = Inr p"
    "storeAsset (env_ldb e) (env_flat e) (env_micros e) k p (m_assetDatabase s) = Inr (ok, d')"
    "s' = s\<lparr>m_assetDatabase := d'\<rparr>"
    using assms(1) by (auto simp: cache_record_def fault_simps)
  moreover from this(2) obtain bs where "p = SizedPointer bs" by (cases p) (auto simp: storeAsset_def)
  ultimately show ?thesis using storeAsset_db_wf [OF assms(2)] by auto
qed

text \<open>The effect every task has: one packet at most, and a well-formed local database.\<close>

definition task_effect :: "('db, 'h, 'w) osc_env \<Rightarrow> ('db, 'w) osc_handler \<Rightarrow> ('db, 'w) osc_handler \<Rightarrow> bool" where
  "task_effect e s s' \<longleftrightarrow> one_packet s s' \<and>
     (db_wf (env_ldb e) (env_flat e) (m_assetDatabase s) \<longrightarrow> db_wf (env_ldb e) (env_flat e) (m_assetDatabase s'))"

lemma task_effect_send:
  "m_transmitSocket s' = m_transmitSocket s \<Longrightarrow> m_assetDatabase s' = m_assetDatabase s \<Longrightarrow>
    task_effect e s (send_packet e n m s')"
  by (simp add: task_effect_def one_packet_send)

lemma task_effect_sendAsset:
  assumes "sendAsset e r rec s1 = Inr s'" "m_transmitSocket s1 = m_transmitSocket s" "m_assetDatabase s1 = m_assetDatabase s"
  shows "task_effect e s s'"
  using sendAsset_shape [OF assms(1)] assms(2,3) by (auto intro: task_effect_send)

lemma task_effect_cached:
  assumes "cache_record e k rec s1 = Inr s2" "m_transmitSocket s1 = m_transmitSocket s" "m_assetDatabase s1 = m_assetDatabase s"
    and "m_transmitSocket s3 = m_transmitSocket s2" "m_assetDatabase s3 = m_assetDatabase s2"
  shows "task_effect e s (send_packet e n m s3)"
  using cache_record_shape [OF assms(1)] cache_record_wf [OF assms(1)] assms(2-5)
  by (auto simp: task_effect_def intro: one_packet_send)

lemma task_effect_cached_asset:
  assumes "cache_record e k rec s1 = Inr s2" "sendAsset e r rec' s2 = Inr s'"
    and "m_transmitSocket s1 = m_transmitSocket s" "m_assetDatabase s1 = m_assetDatabase s"
  shows "task_effect e s s'"
  using sendAsset_shape [OF assms(2)] task_effect_cached [OF assms(1,3,4)] by blast

lemma task_findAsset_effect: "task_findAsset e k s = Inr s' \<Longrightarrow> task_effect e s s'"
  by (auto simp: task_findAsset_def fault_simps Let_def split: if_splits
      intro: task_effect_send task_effect_sendAsset task_effect_cached_asset)

lemma task_findNamedAsset_effect: "task_findNamedAsset e n s = Inr s' \<Longrightarrow> task_effect e s s'"
  by (auto simp: task_findNamedAsset_def fault_simps Let_def split: if_splits
      intro: task_effect_send task_effect_cached_asset)

lemma locate_asset_effect:
  assumes "locate_asset e k s = Inr (info, s')"
  shows "m_transmitSocket s' = m_transmitSocket s \<and> m_cacheManager s' = m_cacheManager s \<and> os_files s' = os_files s \<and>
    (db_wf (env_ldb e) (env_flat e) (m_assetDatabase s) \<longrightarrow> db_wf (env_ldb e) (env_flat e) (m_assetDatabase s'))"
  using assms
  by (auto simp: locate_asset_def fault_simps Let_def split: if_splits
      dest: cache_record_shape cache_record_wf)

lemma task_loadAsset_effect:
  assumes "task_loadAsset e k s = Inr s'"
  shows "task_effect e s s'"
proof -
  obtain path fs where c: "checkCache (env_time e) k (m_cacheManager s) (os_files s) = Inr (path, fs)"
    using assms by (cases "checkCache (env_time e) k (m_cacheManager s) (os_files s)") (auto simp: task_loadAsset_def)
  let ?s = "s\<lparr>os_files := fs\<rparr>"
  show ?thesis
  proof (cases "path = []")
    case False
    with assms c show ?thesis by (auto simp: task_loadAsset_def Let_def intro: task_effect_send)
  next
    case True
    with assms c obtain dk sz ch ext s1 where l: "locate_asset e k ?s = Inr ((dk, sz, ch, ext), s1)"
      by (auto simp: task_loadAsset_def Let_def fault_simps)
    note le = locate_asset_effect [OF l]
    from assms c True l obtain p s2 m where r: "s' = send_packet e kPageSize m s2"
      "m_transmitSocket s2 = m_transmitSocket s1" "m_assetDatabase s2 = m_assetDatabase s1"
      by (auto simp: task_loadAsset_def Let_def fault_simps split: if_splits)
    with le show ?thesis by (simp add: task_effect_def one_packet_send)
  qed
qed

lemma run_task_effect: "run_task e t s = Inr s' \<Longrightarrow> task_effect e s s'"
proof (cases t)
  case (Find_list name)
  assume "run_task e t s = Inr s'"
  with Find_list show ?thesis
    by (auto simp: task_findList_def fault_simps intro: task_effect_send split: if_splits)
qed (auto simp: task_addAssetFile_def task_addAssetString_def task_addList_def task_nextList_def fault_simps
      intro: task_effect_send task_findAsset_effect task_findNamedAsset_effect task_loadAsset_effect split: option.splits)

lemma ProcessMessage_effect:
  assumes "ProcessMessage e m s = Inr s'"
  shows "task_effect e s s'"
proof -
  have "s' = s \<or> (\<exists>t. run_task e t s = Inr s')"
    using assms by (auto simp: ProcessMessage_def split: sum.splits option.splits fault.splits)
  then show ?thesis using run_task_effect by (auto simp: task_effect_def one_packet_refl)
qed

text \<open>A handler receives messages one after the other, each in its surroundings.\<close>

definition receive :: "(('db, 'h, 'w) osc_env \<times> osc_message) list \<Rightarrow> ('db, 'w) osc_handler \<Rightarrow>
    fault + ('db, 'w) osc_handler" where
  "receive = rfold (\<lambda>(e, m). ProcessMessage e m)"

text \<open>
  C26: Whatever messages arrive, the local database stays well formed and no message is
  answered with more than one packet: packets are only appended, at most one per message.
\<close>

theorem receive_keeps_state:
  assumes "receive ms s = Inr s'" "\<forall>(e, m) \<in> set ms. env_ldb e = ldb \<and> env_flat e = F"
    and "db_wf ldb F (m_assetDatabase s)"
  shows "db_wf ldb F (m_assetDatabase s') \<and>
    (\<exists>sent. m_transmitSocket s' = m_transmitSocket s @ sent \<and> length sent \<le> length ms)"
  using assms
proof (induction ms arbitrary: s)
  case Nil
  then show ?case by (simp add: receive_def)
next
  case (Cons em ms)
  obtain e m where em: "em = (e, m)" by (cases em)
  obtain s1 where s1: "ProcessMessage e m s = Inr s1" "receive ms s1 = Inr s'"
    using Cons.prems(1) by (auto simp: receive_def em fault_simps)
  note eff = ProcessMessage_effect [OF s1(1)]
  have "db_wf ldb F (m_assetDatabase s1)"
    using eff Cons.prems(2,3) by (auto simp: task_effect_def em)
  moreover have "\<forall>(e, m) \<in> set ms. env_ldb e = ldb \<and> env_flat e = F" using Cons.prems(2) by simp
  ultimately obtain sent where "db_wf ldb F (m_assetDatabase s')" "m_transmitSocket s' = m_transmitSocket s1 @ sent"
    "length sent \<le> length ms"
    using Cons.IH [OF s1(2)] by blast
  moreover obtain one where "m_transmitSocket s1 = m_transmitSocket s @ one" "length one \<le> 1"
    using eff by (auto simp: task_effect_def one_packet_def)
  ultimately show ?case by (intro conjI exI [of _ "one @ sent"]) auto
qed

section \<open>Deprecation\<close>

text \<open>
  The asset a file deprecates is never passed on: a message that adds a file has the same
  effect whatever its deprecates argument is. For a string the argument is passed on.
\<close>

lemma file_deprecation_ignored:
  "ProcessMessage e (''/assetAddFile'', [Osc_int n, Osc_string t, Osc_string name, Osc_string author, Osc_string deprecates,
      Osc_string ids, Osc_string path]) s =
    ProcessMessage e (''/assetAddFile'', [Osc_int n, Osc_string t, Osc_string name, Osc_string author, Osc_string [],
      Osc_string ids, Osc_string path]) s \<and>
   (typeStringToEnum t = kInvalid \<or>
    parse_message (''/assetAddString'', [Osc_int n, Osc_string t, Osc_string name, Osc_string [], Osc_string deprecates,
        Osc_string ids, Osc_string path]) =
      Inr (Some (Add_asset_string (typeStringToEnum t) n name 0
        (if deprecates = [] then 0 else stringToKey deprecates) ids path)))"
  by (simp add: ProcessMessage_def parse_message_def parse_assetAddFile_def parse_assetAddString_def Let_def)

section \<open>Assets that bring the client down\<close>

lemma parse_assetFind_key:
  "key \<noteq> 0 \<Longrightarrow> parse_message (''/assetFind'', [Osc_string (keyToString key)]) = Inr (Some (Find_asset key))"
  by (simp add: parse_message_def parse_assetFind_def key_text.dec_enc Let_def)

text \<open>
  Finding an asset that has no name ends the program: the name of the record is read
  through a null pointer when the answer is put together.
\<close>

lemma unnamed_asset_crashes_client:
  assumes "db_wf (env_ldb e) (env_flat e) (m_assetDatabase s)" "key \<noteq> 0"
    and "resolves (env_ldb e) (env_flat e) (m_assetDatabase s) key (Some k)"
    and "view (env_ldb e) (m_assetDatabase s) (AssetKey k) = Some bs" "fa_name (asset_root (env_flat e) bs) = None"
  shows "ProcessMessage e (''/assetFind'', [Osc_string (keyToString key)]) s = Inl NullDeref"
proof -
  obtain rec where "findAsset (env_ldb e) (env_flat e) key (m_assetDatabase s) = Inr rec" "\<not> record_empty rec"
    "record_data rec = Inr (SizedPointer bs)" "asset_valid (env_flat e) bs"
    using resolved_record [OF assms(1,3,4)] .
  then show ?thesis
    using assms(5) by (simp add: ProcessMessage_def parse_assetFind_key [OF assms(2)] task_findAsset_def sendAsset_def GetFlatAsset_def)
qed

section \<open>From one user to another\<close>

text \<open>A client program connected to the server at an address, at a time of the server's clock.\<close>

definition connected :: "('db, 'h, 'sdb asset_database) osc_env \<Rightarrow> http_lib \<Rightarrow> 'sdb leveldb \<Rightarrow> flat_lib \<Rightarrow> 'h hash_lib \<Rightarrow>
    u64 \<Rightarrow> string \<Rightarrow> bool" where
  "connected e H ldb F X now addr \<longleftrightarrow>
     env_http e = H \<and> env_flat e = F \<and> env_hash e = X \<and> env_net e = server_net H ldb F now addr \<and>
     m_httpClient e = \<lparr>m_serverAddress = addr\<rparr>"

definition optional_key :: "string \<Rightarrow> u64" where
  "optional_key s = (if s = [] then 0 else stringToKey s)"

definition found_packet :: "string \<Rightarrow> u64 \<Rightarrow> string \<Rightarrow> string \<Rightarrow> u64 \<Rightarrow> u64 \<Rightarrow> bytes \<Rightarrow> osc_message" where
  "found_packet requested key t name author deprecates data =
     (''/assetFound'', [Osc_string requested, Osc_string (keyToString key), Osc_string t, Osc_string name,
        Osc_string (keyToString author), Osc_string (keyToString 0), Osc_string (keyToString deprecates), Osc_blob data])"

lemma added_packet:
  assumes "ProcessMessage e (''/assetAddString'', [Osc_int n, Osc_string ts, Osc_string name, Osc_string author,
      Osc_string deprecates, Osc_string ids, Osc_string str]) s = Inr s'"
    and "m_transmitSocket s' = m_transmitSocket s @ [(''/assetAdded'', [Osc_int n, Osc_string k])]"
    and "typeStringToEnum ts \<noteq> kInvalid"
  shows "\<exists>posted. postInlineAsset (env_http e) (env_flat e) (env_hash e) (env_net e) (m_httpClient e) (env_random e)
      (typeStringToEnum ts) name (optional_key author) (optional_key deprecates) ids (of_nat (length str))
      (of_chars str @ [0]) (os_world s) = Inr (posted, os_world s') \<and> k = keyToString posted"
proof -
  have task: "parse_message (''/assetAddString'', [Osc_int n, Osc_string ts, Osc_string name, Osc_string author,
      Osc_string deprecates, Osc_string ids, Osc_string str]) =
    Inr (Some (Add_asset_string (typeStringToEnum ts) n name (optional_key author) (optional_key deprecates) ids str))"
    using assms(3) by (simp add: parse_message_def parse_assetAddString_def optional_key_def Let_def)
  show ?thesis
  proof (cases "postInlineAsset (env_http e) (env_flat e) (env_hash e) (env_net e) (m_httpClient e) (env_random e)
      (typeStringToEnum ts) name (optional_key author) (optional_key deprecates) ids (of_nat (length str))
      (of_chars str @ [0]) (os_world s)")
    case (Inl err)
    with assms(1,2) task show ?thesis
      by (cases err) (simp_all add: ProcessMessage_def task_addAssetString_def)
  next
    case (Inr r)
    then obtain posted w where r: "r = (posted, w)" by (cases r)
    with Inr assms(1) task have "s' = send_packet e kPageSize
        (''/assetAdded'', [Osc_int n, Osc_string (keyToString posted)]) (s\<lparr>os_world := w\<rparr>)"
      by (simp add: ProcessMessage_def task_addAssetString_def)
    with assms(2) Inr r show ?thesis by (auto simp: send_packet_def split: if_splits)
  qed
qed

text \<open>
  C11: What one user adds another user finds. When a string asset was added with the answer
  that it has a key, another client that asks for that key is sent the asset with the type,
  name, author, deprecated asset and data it was added with, whatever its own database holds
  as long as it does not hold that key yet.
\<close>

theorem added_string_is_found:
  assumes "http_ok H" "flat_ok F" "connected e1 H ldb F X now addr" "connected e2 H ldb F X later addr"
    and "db_wf ldb F (os_world s1)" "db_wf (env_ldb e2) F (m_assetDatabase s2)" "os_world s2 = os_world s1'"
    and "typeStringToEnum ts \<noteq> kInvalid" "name \<noteq> []" "CHR 0x00 \<notin> set name"
    and "ids \<noteq> []" "0 \<notin> set ids" "length ids \<le> kAssetMaxListEntries" "length str \<le> kSingleChunkDataSize"
    and "key = xx_hash X (of_chars str) (env_random e1)"
    and "tbl = inline_table (typeStringToEnum ts) name (optional_key author) (optional_key deprecates) ids (env_random e1)
        key (of_chars str)" "asset_fits tbl" "length (asset_bytes F tbl) \<le> 3069"
    and "ProcessMessage e1 (''/assetAddString'', [Osc_int n, Osc_string ts, Osc_string name, Osc_string author,
      Osc_string deprecates, Osc_string (join_ids ids), Osc_string str]) s1 = Inr s1'"
    and "m_transmitSocket s1' = m_transmitSocket s1 @ [(''/assetAdded'', [Osc_int n, Osc_string k])]" "k \<noteq> keyToString 0"
    and "view (env_ldb e2) (m_assetDatabase s2) (AssetKey key) = None"
    and "pkt = found_packet k key ts name (optional_key author) (optional_key deprecates) (of_chars str)"
    and "packet_size e2 pkt \<le> kDataChunkSize"
  shows "k = keyToString key \<and>
    (\<exists>s2'. ProcessMessage e2 (''/assetFind'', [Osc_string k]) s2 = Inr s2' \<and>
       m_transmitSocket s2' = m_transmitSocket s2 @ [pkt])"
proof -
  let ?bs = "asset_bytes F tbl"
  note c1 = assms(3) [unfolded connected_def] and c2 = assms(4) [unfolded connected_def]
  obtain posted where posted: "postInlineAsset H F X (server_net H ldb F now addr) \<lparr>m_serverAddress = addr\<rparr> (env_random e1)
      (typeStringToEnum ts) name (optional_key author) (optional_key deprecates) (join_ids ids)
      (of_nat (length (of_chars str))) (of_chars str @ [0]) (os_world s1) = Inr (posted, os_world s1')" "k = keyToString posted"
    using added_packet [OF assms(19,20,8)] c1 by auto
  have "length (of_chars str) \<le> kSingleChunkDataSize" "posted \<noteq> 0" using assms(14,21) posted(2) by auto
  note found = inline_asset_found [OF assms(1,2,5,11,12,13) this(1) assms(15,16,17,18) posted(1) this(2), of later]
  then have key: "posted = key" "key \<noteq> 0" using \<open>posted \<noteq> 0\<close> by auto
  have "resolves (env_ldb e2) F (m_assetDatabase s2) key None"
    using assms(22) by (auto simp: asset_at_def intro: resolves.missing)
  then have missing: "findAsset (env_ldb e2) F key (m_assetDatabase s2) = Inr EmptyRecord"
    using findAsset_outcome(1) [OF db_wfD(1,3) [OF assms(6)], of key None] by (simp add: found_def)
  have valid: "asset_valid F ?bs" "asset_root F ?bs = tbl"
    using assms(2,17) by (simp_all add: flat_ok_def)
  have lists: "fa_lists (asset_root F ?bs) = Some ids" unfolding valid(2) using assms(11) by (simp add: assms(16) inline_table_def)
  obtain ok d' where stored: "storeAsset (env_ldb e2) F (env_micros e2) key (SizedPointer ?bs) (m_assetDatabase s2) = Inr (ok, d')"
    using storeAsset_refines [OF db_wfD(1) [OF assms(6)] valid(1) lists assms(13)] by blast
  have ts: "enumToTypeString (typeStringToEnum ts) = ts" 
    using assms(8) by (auto simp: typeStringToEnum_def enumToTypeString_def type_defs split: if_splits)
  have "sendAsset e2 (keyToString key) (ClientRecord (SizedPointer ?bs)) s = Inr (send_packet e2 kDataChunkSize pkt s)" for s
    using valid c2 ts assms(9,10)
    by (simp add: sendAsset_def GetFlatAsset_def assms(16,23) inline_table_def found_packet_def posted(2) key(1) c_str_id
        keyToString_no_nul)
  then have "ProcessMessage e2 (''/assetFind'', [Osc_string (keyToString key)]) s2 =
      Inr (send_packet e2 kDataChunkSize pkt (s2\<lparr>os_world := os_world s1', m_assetDatabase := d'\<rparr>))"
    using found c2 missing stored assms(7)
    by (simp add: ProcessMessage_def parse_assetFind_key [OF key(2)] task_findAsset_def cache_record_def)
  then show ?thesis using posted(2) key(1) assms(24) by (simp add: send_packet_def)
qed

section \<open>Loading files\<close>

lemma parse_assetLoad_key:
  "key \<noteq> 0 \<Longrightarrow> parse_message (''/assetLoad'', [Osc_string (keyToString key)]) = Inr (Some (Load_asset key))"
  by (simp add: parse_message_def parse_assetLoad_def key_text.dec_enc Let_def)

lemma checkCache_miss: "umap_find (m_extensionMap c) key = None \<Longrightarrow> checkCache now key c fs = Inr ([], fs)"
  by (simp add: checkCache_def)

lemma download_info_key: "download_info F key rec = Inr (dk, r) \<Longrightarrow> dk = key"
  by (auto simp: download_info_def fault_simps split: option.splits)

lemma locate_asset_key:
  assumes "locate_asset e key s = Inr ((dk, r), s')"
  shows "dk = key \<or> dk = 0"
proof -
  have "loaded = key" if "client_getAsset (env_http e) (env_flat e) (env_net e) (m_httpClient e) key (os_world s) = Inr ((loaded, rec), w)"
    for loaded rec w
    using that by (auto simp: client_getAsset_def fault_simps Let_def)
  with assms show ?thesis
    by (auto simp: locate_asset_def fault_simps Let_def split: if_splits dest!: download_info_key)
qed

text \<open>A load of a key that is not cached: what it downloads and what it answers.\<close>

lemma load_uncached:
  assumes "ProcessMessage e (''/assetLoad'', [Osc_string (keyToString key)]) s = Inr s'" "key \<noteq> 0"
    and "umap_find (m_extensionMap (m_cacheManager s)) key = None"
    and "locate_asset e key s = Inr ((key, sz, chunks, ext), s1)"
  obtains path c fs w where
    "download (env_http e) (env_flat e) (env_hash e) (env_net e) (m_httpClient e) (env_opens e) (env_time e) key sz chunks ext
      (m_cacheManager s1) (os_files s1) (os_world s1) = Inr ((path, c, fs), w)"
    "s' = send_packet e kPageSize (''/assetLoaded'',
        [Osc_string (keyToString key), Osc_string (keyToString key), Osc_string (c_str path)])
      (s1\<lparr>m_cacheManager := c, os_files := fs, os_world := w\<rparr>)"
  | "s' = s"
proof -
  have same: "s\<lparr>os_files := os_files s\<rparr> = s" by simp
  note miss = checkCache_miss [OF assms(3), of "env_time e" "os_files s"]
  let ?d = "download (env_http e) (env_flat e) (env_hash e) (env_net e) (m_httpClient e) (env_opens e) (env_time e) key sz chunks ext
      (m_cacheManager s1) (os_files s1) (os_world s1)"
  show ?thesis
  proof (cases ?d)
    case (Inl err)
    with assms(1,2,4) miss have "s' = s"
      by (cases err) (simp_all add: ProcessMessage_def parse_assetLoad_key task_loadAsset_def same Let_def)
    then show ?thesis by (rule that(2))
  next
    case (Inr r)
    then obtain path c fs w where r: "?d = Inr ((path, c, fs), w)" by (cases r) auto
    with assms(1,2,4) miss show ?thesis
      by (intro that(1)) (auto simp: ProcessMessage_def parse_assetLoad_key task_loadAsset_def same Let_def)
  qed
qed



section \<open>Witnesses\<close>

definition sample_env :: "u64 \<Rightarrow> (mem, u64, mem asset_database) osc_env" where
  "sample_env now =
     \<lparr>env_http = sample_http, env_ldb = mem_store, env_flat = plain_flat, env_hash = sample_hash,
      env_net = server_net sample_http mem_store plain_flat now ''s'', m_httpClient = \<lparr>m_serverAddress = ''s''\<rparr>,
      env_opens = (\<lambda>_. True), env_file = (\<lambda>_. None), env_micros = 1, env_time = 9, env_random = 7,
      packet_size = (\<lambda>_. 0)\<rparr>"

definition sample_state :: "mem \<Rightarrow> 'w \<Rightarrow> (mem, 'w) osc_handler" where
  "sample_state db w =
     \<lparr>m_assetDatabase = memory_db db, m_cacheManager = sample_cache, os_files = [(''c'', NonRegular)], os_world = w,
      m_transmitSocket = []\<rparr>"

lemma sample_env_connected:
  "connected (sample_env now) sample_http mem_store plain_flat sample_hash now ''s''"
  by (simp add: connected_def sample_env_def)

lemma receive_keeps_state_witness:
  "\<exists>s'. receive [(sample_env 1, (''/assetFind'', [Osc_string (keyToString 1)])), (sample_env 1, (''/nothing'', []))]
      (sample_state chain_db (memory_db [])) = Inr s' \<and> db_wf mem_store plain_flat (m_assetDatabase s')"
proof -
  let ?s = "sample_state chain_db (memory_db [])"
  obtain rec where rec: "findAsset mem_store plain_flat 1 (memory_db chain_db) = Inr rec" "\<not> record_empty rec"
    "record_data rec = Inr (SizedPointer (plain_asset (sample_asset 2 0)))"
    using resolved_record [OF chain_wf chain_resolves] by (auto simp: chain_view)
  have "\<exists>s'. ProcessMessage (sample_env 1) (''/assetFind'', [Osc_string (keyToString 1)]) ?s = Inr s'"
    using rec by (simp add: ProcessMessage_def parse_assetFind_key task_findAsset_def sendAsset_def GetFlatAsset_def
        sample_env_def sample_state_def)
  then obtain s1 where s1: "ProcessMessage (sample_env 1) (''/assetFind'', [Osc_string (keyToString 1)]) ?s = Inr s1" by blast
  have "ProcessMessage (sample_env 1) (''/nothing'', []) s1 = Inr s1"
    by (simp add: ProcessMessage_def parse_message_def)
  with s1 have run: "receive [(sample_env 1, (''/assetFind'', [Osc_string (keyToString 1)])), (sample_env 1, (''/nothing'', []))]
      ?s = Inr s1"
    by (simp add: receive_def)
  show ?thesis
    using receive_keeps_state [OF run, of mem_store plain_flat] chain_wf
    by (simp add: run) (simp add: sample_env_def sample_state_def)
qed

text \<open>Local databases of one and two assets.\<close>

lemma typed_batch_wf:
  assumes "\<forall>(k, v) \<in> set b. \<exists>key a. k = AssetKey key \<and> v = plain_asset a"
  shows "db_wf mem_store plain_flat (memory_db (typed_batch b))"
proof -
  have only: "\<exists>key a. k = AssetKey key \<and> v = plain_asset a" if "view mem_store (memory_db (typed_batch b)) k = Some v" for k v
    using that assms map_of_SomeD by (fastforce simp: memory_view_typed)
  show ?thesis
    unfolding db_wf_def using memory_typed_batch
    by (auto simp: assets_verified_def dest!: only)
qed

definition nameless_db :: mem where
  "nameless_db = typed_batch [(AssetKey 3, plain_asset (flat_asset_default\<lparr>fa_lists := Some [5]\<rparr>))]"

lemma unnamed_asset_crashes_client_witness:
  "ProcessMessage (sample_env 1) (''/assetFind'', [Osc_string (keyToString 3)]) (sample_state nameless_db (memory_db [])) =
     Inl NullDeref"
proof -
  have wf: "db_wf mem_store plain_flat (memory_db nameless_db)"
    unfolding nameless_db_def by (rule typed_batch_wf) auto
  have at: "view mem_store (memory_db nameless_db) (AssetKey 3) = Some (plain_asset (flat_asset_default\<lparr>fa_lists := Some [5]\<rparr>))"
    unfolding nameless_db_def memory_view_typed by simp
  then have "resolves mem_store plain_flat (memory_db nameless_db) 3 (Some 3)"
    by (auto simp: asset_at_def flat_asset_default_def intro: resolves.current)
  with wf at unnamed_asset_crashes_client [of "sample_env 1" "sample_state nameless_db (memory_db [])" 3 3] show ?thesis
    by (simp add: sample_env_def sample_state_def flat_asset_default_def)
qed

text \<open>A user adds a string to an empty server.\<close>

definition sample_add :: osc_message where
  "sample_add = (''/assetAddString'', [Osc_int 12, Osc_string ''yaml'', Osc_string ''b'', Osc_string [], Osc_string [],
     Osc_string (join_ids [5]), Osc_string ''hi''])"

lemma sample_add:
  obtains d' where "ProcessMessage (sample_env 1) sample_add (sample_state [] (memory_db [])) =
    Inr ((sample_state [] (memory_db []))\<lparr>os_world := d',
      m_transmitSocket := [(''/assetAdded'', [Osc_int 12, Osc_string (keyToString 10)])]\<rparr>)"
proof -
  obtain d' where d': "postInlineAsset sample_http plain_flat sample_hash (server_net sample_http mem_store plain_flat 1 ''s'')
      \<lparr>m_serverAddress = ''s''\<rparr> 7 kYAML ''b'' 0 0 (join_ids [5]) (of_nat (length (of_chars ''hi''))) (of_chars ''hi'' @ [0])
      (memory_db []) = Inr (10, d')"
    using inline_sample_posted by blast
  have yaml: "typeStringToEnum ''yaml'' = kYAML" "kYAML \<noteq> kInvalid" by (simp_all add: typeStringToEnum_def type_defs)
  show ?thesis
    using d' yaml by (intro that [of d']) (simp add: ProcessMessage_def parse_message_def parse_assetAddString_def
        task_addAssetString_def send_packet_def sample_env_def sample_state_def sample_add_def Let_def)
qed

lemma added_string_is_found_witness:
  "\<exists>s1' s2'. ProcessMessage (sample_env 1) (''/assetAddString'', [Osc_int 12, Osc_string ''yaml'', Osc_string ''b'',
       Osc_string [], Osc_string [], Osc_string (join_ids [5]), Osc_string ''hi'']) (sample_state [] (memory_db [])) = Inr s1' \<and>
     ProcessMessage (sample_env 2) (''/assetFind'', [Osc_string (keyToString 10)]) (sample_state [] (os_world s1')) = Inr s2' \<and>
     m_transmitSocket s2' = [found_packet (keyToString 10) 10 ''yaml'' ''b'' 0 0 (of_chars ''hi'')]"
proof -
  let ?s1 = "sample_state [] (memory_db [])"
  obtain d' where add': "ProcessMessage (sample_env 1) sample_add ?s1 = Inr (?s1\<lparr>os_world := d',
      m_transmitSocket := [(''/assetAdded'', [Osc_int 12, Osc_string (keyToString 10)])]\<rparr>)"
    by (rule sample_add)
  let ?s1' = "?s1\<lparr>os_world := d', m_transmitSocket := [(''/assetAdded'', [Osc_int 12, Osc_string (keyToString 10)])]\<rparr>"
  note add = add' [unfolded sample_add_def]
  have yaml: "typeStringToEnum ''yaml'' = kYAML" "kYAML \<noteq> kInvalid" by (simp_all add: typeStringToEnum_def type_defs)
  have tbl: "inline_sample = inline_table (typeStringToEnum ''yaml'') ''b'' (optional_key []) (optional_key []) [5]
      (env_random (sample_env 1)) 10 (of_chars ''hi'')"
    by (simp add: inline_sample_def optional_key_def sample_env_def yaml)
  have key: "10 = xx_hash sample_hash (of_chars ''hi'') (env_random (sample_env 1))"
    using inline_sample_facts(1) by (simp add: sample_env_def)
  have differ: "keyToString 10 \<noteq> keyToString 0" by (simp add: key_text.enc_eq_iff)
  have wf: "db_wf mem_store plain_flat (os_world ?s1)"
    "db_wf (env_ldb (sample_env 2)) plain_flat (m_assetDatabase (sample_state [] (os_world ?s1')))"
    using empty_wf by (simp_all add: sample_state_def sample_env_def)
  have rest: "os_world (sample_state [] (os_world ?s1')) = os_world ?s1'" "typeStringToEnum ''yaml'' \<noteq> kInvalid"
    "''b'' \<noteq> []" "CHR 0x00 \<notin> set ''b''" "length ''hi'' \<le> kSingleChunkDataSize"
    using yaml inline_sample_facts(2) by (simp_all add: sample_state_def)
  have sent: "m_transmitSocket ?s1' = m_transmitSocket ?s1 @ [(''/assetAdded'', [Osc_int 12, Osc_string (keyToString 10)])]"
    by (simp add: sample_state_def)
  have missing: "view (env_ldb (sample_env 2)) (m_assetDatabase (sample_state [] (os_world ?s1'))) (AssetKey 10) = None"
    by (simp add: sample_env_def sample_state_def memory_view)
  have fits: "packet_size (sample_env 2) p \<le> kDataChunkSize" for p by (simp add: sample_env_def)
  from added_string_is_found [OF sample_http_ok plain_flat_ok sample_env_connected sample_env_connected wf rest(1-4)
      inline_sample_facts(3-5) rest(5) key tbl inline_sample_fits add sent differ missing refl fits]
  obtain s2' where "ProcessMessage (sample_env 2) (''/assetFind'', [Osc_string (keyToString 10)])
      (sample_state [] (os_world ?s1')) = Inr s2'"
    "m_transmitSocket s2' = m_transmitSocket (sample_state [] (os_world ?s1')) @
      [found_packet (keyToString 10) 10 ''yaml'' ''b'' (optional_key []) (optional_key []) (of_chars ''hi'')]"
    by blast
  with add show ?thesis
    by (intro exI [of _ ?s1'] exI [of _ s2']) (simp add: optional_key_def sample_state_def)
qed

text \<open>A client whose network answers every request with one chunk of three bytes.\<close>

definition chunk_env :: "(mem, u64, unit) osc_env" where
  "chunk_env =
     \<lparr>env_http = sample_http, env_ldb = mem_store, env_flat = plain_flat, env_hash = sample_hash,
      env_net = one_chunk_net, m_httpClient = \<lparr>m_serverAddress = ''s''\<rparr>, env_opens = (\<lambda>_. True),
      env_file = (\<lambda>_. None), env_micros = 1, env_time = 9, env_random = 7, packet_size = (\<lambda>_. 0)\<rparr>"

definition file_db :: mem where
  "file_db = typed_batch [(AssetKey 4, plain_asset sample_table)]"

definition loaded_state :: "(mem, unit) osc_handler" where
  "loaded_state = (sample_state file_db ())\<lparr>
     m_cacheManager := sample_cache\<lparr>m_currentSize := 3, m_timeQueue := [(9, ''c/0000000000000004.wav'')],
       m_extensionMap := [(4, ''.wav'')]\<rparr>,
     os_files := [(''c'', NonRegular), (''c/0000000000000004.wav'', Regular [1, 2, 3] 9)],
     m_transmitSocket := [(''/assetLoaded'',
       [Osc_string (keyToString 4), Osc_string (keyToString 4), Osc_string ''c/0000000000000004.wav''])]\<rparr>"

lemma sample_table_fields:
  "fa_size sample_table = 3" "fa_chunks sample_table = 1" "fa_fileExtension sample_table = Some ''.wav''"
  "fa_deprecatedBy sample_table = 0"
  by (simp_all add: sample_table_def file_table_def kDataChunkSize_val)

lemma file_db_located: "locate_asset chunk_env 4 (sample_state file_db ()) = Inr ((4, 3, 1, ''.wav''), sample_state file_db ())"
proof -
  have wf: "db_wf mem_store plain_flat (memory_db file_db)"
    unfolding file_db_def by (rule typed_batch_wf) auto
  have at: "view mem_store (memory_db file_db) (AssetKey 4) = Some (plain_asset sample_table)"
    unfolding file_db_def memory_view_typed by simp
  then have "resolves mem_store plain_flat (memory_db file_db) 4 (Some 4)"
    by (auto simp: asset_at_def sample_table_fields intro: resolves.current)
  then obtain rec where "findAsset mem_store plain_flat 4 (memory_db file_db) = Inr rec" "\<not> record_empty rec"
    "record_data rec = Inr (SizedPointer (plain_asset sample_table))"
    using resolved_record [OF wf _ at] by blast
  then show ?thesis
    by (simp add: locate_asset_def download_info_def GetFlatAsset_def chunk_env_def sample_state_def sample_table_fields)
qed

text \<open>A load of key 4 from a database that knows the asset.\<close>

lemma chunk_env_load:
  assumes "locate_asset chunk_env 4 (sample_state db ()) = Inr ((4, sz, 1, ''.wav''), sample_state db ())"
    and "sample_download sz = Inr ((path, c, fs), ())"
  shows "ProcessMessage chunk_env (''/assetLoad'', [Osc_string (keyToString 4)]) (sample_state db ()) =
    Inr ((sample_state db ())\<lparr>m_cacheManager := c, os_files := fs, m_transmitSocket := [(''/assetLoaded'',
       [Osc_string (keyToString 4), Osc_string (keyToString 4), Osc_string (c_str path)])]\<rparr>)"
proof -
  have same: "sample_state db ()\<lparr>os_files := [(''c'', NonRegular)]\<rparr> = sample_state db ()"
    by (simp add: sample_state_def)
  have miss: "checkCache (env_time chunk_env) 4 (m_cacheManager (sample_state db ())) (os_files (sample_state db ())) =
      Inr ([], [(''c'', NonRegular)])"
    by (simp add: checkCache_def sample_state_def sample_cache_def new_CacheManager_def)
  have "download (env_http chunk_env) (env_flat chunk_env) (env_hash chunk_env) (env_net chunk_env) (m_httpClient chunk_env)
      (env_opens chunk_env) (env_time chunk_env) 4 sz 1 ''.wav'' (m_cacheManager (sample_state db ()))
      (os_files (sample_state db ())) (os_world (sample_state db ())) = sample_download sz"
    by (simp add: chunk_env_def sample_state_def sample_download_def)
  then show ?thesis
    using assms
    by (simp add: ProcessMessage_def parse_assetLoad_key task_loadAsset_def miss same Let_def)
      (simp add: sample_state_def send_packet_def chunk_env_def)
qed

lemma first_load: "ProcessMessage chunk_env (''/assetLoad'', [Osc_string (keyToString 4)]) (sample_state file_db ()) = Inr loaded_state"
  using chunk_env_load [OF file_db_located sample_download_ok] by (simp add: loaded_state_def c_str_id)


text \<open>The same file, replaced by one of five bytes.\<close>

definition replaced_db :: mem where
  "replaced_db = typed_batch [(AssetKey 4, plain_asset (sample_table\<lparr>fa_deprecatedBy := 6\<rparr>)),
     (AssetKey 6, plain_asset (file_table kSample ''a'' 0 4 [5] ''.wav'' 6 5))]"


end
