(* ===== verification/Find_Properties.thy ===== *)
theory Find_Properties
  imports Osc_Properties
begin

text \<open>
  The local database of a client as a cache of the assets it has found, with the
  correctness of a repeated lookup and its witness.
\<close>

section \<open>Finding an asset twice\<close>

text \<open>The answer depends on the bytes of the record only.\<close>

lemma sendAsset_bytes:
  assumes "record_data rec' = record_data rec" "env_flat e' = env_flat e" "packet_size e' = packet_size e"
  shows "sendAsset e' r rec' s = sendAsset e r rec s"
  using assms by (simp add: sendAsset_def send_packet_def cong: option.case_cong)

text \<open>An answer that was sent once is sent in every state.\<close>

lemma sendAsset_sent:
  assumes "sendAsset e r rec s = Inr s1" "m_transmitSocket s1 = m_transmitSocket s @ [p]"
  shows "sendAsset e r rec s' = Inr (s'\<lparr>m_transmitSocket := m_transmitSocket s' @ [p]\<rparr>)"
proof -
  obtain bp bs a n where a: "record_data rec = Inr bp" "sp_data bp = Inr bs" "GetFlatAsset (env_flat e) bs = Inr a"
    "fa_name a = Some n"
    using assms(1) by (auto simp: sendAsset_def fault_simps split: option.splits)
  with assms show ?thesis by (auto simp: sendAsset_def send_packet_def Let_def split: if_splits)
qed

text \<open>The asset named in an answer that names no successor.\<close>

lemma sendAsset_newest:
  assumes "sendAsset e r rec s = Inr s1"
    and "m_transmitSocket s1 = m_transmitSocket s @ [found_packet q k t name author deprecates data]"
    and "record_data rec = Inr (SizedPointer bs)"
  shows "fa_deprecatedBy (asset_root (env_flat e) bs) = 0"
  using assms
  by (auto simp: sendAsset_def send_packet_def found_packet_def GetFlatAsset_def fault_simps key_text.enc_eq_iff
      split: option.splits if_splits)

lemma ProcessMessage_sent:
  assumes "ProcessMessage e m s = Inr s1" "m_transmitSocket s1 = m_transmitSocket s @ [p]" "parse_message m = Inr (Some t)"
  shows "run_task e t s = Inr s1"
  using assms by (auto simp: ProcessMessage_def split: sum.splits fault.splits)

lemma client_getAsset_record:
  assumes "client_getAsset H F net hc key w = Inr ((k, rec), w')" "\<not> record_empty rec"
  obtains bs where "k = key" "rec = ClientRecord (SizedPointer bs)" "asset_valid F bs"
  using assms by (auto simp: client_getAsset_def received_def fault_simps Let_def split: if_splits)

text \<open>After an answer that names no newer asset, the local database has the asset it was made from.\<close>

lemma found_asset_kept:
  assumes "db_wf (env_ldb e) (env_flat e) (m_assetDatabase s)" "writes_succeed (env_ldb e)"
    and "task_findAsset e key s = Inr s1" "p = found_packet q k t name author deprecates data"
    and "m_transmitSocket s1 = m_transmitSocket s @ [p]"
  obtains rec where "findAsset (env_ldb e) (env_flat e) key (m_assetDatabase s1) = Inr rec" "\<not> record_empty rec"
    "\<And>s'. sendAsset e (keyToString key) rec s' = Inr (s'\<lparr>m_transmitSocket := m_transmitSocket s' @ [p]\<rparr>)"
proof -
  let ?F = "env_flat e" and ?db = "env_ldb e"
  note task = assms(3)
  obtain rec0 where rec0: "findAsset ?db ?F key (m_assetDatabase s) = Inr rec0"
    using task by (auto simp: task_findAsset_def fault_simps)
  show ?thesis
  proof (cases "record_empty rec0")
    case False
    with task rec0 have send: "sendAsset e (keyToString key) rec0 s = Inr s1" by (simp add: task_findAsset_def)
    then have "m_assetDatabase s1 = m_assetDatabase s" using sendAsset_shape by fastforce
    with rec0 False sendAsset_sent [OF send assms(5)] show ?thesis by (intro that) auto
  next
    case True
    obtain kr w where get: "client_getAsset (env_http e) ?F (env_net e) (m_httpClient e) key (os_world s) = Inr (kr, w)"
      using task rec0 True by (auto simp: task_findAsset_def fault_simps)
    obtain lk rec1 where kr: "kr = (lk, rec1)" by (cases kr)
    let ?s = "s\<lparr>os_world := w\<rparr>"
    have full: "\<not> record_empty rec1"
    proof
      assume "record_empty rec1"
      with task rec0 True get kr assms(4,5) show False
        by (auto simp: task_findAsset_def send_packet_def found_packet_def Let_def split: if_splits)
    qed
    obtain bs where bs: "lk = key" "rec1 = ClientRecord (SizedPointer bs)" "asset_valid ?F bs"
      using client_getAsset_record [OF get [unfolded kr] full] .
    obtain s2 where s2: "cache_record e key rec1 ?s = Inr s2" "sendAsset e (keyToString key) rec1 s2 = Inr s1"
      using task rec0 True get kr full bs(1) by (auto simp: task_findAsset_def fault_simps)
    then obtain ok d' where store: "storeAsset ?db ?F (env_micros e) key (SizedPointer bs) (m_assetDatabase s) = Inr (ok, d')"
      "s2 = ?s\<lparr>m_assetDatabase := d'\<rparr>"
      by (auto simp: cache_record_def bs(2) fault_simps)
    have "m_transmitSocket s1 = m_transmitSocket s2 @ [p]" using assms(5) store(2) by simp
    note sent = sendAsset_sent [OF s2(2) this] sendAsset_newest [OF s2(2) this [unfolded assms(4)], of bs]
    have ok using store(1) assms(2) storeAsset_batch put_batch_succeeds by blast
    then obtain rec where "findAsset ?db ?F key d' = Inr rec" "\<not> record_empty rec" "record_data rec = Inr (SizedPointer bs)"
      using stored_asset_lookup [OF assms(1), of "env_micros e" key bs d'] store(1) sent(2) bs(2) by auto
    moreover have "m_assetDatabase s1 = d'" using sendAsset_shape [OF s2(2)] store(2) by auto
    moreover have "sendAsset e (keyToString key) rec s' = sendAsset e (keyToString key) rec1 s'" for s'
      using calculation(3) bs(2) by (intro sendAsset_bytes) simp_all
    ultimately show ?thesis using sent(1) by (intro that) auto
  qed
qed

text \<open>
  C12: An asset that was found is answered from the local database from then on: the same
  question gets the same answer, nothing else changes and no request is sent, whatever the
  network has become, when the answer named no newer asset and the local store accepts writes.
\<close>

theorem found_asset_is_cached:
  assumes "db_wf (env_ldb e) (env_flat e) (m_assetDatabase s)" "writes_succeed (env_ldb e)" "key \<noteq> 0"
    and "ProcessMessage e (''/assetFind'', [Osc_string (keyToString key)]) s = Inr s1"
    and "m_transmitSocket s1 = m_transmitSocket s @ [found_packet q k t name author deprecates data]"
    and "env_ldb e' = env_ldb e" "env_flat e' = env_flat e" "packet_size e' = packet_size e"
  shows "ProcessMessage e' (''/assetFind'', [Osc_string (keyToString key)]) s1 =
    Inr (s1\<lparr>m_transmitSocket := m_transmitSocket s1 @ [found_packet q k t name author deprecates data]\<rparr>)"
proof -
  let ?p = "found_packet q k t name author deprecates data"
  note parse = parse_assetFind_key [OF assms(3)]
  have task: "task_findAsset e key s = Inr s1"
    using ProcessMessage_sent [OF assms(4,5) parse] by simp
  obtain rec where "findAsset (env_ldb e) (env_flat e) key (m_assetDatabase s1) = Inr rec" "\<not> record_empty rec"
    "\<And>s'. sendAsset e (keyToString key) rec s' = Inr (s'\<lparr>m_transmitSocket := m_transmitSocket s' @ [?p]\<rparr>)"
    by (rule found_asset_kept [OF assms(1,2) task refl assms(5)]) blast
  then show ?thesis
    using parse assms(6-8) sendAsset_bytes [OF refl assms(7,8)]
    by (simp add: ProcessMessage_def task_findAsset_def)
qed

text \<open>A network that answers every request with one asset, and then one that answers nothing.\<close>

definition tune_net :: "unit network" where
  "tune_net req w = (Some \<lparr>resp_code = Ok, resp_body = pad_encode (plain_asset (sample_asset 2 0))\<rparr>, w)"

definition tune_packet :: osc_message where
  "tune_packet = found_packet (keyToString 1) 2 (enumToTypeString (fa_type flat_asset_default)) ''tune'' 0 0 []"

lemma tune_stored:
  "\<exists>d. cache_record (chunk_env\<lparr>env_net := net\<rparr>) 1 (ClientRecord (SizedPointer (plain_asset (sample_asset 2 0))))
      (sample_state [] ()) = Inr ((sample_state [] ())\<lparr>m_assetDatabase := d\<rparr>)"
  by (simp add: cache_record_def chunk_env_def sample_state_def storeAsset_def GetFlatAsset_def list_entries_eq
      kAssetMaxListEntries_def Let_def)

lemma found_asset_is_cached_witness:
  "\<exists>s1. ProcessMessage (chunk_env\<lparr>env_net := tune_net\<rparr>) (''/assetFind'', [Osc_string (keyToString 1)]) (sample_state [] ()) =
      Inr s1 \<and>
    ProcessMessage (chunk_env\<lparr>env_net := \<lambda>req w. (None, w)\<rparr>) (''/assetFind'', [Osc_string (keyToString 1)]) s1 =
      Inr (s1\<lparr>m_transmitSocket := [tune_packet, tune_packet]\<rparr>)"
proof -
  let ?e = "chunk_env\<lparr>env_net := tune_net\<rparr>" and ?m = "(''/assetFind'', [Osc_string (keyToString 1)])" and ?s = "sample_state [] ()"
  let ?r = "ClientRecord (SizedPointer (plain_asset (sample_asset 2 0)))"
  have "resolves mem_store plain_flat (memory_db []) 1 None"
    by (auto simp: asset_at_def empty_memory_view intro: resolves.missing)
  then have missing: "findAsset mem_store plain_flat 1 (memory_db []) = Inr EmptyRecord"
    using findAsset_outcome(1) [OF db_wfD(1,3) [OF empty_wf], of 1 None] by (simp add: found_def)
  have get: "client_getAsset sample_http plain_flat tune_net \<lparr>m_serverAddress = ''s''\<rparr> 1 () = Inr ((1, ?r), ())"
    using received_page [OF sample_http_ok plain_sample_length, of "asset_valid plain_flat"]
    by (simp add: client_getAsset_def http_send_def tune_net_def sample_http_def Let_def)
  obtain d where d: "cache_record ?e 1 ?r ?s = Inr (?s\<lparr>m_assetDatabase := d\<rparr>)" using tune_stored by blast
  let ?s1 = "?s\<lparr>m_assetDatabase := d, m_transmitSocket := [tune_packet]\<rparr>"
  have "sendAsset ?e (keyToString 1) ?r (?s\<lparr>m_assetDatabase := d\<rparr>) = Inr ?s1"
    by (simp add: sendAsset_def GetFlatAsset_def send_packet_def tune_packet_def found_packet_def chunk_env_def sample_state_def
        sample_asset_def flat_asset_default_def c_str_id keyToString_no_nul)
  then have first: "ProcessMessage ?e ?m ?s = Inr ?s1"
    using missing get d
    by (simp add: ProcessMessage_def parse_assetFind_key task_findAsset_def) (simp add: chunk_env_def sample_state_def)
  have wf: "db_wf (env_ldb ?e) (env_flat ?e) (m_assetDatabase ?s)" "writes_succeed (env_ldb ?e)"
    using empty_wf sample_writes by (simp_all add: chunk_env_def sample_state_def)
  have "m_transmitSocket ?s1 = m_transmitSocket ?s @
      [found_packet (keyToString 1) 2 (enumToTypeString (fa_type flat_asset_default)) ''tune'' 0 0 []]"
    by (simp add: sample_state_def tune_packet_def)
  from found_asset_is_cached [OF wf _ first this, of "chunk_env\<lparr>env_net := \<lambda>req w. (None, w)\<rparr>"]
  have "ProcessMessage (chunk_env\<lparr>env_net := \<lambda>req w. (None, w)\<rparr>) ?m ?s1 = Inr (?s1\<lparr>m_transmitSocket := [tune_packet, tune_packet]\<rparr>)"
    by (simp add: tune_packet_def chunk_env_def)
  with first show ?thesis by blast
qed

end
