(* ===== verification/Asset_Service.thy ===== *)
theory Asset_Service
  imports Find_Properties
begin

text \<open>
  The interface between the client program and the asset server. The client relies on two
  requests, for an asset by key and by name; the locale \<open>asset_service\<close> states what they
  promise, and the client's answers are proved from these laws. The interpretation shows that
  the HTTP client over the network of the asset server keeps them.
\<close>

section \<open>What the client relies on\<close>

text \<open>
  The world \<open>w\<close> holds bytes for a key, and for a name; a request changes nothing and returns
  what is held.
\<close>

locale asset_service =
  fixes F :: flat_lib
    and get :: "u64 \<Rightarrow> 'w \<Rightarrow> fault + (u64 \<times> record_ptr) \<times> 'w"
    and get_named :: "string \<Rightarrow> 'w \<Rightarrow> fault + record_ptr \<times> 'w"
    and held :: "'w \<Rightarrow> u64 \<Rightarrow> bytes option"
    and held_named :: "'w \<Rightarrow> string \<Rightarrow> bytes option"
    and serving :: "'w \<Rightarrow> bool"
  assumes get_held: "serving w \<Longrightarrow> held w key = Some bs \<Longrightarrow> get key w = Inr ((key, ClientRecord (SizedPointer bs)), w)"
    and get_missing: "serving w \<Longrightarrow> held w key = None \<Longrightarrow> get key w = Inr ((key, EmptyRecord), w)"
    and get_named_held: "serving w \<Longrightarrow> held_named w name = Some bs \<Longrightarrow> get_named name w = Inr (ClientRecord (SizedPointer bs), w)"
    and get_named_missing: "serving w \<Longrightarrow> held_named w name = None \<Longrightarrow> get_named name w = Inr (EmptyRecord, w)"
    and held_valid: "serving w \<Longrightarrow> held w key = Some bs \<or> held_named w name = Some bs \<Longrightarrow> asset_valid F bs"

text \<open>A client whose requests are those of the service.\<close>

definition uses_service :: "('db, 'h, 'w) osc_env \<Rightarrow> flat_lib \<Rightarrow> (u64 \<Rightarrow> 'w \<Rightarrow> fault + (u64 \<times> record_ptr) \<times> 'w) \<Rightarrow>
    (string \<Rightarrow> 'w \<Rightarrow> fault + record_ptr \<times> 'w) \<Rightarrow> bool" where
  "uses_service e F get get_named \<longleftrightarrow> env_flat e = F \<and>
     client_getAsset (env_http e) F (env_net e) (m_httpClient e) = get \<and>
     client_getNamedAsset (env_http e) F (env_net e) (m_httpClient e) = get_named"

text \<open>An asset the client can pass on: it has a name and is in one to eight lists.\<close>

definition sendable :: "flat_asset \<Rightarrow> bool" where
  "sendable a \<longleftrightarrow> fa_name a \<noteq> None \<and> (\<exists>ls. fa_lists a = Some ls \<and> length ls \<le> kAssetMaxListEntries)"

definition asset_packet :: "string \<Rightarrow> flat_asset \<Rightarrow> osc_message" where
  "asset_packet requested a =
     (''/assetFound'',
      [Osc_string (c_str requested), Osc_string (keyToString (fa_key a)), Osc_string (enumToTypeString (fa_type a)),
       Osc_string (c_str (the (fa_name a))), Osc_string (keyToString (fa_author a)),
       Osc_string (keyToString (fa_deprecatedBy a)), Osc_string (keyToString (fa_deprecates a)),
       Osc_blob (case fa_inlineData a of None \<Rightarrow> [] | Some d \<Rightarrow> d)])"

lemma sendAsset_sendable:
  assumes "record_data rec = Inr (SizedPointer bs)" "asset_valid (env_flat e) bs" "sendable (asset_root (env_flat e) bs)"
  shows "sendAsset e r rec s = Inr (send_packet e kDataChunkSize (asset_packet r (asset_root (env_flat e) bs)) s)"
  using assms by (auto simp: sendAsset_def GetFlatAsset_def sendable_def asset_packet_def)

lemma cache_record_sendable:
  assumes "opened (env_ldb e) (m_assetDatabase s)" "asset_valid (env_flat e) bs" "sendable (asset_root (env_flat e) bs)"
  shows "\<exists>d. cache_record e k (ClientRecord (SizedPointer bs)) s = Inr (s\<lparr>m_assetDatabase := d\<rparr>)"
proof -
  obtain ls where ls: "fa_lists (asset_root (env_flat e) bs) = Some ls" "length ls \<le> kAssetMaxListEntries"
    using assms(3) by (auto simp: sendable_def)
  from storeAsset_refines [OF assms(1,2) this, of "env_micros e" k] show ?thesis
    by (auto simp: cache_record_def)
qed

context asset_service
begin

lemma find_held:
  assumes "uses_service e F get get_named" "serving (os_world s)" "held (os_world s) key = Some bs" "sendable (asset_root F bs)"
    and "opened (env_ldb e) (m_assetDatabase s)" "findAsset (env_ldb e) F key (m_assetDatabase s) = Inr EmptyRecord"
  shows "\<exists>d. task_findAsset e key s =
    Inr (send_packet e kDataChunkSize (asset_packet (keyToString key) (asset_root F bs)) (s\<lparr>m_assetDatabase := d\<rparr>))"
proof -
  note e = assms(1) [unfolded uses_service_def]
  have valid: "asset_valid F bs" using held_valid assms(2,3) by blast
  obtain d where d: "cache_record e key (ClientRecord (SizedPointer bs)) s = Inr (s\<lparr>m_assetDatabase := d\<rparr>)"
    using cache_record_sendable [of e s bs key] assms(4,5) valid e by auto
  have "sendAsset e (keyToString key) (ClientRecord (SizedPointer bs)) s' =
      Inr (send_packet e kDataChunkSize (asset_packet (keyToString key) (asset_root F bs)) s')" for s'
    using sendAsset_sendable [of "ClientRecord (SizedPointer bs)" bs e] assms(4) valid e by simp
  then show ?thesis
    using get_held [OF assms(2,3)] assms(6) e d by (auto simp: task_findAsset_def)
qed

lemma find_missing:
  assumes "uses_service e F get get_named" "serving (os_world s)" "held (os_world s) key = None"
    and "findAsset (env_ldb e) F key (m_assetDatabase s) = Inr EmptyRecord"
  shows "task_findAsset e key s = Inr (send_packet e kDataChunkSize
    (''/assetError'', [Osc_string (keyToString key), Osc_string ''Failed to find asset associated with key.'']) s)"
  using get_missing [OF assms(2,3)] assms(1,4) by (simp add: task_findAsset_def uses_service_def Let_def)

lemma find_named_held:
  assumes "uses_service e F get get_named" "serving (os_world s)" "held_named (os_world s) name = Some bs"
    and "sendable (asset_root F bs)" "opened (env_ldb e) (m_assetDatabase s)"
  shows "\<exists>d. task_findNamedAsset e name s =
    Inr (send_packet e kDataChunkSize (asset_packet name (asset_root F bs)) (s\<lparr>m_assetDatabase := d\<rparr>))"
proof -
  note e = assms(1) [unfolded uses_service_def]
  have valid: "asset_valid F bs" using held_valid assms(2,3) by blast
  obtain d where d: "cache_record e (fa_key (asset_root F bs)) (ClientRecord (SizedPointer bs)) s = Inr (s\<lparr>m_assetDatabase := d\<rparr>)"
    using cache_record_sendable [of e s bs] assms(4,5) valid e by auto
  have "sendAsset e name (ClientRecord (SizedPointer bs)) s' =
      Inr (send_packet e kDataChunkSize (asset_packet name (asset_root F bs)) s')" for s'
    using sendAsset_sendable [of "ClientRecord (SizedPointer bs)" bs e] assms(4) valid e by simp
  then show ?thesis
    using get_named_held [OF assms(2,3)] e d valid by (auto simp: task_findNamedAsset_def GetFlatAsset_def)
qed

lemma find_named_missing:
  assumes "uses_service e F get get_named" "serving (os_world s)" "held_named (os_world s) name = None"
  shows "task_findNamedAsset e name s = Inr (send_packet e kDataChunkSize
    (''/assetError'', [Osc_string (c_str name), Osc_string ''Failed to find named asset.'']) s)"
  using get_named_missing [OF assms(2,3)] assms(1) by (simp add: task_findNamedAsset_def uses_service_def Let_def)

end


section \<open>The asset server keeps the laws\<close>

text \<open>What a lookup makes available.\<close>

definition record_bytes :: "record_ptr \<Rightarrow> bytes option" where
  "record_bytes rec =
     (if record_empty rec then None
      else case rbind (record_data rec) sp_data of Inl e \<Rightarrow> None | Inr bs \<Rightarrow> Some bs)"

definition lookup_bytes :: "fault + record_ptr \<Rightarrow> bytes option" where
  "lookup_bytes r = (case r of Inl e \<Rightarrow> None | Inr rec \<Rightarrow> record_bytes rec)"

text \<open>
  A server in service: its database is well formed, no chain of deprecations runs in a circle
  and every asset fits a page.
\<close>

definition in_service :: "http_lib \<Rightarrow> 'db leveldb \<Rightarrow> flat_lib \<Rightarrow> 'db asset_database \<Rightarrow> bool" where
  "in_service H ldb F d \<longleftrightarrow>
     http_ok H \<and> db_wf ldb F d \<and> (\<forall>k bs. view ldb d (AssetKey k) = Some bs \<longrightarrow> length bs \<le> 3069) \<and>
     (\<forall>k. \<exists>r. resolves ldb F d k r)"

definition answerable :: "flat_lib \<Rightarrow> record_ptr \<Rightarrow> bool" where
  "answerable F rec \<longleftrightarrow> rec = EmptyRecord \<or>
     \<not> record_empty rec \<and> (\<exists>bs. record_data rec = Inr (SizedPointer bs) \<and> asset_valid F bs \<and> length bs \<le> 3069)"

lemma in_service_lookup:
  assumes "in_service H ldb F d"
  shows "\<exists>rec. findAsset ldb F k d = Inr rec \<and> answerable F rec"
proof -
  note s = assms [unfolded in_service_def]
  obtain r where r: "resolves ldb F d k r" using s by blast
  obtain rec where rec: "findAsset ldb F k d = Inr rec" "found ldb d r rec"
    using findAsset_outcome(1) [OF db_wfD(1,3) r] s by blast
  moreover have "asset_valid F bs \<and> length bs \<le> 3069" if "view ldb d (AssetKey j) = Some bs" for j bs
    using s db_wfD(3) [of ldb F d] that by (auto simp: assets_verified_def)
  ultimately show ?thesis by (auto simp: found_def answerable_def split: option.splits)
qed

lemma findNamedAsset_lookup:
  assumes "db_wf ldb F d"
  shows "findNamedAsset ldb F name d = Inr EmptyRecord \<or> (\<exists>k. findNamedAsset ldb F name d = findAsset ldb F k d)"
proof -
  note o = db_wfD(1) [OF assms]
  show ?thesis
  proof (cases "view ldb d (AssetName name)")
    case None
    then have "map_of (ldb_entries ldb (the (m_database d))) (of_chars (kAssetNamePrefix @ name)) = None"
      by (simp add: view_def db_view_def)
    with seek_match_iff [of ldb "of_chars (kAssetNamePrefix @ name)" "the (m_database d)"] o show ?thesis
      by (simp add: findNamedAsset_def opened_ptr [OF o] Let_def opened_def)
  next
    case (Some v)
    then have "length v = 8" using assms by (auto simp: db_wf_def)
    then have "read_u64 v = Inr (le_word v)" by (simp add: read_u64_def)
    moreover have "map_of (ldb_entries ldb (the (m_database d))) (of_chars (kAssetNamePrefix @ name)) = Some v"
      using Some by (simp add: view_def db_view_def)
    ultimately have "findNamedAsset ldb F name d = findAsset ldb F (le_word v) d"
      using seek_value [of ldb "the (m_database d)" "of_chars (kAssetNamePrefix @ name)" v] o
      by (simp add: findNamedAsset_def opened_ptr [OF o] Let_def opened_def)
    then show ?thesis by blast
  qed
qed

lemma in_service_named:
  assumes "in_service H ldb F d"
  shows "\<exists>rec. findNamedAsset ldb F name d = Inr rec \<and> answerable F rec"
proof -
  have "db_wf ldb F d" using assms by (simp add: in_service_def)
  with findNamedAsset_lookup [OF this, of name] in_service_lookup [OF assms] show ?thesis
    by (auto simp: answerable_def)
qed

text \<open>What comes back for an answerable record.\<close>

lemma answerable_received:
  assumes "http_ok H" "answerable F rec"
  shows "\<exists>r. send_record H rec d = Inr (r, d) \<and> received H (asset_valid F) r =
    Inr (case record_bytes rec of None \<Rightarrow> EmptyRecord | Some bs \<Rightarrow> ClientRecord (SizedPointer bs))"
proof (cases "record_empty rec")
  case True
  with assms(2) have "rec = EmptyRecord" by (simp add: answerable_def)
  then show ?thesis by (simp add: send_record_def respond_def received_def record_bytes_def)
next
  case False
  with assms(2) obtain bs where bs: "record_data rec = Inr (SizedPointer bs)" "asset_valid F bs" "length bs \<le> 3069"
    by (auto simp: answerable_def)
  show ?thesis
    using send_found [OF assms(1) bs(3) False bs(1)] received_page [where valid = "asset_valid F", OF assms(1) bs(3,2)] False bs(1)
    by (intro exI [of _ "\<lparr>resp_code = Ok, resp_body = b64_encode H bs\<rparr>"]) (simp add: record_bytes_def)
qed

lemma server_answers:
  assumes "in_service H ldb F d"
  shows "client_getAsset H F (server_net H ldb F now addr) \<lparr>m_serverAddress = addr\<rparr> key d =
      Inr ((key, case lookup_bytes (findAsset ldb F key d) of None \<Rightarrow> EmptyRecord | Some bs \<Rightarrow> ClientRecord (SizedPointer bs)), d)"
    and "client_getNamedAsset H F (server_net H ldb F now addr) \<lparr>m_serverAddress = addr\<rparr> name d =
      Inr (case lookup_bytes (findNamedAsset ldb F name d) of None \<Rightarrow> EmptyRecord | Some bs \<Rightarrow> ClientRecord (SizedPointer bs), d)"
proof -
  have H: "http_ok H" using assms by (simp add: in_service_def)
  note sent = http_send_server serve_routes [OF H, simplified] key_text.dec_enc Let_def
  obtain rec where rec: "findAsset ldb F key d = Inr rec" "answerable F rec"
    using in_service_lookup [OF assms, of key] by blast
  obtain r where "send_record H rec d = Inr (r, d)"
    "received H (asset_valid F) r = Inr (case record_bytes rec of None \<Rightarrow> EmptyRecord | Some bs \<Rightarrow> ClientRecord (SizedPointer bs))"
    using answerable_received [OF H rec(2), of d] by blast
  with rec(1) show "client_getAsset H F (server_net H ldb F now addr) \<lparr>m_serverAddress = addr\<rparr> key d =
      Inr ((key, case lookup_bytes (findAsset ldb F key d) of None \<Rightarrow> EmptyRecord | Some bs \<Rightarrow> ClientRecord (SizedPointer bs)), d)"
    by (simp add: client_getAsset_def http_getAsset_def sent lookup_bytes_def)
  obtain rec where rec: "findNamedAsset ldb F name d = Inr rec" "answerable F rec"
    using in_service_named [OF assms, of name] by blast
  obtain r where "send_record H rec d = Inr (r, d)"
    "received H (asset_valid F) r = Inr (case record_bytes rec of None \<Rightarrow> EmptyRecord | Some bs \<Rightarrow> ClientRecord (SizedPointer bs))"
    using answerable_received [OF H rec(2), of d] by blast
  with rec(1) show "client_getNamedAsset H F (server_net H ldb F now addr) \<lparr>m_serverAddress = addr\<rparr> name d =
      Inr (case lookup_bytes (findNamedAsset ldb F name d) of None \<Rightarrow> EmptyRecord | Some bs \<Rightarrow> ClientRecord (SizedPointer bs), d)"
    by (simp add: client_getNamedAsset_def http_getNamedAsset_def sent lookup_bytes_def)
qed

lemma answerable_bytes: "answerable F rec \<Longrightarrow> record_bytes rec = Some bs \<Longrightarrow> asset_valid F bs"
  by (auto simp: answerable_def record_bytes_def split: if_splits)

lemma in_service_valid:
  assumes "in_service H ldb F d"
    and "lookup_bytes (findAsset ldb F key d) = Some bs \<or> lookup_bytes (findNamedAsset ldb F name d) = Some bs"
  shows "asset_valid F bs"
  using in_service_lookup [OF assms(1), of key] in_service_named [OF assms(1), of name] assms(2) answerable_bytes
  by (auto simp: lookup_bytes_def)

interpretation server: asset_service F "client_getAsset H F (server_net H ldb F now addr) \<lparr>m_serverAddress = addr\<rparr>"
  "client_getNamedAsset H F (server_net H ldb F now addr) \<lparr>m_serverAddress = addr\<rparr>"
  "\<lambda>d key. lookup_bytes (findAsset ldb F key d)" "\<lambda>d name. lookup_bytes (findNamedAsset ldb F name d)" "in_service H ldb F"
  for F H ldb now addr
  by unfold_locales (simp_all add: server_answers in_service_valid)

lemma parse_assetFindName_name:
  "parse_message (''/assetFindName'', [Osc_string name]) = Inr (Some (Find_named_asset name))"
  by (simp add: parse_message_def parse_assetFindName_def)

text \<open>
  C10: A client connected to a server in service sends its user what the server holds. For a
  name it always asks the server, whatever its own database holds; for a key when its own
  database does not hold it. The answer is the asset the server's own lookup finds, followed
  through its deprecations, or an error when it finds none; the server is as before.
\<close>

theorem client_passes_on:
  assumes "in_service H ldb F (os_world s)" "connected e H ldb F X now addr"
    and "db_wf (env_ldb e) F (m_assetDatabase s)"
    and "\<And>bs. lookup_bytes (findAsset ldb F key (os_world s)) = Some bs \<or>
        lookup_bytes (findNamedAsset ldb F name (os_world s)) = Some bs \<Longrightarrow> sendable (asset_root F bs)"
    and "key \<noteq> 0" "view (env_ldb e) (m_assetDatabase s) (AssetKey key) = None"
  shows "(\<exists>d. ProcessMessage e (''/assetFind'', [Osc_string (keyToString key)]) s =
      Inr (send_packet e kDataChunkSize
        (case lookup_bytes (findAsset ldb F key (os_world s)) of
           None \<Rightarrow> (''/assetError'', [Osc_string (keyToString key), Osc_string ''Failed to find asset associated with key.''])
         | Some bs \<Rightarrow> asset_packet (keyToString key) (asset_root F bs)) (s\<lparr>m_assetDatabase := d\<rparr>))) \<and>
    (\<exists>d. ProcessMessage e (''/assetFindName'', [Osc_string name]) s =
      Inr (send_packet e kDataChunkSize
        (case lookup_bytes (findNamedAsset ldb F name (os_world s)) of
           None \<Rightarrow> (''/assetError'', [Osc_string (c_str name), Osc_string ''Failed to find named asset.''])
         | Some bs \<Rightarrow> asset_packet name (asset_root F bs)) (s\<lparr>m_assetDatabase := d\<rparr>)))"
proof -
  have uses: "uses_service e F (client_getAsset H F (server_net H ldb F now addr) \<lparr>m_serverAddress = addr\<rparr>)
      (client_getNamedAsset H F (server_net H ldb F now addr) \<lparr>m_serverAddress = addr\<rparr>)"
    using assms(2) by (simp add: connected_def uses_service_def)
  have "resolves (env_ldb e) F (m_assetDatabase s) key None"
    using assms(6) by (auto simp: asset_at_def intro: resolves.missing)
  then have local: "findAsset (env_ldb e) F key (m_assetDatabase s) = Inr EmptyRecord"
    using findAsset_outcome(1) [OF db_wfD(1,3) [OF assms(3)], of key None] by (simp add: found_def)
  have same: "s = s\<lparr>m_assetDatabase := m_assetDatabase s\<rparr>" by simp
  have key: "\<exists>d. task_findAsset e key s = Inr (send_packet e kDataChunkSize
      (case lookup_bytes (findAsset ldb F key (os_world s)) of
         None \<Rightarrow> (''/assetError'', [Osc_string (keyToString key), Osc_string ''Failed to find asset associated with key.''])
       | Some bs \<Rightarrow> asset_packet (keyToString key) (asset_root F bs)) (s\<lparr>m_assetDatabase := d\<rparr>))"
  proof (cases "lookup_bytes (findAsset ldb F key (os_world s))")
    case None
    from server.find_missing [OF uses assms(1) None local] None show ?thesis
      by (intro exI [of _ "m_assetDatabase s"]) simp
  next
    case (Some bs)
    from server.find_held [OF uses assms(1) Some assms(4) db_wfD(1) [OF assms(3)] local] Some show ?thesis by simp
  qed
  have name: "\<exists>d. task_findNamedAsset e name s = Inr (send_packet e kDataChunkSize
      (case lookup_bytes (findNamedAsset ldb F name (os_world s)) of
         None \<Rightarrow> (''/assetError'', [Osc_string (c_str name), Osc_string ''Failed to find named asset.''])
       | Some bs \<Rightarrow> asset_packet name (asset_root F bs)) (s\<lparr>m_assetDatabase := d\<rparr>))"
  proof (cases "lookup_bytes (findNamedAsset ldb F name (os_world s))")
    case None
    from server.find_named_missing [OF uses assms(1) None] None show ?thesis
      by (intro exI [of _ "m_assetDatabase s"]) simp
  next
    case (Some bs)
    from server.find_named_held [OF uses assms(1) Some assms(4) db_wfD(1) [OF assms(3)]] Some show ?thesis by simp
  qed
  show ?thesis
    using key name
    by (auto simp: ProcessMessage_def parse_assetFind_key [OF assms(5)] parse_assetFindName_name)
qed

text \<open>A server that holds one asset, and a client with an empty database.\<close>

lemma sample_service:
  "in_service sample_http mem_store plain_flat (memory_db (sample_db 0))"
  "lookup_bytes (findAsset mem_store plain_flat 7 (memory_db (sample_db 0))) = Some (plain_asset (sample_asset 7 0))"
  "lookup_bytes (findNamedAsset mem_store plain_flat ''tune'' (memory_db (sample_db 0))) = Some (plain_asset (sample_asset 7 0))"
proof -
  have wf: "db_wf mem_store plain_flat (memory_db (sample_db 0))"
    using storeAsset_db_wf [OF empty_wf sample_stored] .
  have at: "asset_at mem_store plain_flat (memory_db (sample_db 0)) k = (if k = 7 then Some (sample_asset 7 0) else None)" for k
    by (simp add: asset_at_def sample_view)
  have "resolves mem_store plain_flat (memory_db (sample_db 0)) 7 (Some 7)"
    by (rule resolves.current, simp add: at, simp)
  moreover have "resolves mem_store plain_flat (memory_db (sample_db 0)) k None" if "k \<noteq> 7" for k
    by (rule resolves.missing) (simp add: at that)
  ultimately have "\<exists>r. resolves mem_store plain_flat (memory_db (sample_db 0)) k r" for k
    by (cases "k = 7") auto
  moreover have "length bs \<le> 3069" if "view mem_store (memory_db (sample_db 0)) (AssetKey k) = Some bs" for k bs
    using that plain_sample_length by (auto simp: sample_view split: if_splits)
  ultimately show "in_service sample_http mem_store plain_flat (memory_db (sample_db 0))"
    using wf sample_http_ok by (simp add: in_service_def)
  obtain rec where rec: "findAsset mem_store plain_flat 7 (memory_db (sample_db 0)) = Inr rec" "\<not> record_empty rec"
    "record_data rec = Inr (SizedPointer (plain_asset (sample_asset 7 0)))"
    "findNamedAsset mem_store plain_flat ''tune'' (memory_db (sample_db 0)) = Inr rec"
    using stored_asset_lookup [OF empty_wf sample_stored] by auto
  then show "lookup_bytes (findAsset mem_store plain_flat 7 (memory_db (sample_db 0))) = Some (plain_asset (sample_asset 7 0))"
    "lookup_bytes (findNamedAsset mem_store plain_flat ''tune'' (memory_db (sample_db 0))) = Some (plain_asset (sample_asset 7 0))"
    by (simp_all add: lookup_bytes_def record_bytes_def)
qed

lemma client_passes_on_witness:
  "(\<exists>d. ProcessMessage (sample_env 1) (''/assetFind'', [Osc_string (keyToString 7)]) (sample_state [] (memory_db (sample_db 0))) =
      Inr ((sample_state [] (memory_db (sample_db 0)))\<lparr>m_assetDatabase := d,
        m_transmitSocket := [asset_packet (keyToString 7) (sample_asset 7 0)]\<rparr>)) \<and>
   (\<exists>d. ProcessMessage (sample_env 1) (''/assetFindName'', [Osc_string ''tune'']) (sample_state [] (memory_db (sample_db 0))) =
      Inr ((sample_state [] (memory_db (sample_db 0)))\<lparr>m_assetDatabase := d,
        m_transmitSocket := [asset_packet ''tune'' (sample_asset 7 0)]\<rparr>))"
proof -
  let ?s = "sample_state [] (memory_db (sample_db 0))"
  have world: "os_world ?s = memory_db (sample_db 0)" "m_transmitSocket ?s = []" by (simp_all add: sample_state_def)
  have wf: "db_wf (env_ldb (sample_env 1)) plain_flat (m_assetDatabase ?s)"
    and none: "view (env_ldb (sample_env 1)) (m_assetDatabase ?s) (AssetKey 7) = None"
    using empty_wf by (simp_all add: sample_env_def sample_state_def empty_memory_view)
  have sendable: "sendable (asset_root plain_flat bs)"
    if "lookup_bytes (findAsset mem_store plain_flat 7 (os_world ?s)) = Some bs \<or>
        lookup_bytes (findNamedAsset mem_store plain_flat ''tune'' (os_world ?s)) = Some bs" for bs
    using that by (auto simp: world sample_service sendable_def kAssetMaxListEntries_def)
  have fits: "packet_size (sample_env 1) m \<le> kDataChunkSize" for m by (simp add: sample_env_def)
  from client_passes_on [where name = "''tune''", OF _ sample_env_connected [of 1] wf sendable _ none] show ?thesis
    by (simp add: world sample_service send_packet_def fits)
qed

end
