(* ===== verification/Osc_Answers.thy ===== *)
theory Osc_Answers
  imports Osc_Properties
begin

text \<open>
  The answers of the client as the receivers in \<open>classes/SCLOrkConfab.sc\<close> take them apart: the
  address, the types of the arguments, and the first argument, under which the receiver has
  registered its callback.
\<close>

section \<open>The types of arguments\<close>

datatype osc_tag = Tag_i | Tag_s | Tag_b | Tag_other

fun tag_of :: "osc_value \<Rightarrow> osc_tag" where
  "tag_of (Osc_int i) = Tag_i"
| "tag_of (Osc_string s) = Tag_s"
| "tag_of (Osc_blob b) = Tag_b"
| "tag_of Osc_other = Tag_other"

type_synonym signature = "string \<times> osc_tag list"

text \<open>The signatures of the answers to each message.\<close>

definition answer_signatures :: "string \<Rightarrow> signature list" where
  "answer_signatures address =
     (if address = ''/assetFind'' \<or> address = ''/assetFindName'' then
        [(''/assetFound'', [Tag_s, Tag_s, Tag_s, Tag_s, Tag_s, Tag_s, Tag_s, Tag_b]), (''/assetError'', [Tag_s, Tag_s])]
      else if address = ''/assetLoad'' then [(''/assetLoaded'', [Tag_s, Tag_s, Tag_s])]
      else if address = ''/assetAddFile'' \<or> address = ''/assetAddString'' then [(''/assetAdded'', [Tag_i, Tag_s])]
      else if address = ''/listAdd'' \<or> address = ''/listFind'' then
        [(''/listFound'', [Tag_s, Tag_s]), (''/listError'', [Tag_s, Tag_s])]
      else if address = ''/listNext'' then [(''/listItems'', [Tag_s, Tag_s])]
      else [])"

text \<open>
  What an answer repeats of the message: a key as its sixteen digits, a name up to its first
  zero, a serial number as it is.
\<close>

definition echo :: "string \<Rightarrow> osc_value \<Rightarrow> osc_value" where
  "echo address v =
     (case v of
        Osc_string s \<Rightarrow>
          if address = ''/assetFind'' \<or> address = ''/assetLoad'' \<or> address = ''/listNext''
          then Osc_string (keyToString (stringToKey s)) else Osc_string (c_str s)
      | _ \<Rightarrow> v)"

definition answers :: "osc_message \<Rightarrow> osc_message \<Rightarrow> bool" where
  "answers m p \<longleftrightarrow>
     (case (snd m, snd p) of
        (request # _, first # _) \<Rightarrow>
          (fst p, map tag_of (snd p)) \<in> set (answer_signatures (fst m)) \<and> first = echo (fst m) request
      | _ \<Rightarrow> False)"

text \<open>
  What a task does to the packets: it fills one that is fit for what started it, and sends it
  when it fits its buffer, which has \<open>kDataChunkSize\<close> bytes or more.
\<close>

definition sends :: "('db, 'h, 'w) osc_env \<Rightarrow> (osc_message \<Rightarrow> bool) \<Rightarrow> ('db, 'w) osc_handler \<Rightarrow> ('db, 'w) osc_handler \<Rightarrow> bool" where
  "sends e P s s' \<longleftrightarrow> (\<exists>p. P p \<and>
     (m_transmitSocket s' = m_transmitSocket s @ [p] \<or>
      m_transmitSocket s' = m_transmitSocket s \<and> kDataChunkSize < packet_size e p))"

lemma buffer_sizes: "kDataChunkSize \<le> kPageSize"
  by (simp add: kDataChunkSize_val kPageSize_def)

lemma sends_packet:
  assumes "P p" "m_transmitSocket s' = m_transmitSocket s" "n = kDataChunkSize \<or> n = kPageSize"
  shows "sends e P s (send_packet e n p s')"
  unfolding sends_def using assms buffer_sizes
  by (intro exI [of _ p]) (auto simp: send_packet_def)

lemma sends_mono: "sends e P s s' \<Longrightarrow> (\<And>p. P p \<Longrightarrow> Q p) \<Longrightarrow> sends e Q s s'"
  by (auto simp: sends_def)

definition answer_to :: "string \<Rightarrow> osc_value \<Rightarrow> osc_message \<Rightarrow> bool" where
  "answer_to address v p \<longleftrightarrow>
     (\<exists>as. snd p = v # as) \<and> (fst p, map tag_of (snd p)) \<in> set (answer_signatures address)"

lemmas answer_simps = answer_to_def answer_signatures_def

lemma sendAsset_sends:
  assumes "sendAsset e r rec s1 = Inr s'" "m_transmitSocket s1 = m_transmitSocket s"
    and "address = ''/assetFind'' \<or> address = ''/assetFindName''"
  shows "sends e (answer_to address (Osc_string (c_str r))) s s'"
  using assms by (auto simp: sendAsset_def fault_simps answer_simps split: option.splits intro!: sends_packet)

lemma cached_sends:
  assumes "cache_record e k rec s1 = Inr s2" "sendAsset e r rec' s2 = Inr s'" "m_transmitSocket s1 = m_transmitSocket s"
    and "address = ''/assetFind'' \<or> address = ''/assetFindName''"
  shows "sends e (answer_to address (Osc_string (c_str r))) s s'"
  using cache_record_shape [OF assms(1)] assms(3,4) by (auto intro: sendAsset_sends [OF assms(2)])

lemma c_str_key [simp]: "c_str (keyToString k) = keyToString k"
  by (rule c_str_id) (rule keyToString_no_nul)

lemma task_findAsset_sends:
  "task_findAsset e k s = Inr s' \<Longrightarrow> sends e (answer_to ''/assetFind'' (Osc_string (keyToString k))) s s'"
  using sendAsset_sends [of e "keyToString k" _ _ s' s "''/assetFind''"]
    cached_sends [of e _ _ _ _ "keyToString k" _ s' s "''/assetFind''"]
  by (auto simp: task_findAsset_def fault_simps Let_def answer_simps split: if_splits intro!: sends_packet)

lemma task_findNamedAsset_sends:
  "task_findNamedAsset e n s = Inr s' \<Longrightarrow> sends e (answer_to ''/assetFindName'' (Osc_string (c_str n))) s s'"
  using cached_sends [of e _ _ _ _ n _ s' s "''/assetFindName''"]
  by (auto simp: task_findNamedAsset_def fault_simps Let_def answer_simps split: if_splits intro!: sends_packet)

lemma task_loadAsset_sends:
  assumes "task_loadAsset e k s = Inr s'"
  shows "sends e (answer_to ''/assetLoad'' (Osc_string (keyToString k))) s s'"
proof -
  have "m_transmitSocket s1 = m_transmitSocket s" if "locate_asset e k (s\<lparr>os_files := fs\<rparr>) = Inr (info, s1)" for fs info s1
    using locate_asset_effect [OF that] by simp
  with assms show ?thesis
    by (auto simp: task_loadAsset_def Let_def fault_simps answer_simps split: if_splits intro!: sends_packet)
qed

lemma list_sends:
  "task_addList e n s = Inr s' \<Longrightarrow> sends e (answer_to ''/listAdd'' (Osc_string (c_str n))) s s'"
  "task_findList e n s = Inr s' \<Longrightarrow> sends e (answer_to ''/listFind'' (Osc_string (c_str n))) s s'"
  "task_nextList e k t s = Inr s' \<Longrightarrow> sends e (answer_to ''/listNext'' (Osc_string (keyToString k))) s s'"
  by (auto simp: task_addList_def task_findList_def task_nextList_def fault_simps answer_simps
      split: if_splits intro!: sends_packet)

lemma add_sends:
  "task_addAssetFile e t n name author deps ids path s = Inr s' \<Longrightarrow> sends e (answer_to ''/assetAddFile'' (Osc_int n)) s s'"
  "task_addAssetString e t n name author deps ids str s = Inr s' \<Longrightarrow> sends e (answer_to ''/assetAddString'' (Osc_int n)) s s'"
  by (auto simp: task_addAssetFile_def task_addAssetString_def fault_simps answer_simps
      split: option.splits intro!: sends_packet)


section \<open>Messages and answers\<close>

lemma answer_to_answers: "answer_to address (echo address v) p \<Longrightarrow> answers (address, v # as) p"
  by (auto simp: answer_to_def answers_def)

text \<open>The task of a message, by its address.\<close>

lemma parsed_keys:
  "parse_assetFind as = Inr (Some t) \<Longrightarrow> \<exists>k. as = [Osc_string k] \<and> t = Find_asset (stringToKey k)"
  "parse_assetLoad as = Inr (Some t) \<Longrightarrow> \<exists>k. as = [Osc_string k] \<and> t = Load_asset (stringToKey k)"
  "parse_listNext as = Inr (Some t) \<Longrightarrow> \<exists>k n r. as = Osc_string k # r \<and> t = Next_list (stringToKey k) n"
  by (auto simp: parse_assetFind_def parse_assetLoad_def parse_listNext_def fault_simps Let_def
      elim!: as_string.elims at_end.elims split: if_splits)

lemma parsed_names:
  "parse_assetFindName as = Inr (Some t) \<Longrightarrow> \<exists>n. as = [Osc_string n] \<and> t = Find_named_asset n"
  "parse_listAdd as = Inr (Some t) \<Longrightarrow> \<exists>n. as = [Osc_string n] \<and> t = Add_list n"
  "parse_listFind as = Inr (Some t) \<Longrightarrow> \<exists>n. as = [Osc_string n] \<and> t = Find_list n"
  by (auto simp: parse_assetFindName_def parse_listAdd_def parse_listFind_def fault_simps
      elim!: as_string.elims at_end.elims)

lemma parsed_assets:
  "parse_assetAddFile as = Inr (Some t) \<Longrightarrow>
    \<exists>n r ty name au de ids path. as = Osc_int n # r \<and> t = Add_asset_file ty n name au de ids path"
  "parse_assetAddString as = Inr (Some t) \<Longrightarrow>
    \<exists>n r ty name au de ids str. as = Osc_int n # r \<and> t = Add_asset_string ty n name au de ids str"
  by (cases as rule: as_int32.cases;
      auto simp: parse_assetAddFile_def parse_assetAddString_def fault_simps Let_def split: if_splits)+

lemma task_answers:
  assumes "parse_message (address, as) = Inr (Some t)" "run_task e t s = Inr s'"
  shows "sends e (answers (address, as)) s s'"
proof -
  have shape: "\<exists>v r. as = v # r \<and> sends e (answer_to address (echo address v)) s s'"
    using assms
    by (auto simp: parse_message_def echo_def split: if_splits dest!: parsed_keys parsed_names parsed_assets
        intro: task_findAsset_sends task_findNamedAsset_sends task_loadAsset_sends list_sends add_sends)
  then show ?thesis by (auto intro: sends_mono answer_to_answers)
qed


text \<open>
  When a message gets no answer: it is no request, the file system throws while its task runs,
  or the packet is larger than its buffer.
\<close>

definition no_task :: "('db, 'h, 'w) osc_env \<Rightarrow> osc_message \<Rightarrow> ('db, 'w) osc_handler \<Rightarrow> bool" where
  "no_task e m s \<longleftrightarrow>
     (case parse_message m of Inr (Some t) \<Rightarrow> run_task e t s = Inl FilesystemError | _ \<Rightarrow> True)"

definition answered :: "('db, 'h, 'w) osc_env \<times> osc_message \<Rightarrow> osc_message list \<Rightarrow> bool" where
  "answered em out \<longleftrightarrow>
     (case em of (e, m) \<Rightarrow>
       (\<exists>p. answers m p \<and> (out = [p] \<or> out = [] \<and> kDataChunkSize < packet_size e p)) \<or>
       out = [] \<and> (\<exists>s. no_task e m s))"

lemma ProcessMessage_answered:
  assumes "ProcessMessage e m s = Inr s'"
  obtains out where "answered (e, m) out" "m_transmitSocket s' = m_transmitSocket s @ out"
proof (cases "no_task e m s")
  case True
  then have "s' = s"
    using assms by (auto simp: ProcessMessage_def no_task_def split: sum.splits option.splits)
  with True show ?thesis by (intro that [of "[]"]) (auto simp: answered_def)
next
  case False
  then obtain t where t: "parse_message m = Inr (Some t)"
    by (auto simp: no_task_def split: sum.splits option.splits)
  with False assms have "run_task e t s = Inr s'"
    by (auto simp: ProcessMessage_def no_task_def split: sum.splits fault.splits)
  with t have "sends e (answers m) s s'" by (cases m) (auto intro: task_answers)
  then obtain p where p: "answers m p" "m_transmitSocket s' = m_transmitSocket s @ [p] \<or>
      m_transmitSocket s' = m_transmitSocket s \<and> kDataChunkSize < packet_size e p"
    unfolding sends_def by blast
  from p(2) show ?thesis
  proof
    assume "m_transmitSocket s' = m_transmitSocket s @ [p]"
    with p(1) show ?thesis by (intro that [of "[p]"]) (auto simp: answered_def simp del: split_paired_Ex)
  next
    assume "m_transmitSocket s' = m_transmitSocket s \<and> kDataChunkSize < packet_size e p"
    with p(1) show ?thesis by (intro that [of "[]"]) (auto simp: answered_def simp del: split_paired_Ex)
  qed
qed



end
