(* ===== verification/Cache_Runs.thy ===== *)
theory Cache_Runs
  imports Osc_Properties "HOL-Library.Sublist"
begin

text \<open>
  The cache along whole runs of the client. Every message changes the cache by one of four
  steps; the steps keep the books of the cache and the contents of its files, whatever the
  network answers and whatever the extensions of the assets are, and touch no file elsewhere.
\<close>

section \<open>Steps of the cache\<close>

definition cached_path :: "cache_manager \<Rightarrow> u64 \<Rightarrow> string \<Rightarrow> string" where
  "cached_path c key ext = m_cachePath c @ ''/'' @ keyToString key @ ext"

definition queued :: "cache_manager \<Rightarrow> string set" where
  "queued c = snd ` set (m_timeQueue c)"

text \<open>
  A message leaves the cache alone, renews the write time of a file beside it, gives up a
  download, or takes a file in.
\<close>

inductive cache_step :: "'h hash_lib \<Rightarrow> cache_manager \<times> fs \<Rightarrow> cache_manager \<times> fs \<Rightarrow> bool" for X where
  idle: "cache_step X (c, fs) (c, fs)"
| touched: "umap_find fs p = Some (Regular content t) \<Longrightarrow> prefix (m_cachePath c) p \<Longrightarrow>
    cache_step X (c, fs) (c, umap_assign p (Regular content t') fs)"
| given_up: "umap_find (m_extensionMap c) key = None \<Longrightarrow>
    cache_step X (c, fs) (c, fs_remove (cached_path c key ext) fs)"
| taken_in: "umap_find (m_extensionMap c) key = None \<Longrightarrow> xx_hash X content 0 = key \<Longrightarrow> path = cached_path c key ext \<Longrightarrow>
    cache_step X (c, fs)
      (c\<lparr>m_currentSize := m_currentSize c + of_nat (length content), m_timeQueue := pq_push (t, path) (m_timeQueue c),
         m_extensionMap := umap_insert key ext (m_extensionMap c)\<rparr>, umap_assign path (Regular content t) fs)"

lemma checkCache_step:
  assumes "checkCache now key c fs = Inr (path, fs')"
  shows "cache_step X (c, fs) (c, fs')" and "path = [] \<Longrightarrow> umap_find (m_extensionMap c) key = None \<and> fs' = fs"
proof -
  have "keyToString key \<noteq> []" using length_keyToString [of key] by (metis list.size(3) zero_neq_numeral)
  with assms show "path = [] \<Longrightarrow> umap_find (m_extensionMap c) key = None \<and> fs' = fs"
    by (auto simp: checkCache_def fault_simps Let_def split: option.splits)
  show "cache_step X (c, fs) (c, fs')"
    using assms
    by (auto simp: checkCache_def fault_simps fs_touch_def Let_def split: option.splits fs_node.splits
        intro: cache_step.idle cache_step.touched)
qed

lemma download_step:
  assumes "hash_ok X" "key \<noteq> 0" "umap_find (m_extensionMap c) key = None"
    and "download H F X net hc opens now key fileSize chunks ext c fs w = Inr ((path, c', fs'), w')"
  shows "cache_step X (c, fs) (c', fs')"
proof (cases "path = []")
  case True
  with assms(4) have "c' = c \<and> (fs' = fs \<or> fs' = fs_remove (cached_path c key ext) fs)"
    by (auto simp: download_def Let_def fault_simps cached_path_def split: if_splits)
  with assms(3) show ?thesis by (auto intro: cache_step.intros)
next
  case False
  from download_result [OF assms(1,2,4) False] obtain content where r: "path = cached_path c key ext"
    "fs' = umap_assign path (Regular content now) fs" "xx_hash X content 0 = key" "of_nat (length content) = fileSize"
    "c' = c\<lparr>m_currentSize := m_currentSize c + fileSize, m_timeQueue := pq_push (now, path) (m_timeQueue c),
           m_extensionMap := umap_insert key ext (m_extensionMap c)\<rparr>"
    unfolding cached_path_def by blast
  show ?thesis
    unfolding r(2,5) r(4) [symmetric] by (rule cache_step.taken_in) (fact assms(3) r(3) r(1))+
qed

lemma load_step:
  assumes "hash_ok (env_hash e)" "task_loadAsset e key s = Inr s'"
  shows "cache_step (env_hash e) (m_cacheManager s, os_files s) (m_cacheManager s', os_files s')"
proof -
  obtain path fs where c: "checkCache (env_time e) key (m_cacheManager s) (os_files s) = Inr (path, fs)"
    using assms(2) by (cases "checkCache (env_time e) key (m_cacheManager s) (os_files s)") (auto simp: task_loadAsset_def)
  let ?s = "s\<lparr>os_files := fs\<rparr>"
  show ?thesis
  proof (cases "path = []")
    case False
    with assms(2) c have "m_cacheManager s' = m_cacheManager s" "os_files s' = fs"
      by (auto simp: task_loadAsset_def Let_def)
    with checkCache_step(1) [OF c] show ?thesis by simp
  next
    case True
    then have miss: "umap_find (m_extensionMap (m_cacheManager s)) key = None" "fs = os_files s"
      using checkCache_step(2) [OF c] by simp_all
    obtain dk sz ch ext s1 where l: "locate_asset e key ?s = Inr ((dk, sz, ch, ext), s1)"
      using assms(2) c True by (auto simp: task_loadAsset_def Let_def fault_simps)
    have s1: "m_cacheManager s1 = m_cacheManager s" "os_files s1 = os_files s"
      using locate_asset_effect [OF l] miss(2) by simp_all
    show ?thesis
    proof (cases "dk = 0")
      case True
      with assms(2) c \<open>path = []\<close> l s1 show ?thesis
        by (auto simp: task_loadAsset_def Let_def intro: cache_step.idle)
    next
      case False
      then have dk: "dk = key" "key \<noteq> 0" using locate_asset_key [OF l] by auto
      from assms(2) c \<open>path = []\<close> l False obtain p c' fs' w where
        d: "download (env_http e) (env_flat e) (env_hash e) (env_net e) (m_httpClient e) (env_opens e) (env_time e)
          dk sz ch ext (m_cacheManager s1) (os_files s1) (os_world s1) = Inr ((p, c', fs'), w)"
        "m_cacheManager s' = c'" "os_files s' = fs'"
        by (auto simp: task_loadAsset_def Let_def fault_simps)
      from download_step [OF assms(1) dk(2) _ d(1) [unfolded dk(1)]] d(2,3) s1 miss(1) show ?thesis by simp
    qed
  qed
qed

text \<open>No other task works on the cache.\<close>

definition same_cache :: "('db, 'w) osc_handler \<Rightarrow> ('db, 'w) osc_handler \<Rightarrow> bool" where
  "same_cache s s' \<longleftrightarrow> m_cacheManager s' = m_cacheManager s \<and> os_files s' = os_files s"

lemma find_same_cache:
  "task_findAsset e k s = Inr s' \<Longrightarrow> same_cache s s'" "task_findNamedAsset e n s = Inr s' \<Longrightarrow> same_cache s s'"
  by (auto simp: task_findAsset_def task_findNamedAsset_def same_cache_def fault_simps Let_def split: if_splits
      dest!: sendAsset_shape cache_record_shape)

lemma other_same_cache:
  "task_addAssetFile e t i name author deps ids path s = Inr s' \<Longrightarrow> same_cache s s'"
  "task_addAssetString e t i name author deps ids str s = Inr s' \<Longrightarrow> same_cache s s'"
  "task_addList e name s = Inr s' \<Longrightarrow> same_cache s s'" "task_findList e name s = Inr s' \<Longrightarrow> same_cache s s'"
  "task_nextList e k token s = Inr s' \<Longrightarrow> same_cache s s'"
  by (auto simp: task_addAssetFile_def task_addAssetString_def task_addList_def task_findList_def task_nextList_def
      same_cache_def fault_simps split: if_splits option.splits)

lemma ProcessMessage_step:
  assumes "ProcessMessage e m s = Inr s'" "hash_ok (env_hash e)"
  shows "cache_step (env_hash e) (m_cacheManager s, os_files s) (m_cacheManager s', os_files s')"
proof (cases "s' = s")
  case True
  then show ?thesis by (simp add: cache_step.idle)
next
  case False
  then obtain t where "run_task e t s = Inr s'"
    using assms(1) by (auto simp: ProcessMessage_def split: sum.splits option.splits fault.splits)
  then show ?thesis
    using cache_step.idle [of "env_hash e" "m_cacheManager s" "os_files s"]
    by (cases t) (auto simp: same_cache_def dest: load_step [OF assms(2)] find_same_cache other_same_cache)
qed

lemma receive_steps:
  assumes "receive ms s = Inr s'" "hash_ok X" "\<forall>(e, m) \<in> set ms. env_hash e = X"
  shows "(cache_step X)\<^sup>*\<^sup>* (m_cacheManager s, os_files s) (m_cacheManager s', os_files s')"
  using assms
proof (induction ms arbitrary: s)
  case Nil
  then show ?case by (simp add: receive_def)
next
  case (Cons em ms)
  obtain e m where em: "em = (e, m)" by (cases em)
  obtain s1 where s1: "ProcessMessage e m s = Inr s1" "receive ms s1 = Inr s'"
    using Cons.prems(1) by (auto simp: receive_def em fault_simps)
  have "cache_step X (m_cacheManager s, os_files s) (m_cacheManager s1, os_files s1)"
    using ProcessMessage_step [OF s1(1)] Cons.prems(2,3) by (simp add: em)
  moreover have "(cache_step X)\<^sup>*\<^sup>* (m_cacheManager s1, os_files s1) (m_cacheManager s', os_files s')"
    using Cons.prems(2,3) by (intro Cons.IH [OF s1(2)]) simp_all
  ultimately show ?case by (rule converse_rtranclp_into_rtranclp)
qed

section \<open>What the steps keep\<close>

definition content_of :: "fs \<Rightarrow> string \<Rightarrow> bytes option" where
  "content_of fs p = (case umap_find fs p of Some (Regular content t) \<Rightarrow> Some content | _ \<Rightarrow> None)"

lemma content_of_ops:
  "content_of (umap_assign p (Regular content t) fs) = (content_of fs)(p \<mapsto> content)"
  "content_of (fs_remove p fs) = (content_of fs)(p := None)"
  by (simp_all add: fun_eq_iff content_of_def fs_remove_def umap.find_assign umap.find_erase)

text \<open>
  The books of the cache: every queued path is a file, none is queued twice, the recorded size
  is the sum of the files' modulo the width of the counter, and a queued file whose name starts
  with a key is known under that key and has the hash that is the key.
\<close>

definition cache_kept :: "'h hash_lib \<Rightarrow> cache_manager \<Rightarrow> fs \<Rightarrow> bool" where
  "cache_kept X c fs \<longleftrightarrow>
     pq_ok (m_timeQueue c) \<and> distinct (map snd (m_timeQueue c)) \<and>
     (\<forall>p \<in> queued c. is_file fs p) \<and> m_currentSize c = of_nat (queue_bytes fs (m_timeQueue c)) \<and>
     (\<forall>key ext. cached_path c key ext \<in> queued c \<longrightarrow> umap_find (m_extensionMap c) key \<noteq> None \<and>
        (\<forall>content. content_of fs (cached_path c key ext) = Some content \<longrightarrow> xx_hash X content 0 = key))"

lemma cache_kept_ok: "cache_kept X c fs \<Longrightarrow> queue_bytes fs (m_timeQueue c) < 2 ^ 64 \<Longrightarrow> cache_ok c fs"
  by (auto simp: cache_kept_def cache_ok_def queued_def)

lemma cache_kept_known:
  assumes "cache_kept X c fs" "umap_find (m_extensionMap c) key = None"
  shows "cached_path c key ext \<notin> queued c"
proof
  assume "cached_path c key ext \<in> queued c"
  with assms(1) have "umap_find (m_extensionMap c) key \<noteq> None" unfolding cache_kept_def by blast
  with assms(2) show False by simp
qed

lemma cached_path_simps [simp]:
  "cached_path (c\<lparr>m_currentSize := n, m_timeQueue := q, m_extensionMap := m\<rparr>) = cached_path c"
  by (simp add: cached_path_def fun_eq_iff)

lemma queued_push [simp]:
  "queued (c\<lparr>m_currentSize := n, m_timeQueue := pq_push e (m_timeQueue c), m_extensionMap := m\<rparr>) = insert (snd e) (queued c)"
  by (simp add: queued_def)

lemma cached_path_key: "cached_path c k e = cached_path c k' e' \<Longrightarrow> k = k'"
  by (auto simp: cached_path_def append_eq_append_conv key_text.enc_eq_iff)

lemma same_files:
  assumes "\<forall>p \<in> queued c. content_of fs' p = content_of fs p"
  shows "\<forall>p \<in> queued c. is_file fs' p \<longleftrightarrow> is_file fs p" "queue_bytes fs' (m_timeQueue c) = queue_bytes fs (m_timeQueue c)"
proof -
  have "is_file g p \<longleftrightarrow> content_of g p \<noteq> None" "file_bytes g p = (case content_of g p of None \<Rightarrow> 0 | Some d \<Rightarrow> length d)" for g p
    by (auto simp: is_file_def file_bytes_def content_of_def split: option.splits fs_node.splits)
  with assms show "\<forall>p \<in> queued c. is_file fs' p \<longleftrightarrow> is_file fs p"
    "queue_bytes fs' (m_timeQueue c) = queue_bytes fs (m_timeQueue c)"
    by (auto simp: queue_bytes_def queued_def intro!: arg_cong [where f = sum_list])
qed

text \<open>What a step, or any number of steps, may change.\<close>

definition cache_grows :: "cache_manager \<times> fs \<Rightarrow> cache_manager \<times> fs \<Rightarrow> bool" where
  "cache_grows a b \<longleftrightarrow>
     (case (a, b) of ((c, fs), (c', fs')) \<Rightarrow>
       m_cachePath c' = m_cachePath c \<and> m_maxSize c' = m_maxSize c \<and> queued c \<subseteq> queued c' \<and>
       (\<forall>p \<in> queued c. content_of fs' p = content_of fs p) \<and>
       (\<forall>p. \<not> prefix (m_cachePath c) p \<longrightarrow> umap_find fs' p = umap_find fs p))"

lemma cache_grows_refl: "cache_grows a a"
  by (cases a) (simp add: cache_grows_def)

lemma cache_grows_trans: "cache_grows a b \<Longrightarrow> cache_grows b d \<Longrightarrow> cache_grows a d"
  by (cases a; cases b; cases d) (auto simp: cache_grows_def subset_iff)

lemma prefix_cached_path: "prefix (m_cachePath c) (cached_path c key ext)"
  by (simp add: cached_path_def)

lemma cache_step_keeps:
  assumes "cache_step X a b" "cache_kept X (fst a) (snd a)"
  shows "cache_kept X (fst b) (snd b) \<and> cache_grows a b"
  using assms
proof cases
  case (idle c fs)
  with assms(2) show ?thesis by (simp add: cache_grows_refl)
next
  case (touched fs p content t c t')
  have same: "content_of (umap_assign p (Regular content t') fs) = content_of fs"
    using touched(3) by (simp add: content_of_ops fun_upd_idem content_of_def)
  have "\<forall>q. \<not> prefix (m_cachePath c) q \<longrightarrow> q \<noteq> p" using touched(4) by blast
  with assms(2) same same_files [of c "umap_assign p (Regular content t') fs" fs] show ?thesis
    by (simp add: touched(1,2) cache_kept_def cache_grows_def umap.find_assign)
next
  case (given_up c key fs ext)
  let ?fs = "fs_remove (cached_path c key ext) fs"
  have "cached_path c key ext \<notin> queued c"
    using cache_kept_known [of X c fs] assms(2) given_up by simp
  then have same: "\<forall>p \<in> queued c. content_of ?fs p = content_of fs p" by (auto simp: content_of_ops)
  have "\<forall>q. \<not> prefix (m_cachePath c) q \<longrightarrow> q \<noteq> cached_path c key ext" using prefix_cached_path by blast
  with assms(2) same same_files [OF same] show ?thesis
    by (simp add: given_up(1,2) cache_kept_def cache_grows_def fs_remove_def umap.find_erase)
next
  case (taken_in c key content path ext fs t)
  let ?fs = "umap_assign path (Regular content t) fs" and ?q = "pq_push (t, path) (m_timeQueue c)"
    and ?m = "umap_insert key ext (m_extensionMap c)"
  have kept: "cache_kept X c fs" using assms(2) taken_in(1) by simp
  have new: "path \<notin> queued c" using cache_kept_known [OF kept taken_in(3)] taken_in(5) by simp
  then have same: "\<forall>p \<in> queued c. content_of ?fs p = content_of fs p" by (auto simp: content_of_ops)
  note files = same_files [OF same]
  have path: "is_file ?fs path" "file_bytes ?fs path = length content"
    by (simp_all add: is_file_def file_bytes_def umap.find_assign)
  have known: "umap_find ?m k \<noteq> None" if "k = key \<or> umap_find (m_extensionMap c) k \<noteq> None" for k
    using that taken_in(3) by (auto simp: umap_insert_def umap.find_assign)
  have "umap_find ?m k \<noteq> None \<and> (\<forall>d. content_of ?fs (cached_path c k x) = Some d \<longrightarrow> xx_hash X d 0 = k)"
    if q: "cached_path c k x \<in> insert path (queued c)" for k x
  proof (cases "cached_path c k x = path")
    case True
    then have "k = key" unfolding taken_in(5) by (rule cached_path_key)
    with True known taken_in(4) show ?thesis by (simp add: content_of_ops)
  next
    case False
    with q have "cached_path c k x \<in> queued c" by simp
    with kept same known show ?thesis by (simp add: cache_kept_def)
  qed
  moreover have "path \<notin> snd ` set (m_timeQueue c)" using new by (simp add: queued_def)
  ultimately have "cache_kept X (fst b) (snd b)"
    using kept files path pq.invar_push
    by (simp add: taken_in(2) cache_kept_def distinct_pq_push add.commute)
  moreover have "\<forall>p. \<not> prefix (m_cachePath c) p \<longrightarrow> p \<noteq> path"
    using prefix_cached_path taken_in(5) by blast
  then have "cache_grows a b"
    using same by (auto simp: taken_in(1,2) cache_grows_def umap.find_assign)
  ultimately show ?thesis by simp
qed

lemma cache_steps_keep:
  assumes "(cache_step X)\<^sup>*\<^sup>* a b" "cache_kept X (fst a) (snd a)"
  shows "cache_kept X (fst b) (snd b) \<and> cache_grows a b"
  using assms
proof (induction rule: rtranclp_induct)
  case base
  then show ?case by (simp add: cache_grows_refl)
next
  case (step b d)
  then show ?case using cache_step_keeps [OF step(2)] cache_grows_trans by blast
qed

text \<open>No step works on a file whose path does not start with the cache's.\<close>

lemma cache_step_elsewhere:
  "cache_step X a b \<Longrightarrow> m_cachePath (fst b) = m_cachePath (fst a) \<and>
    (\<not> prefix (m_cachePath (fst a)) p \<longrightarrow> umap_find (snd b) p = umap_find (snd a) p)"
  using prefix_cached_path by (auto simp: umap.find_assign fs_remove_def umap.find_erase elim!: cache_step.cases)

lemma receive_elsewhere:
  assumes "receive ms s = Inr s'" "hash_ok X" "\<forall>(e, m) \<in> set ms. env_hash e = X"
    and "\<not> prefix (m_cachePath (m_cacheManager s)) p"
  shows "umap_find (os_files s') p = umap_find (os_files s) p"
proof -
  have "(cache_step X)\<^sup>*\<^sup>* a b \<Longrightarrow> m_cachePath (fst b) = m_cachePath (fst a) \<and>
      (\<not> prefix (m_cachePath (fst a)) p \<longrightarrow> umap_find (snd b) p = umap_find (snd a) p)" for a b
    by (induction rule: rtranclp_induct) (auto dest: cache_step_elsewhere [where p = p])
  from this [OF receive_steps [OF assms(1-3)]] assms(4) show ?thesis by simp
qed

section \<open>The start of a run\<close>

text \<open>
  A directory as downloads leave it: every name is a key with a plain extension, and no key has
  two files.
\<close>

definition plain_extension :: "string \<Rightarrow> bool" where
  "plain_extension ext \<longleftrightarrow> ext = [] \<or> (\<exists>r. ext = CHR ''.'' # r \<and> CHR ''.'' \<notin> set r \<and> CHR ''/'' \<notin> set r)"

definition path_key :: "string \<Rightarrow> u64" where
  "path_key p = stringToKey (path_stem p)"

definition tidy_dir :: "string \<Rightarrow> fs \<Rightarrow> bool" where
  "tidy_dir dir fs \<longleftrightarrow>
     (\<forall>p. umap_find fs p \<noteq> None \<and> path_parent p = dir \<longrightarrow>
        (\<exists>key ext. p = dir @ ''/'' @ keyToString key @ ext \<and> plain_extension ext)) \<and>
     inj_on path_key {p. umap_find fs p \<noteq> None \<and> path_parent p = dir}"

lemma takeWhile_all: "c \<notin> set s \<Longrightarrow> takeWhile (\<lambda>d. d \<noteq> c) (rev s) = rev s"
  by (simp add: takeWhile_eq_all_conv) blast

lemma last_part: "c \<notin> set s \<Longrightarrow> rev (takeWhile (\<lambda>d. d \<noteq> c) (rev s @ c # r)) = s"
  by (simp add: takeWhile_tail takeWhile_all)

lemma path_filename_join: "CHR ''/'' \<notin> set s \<Longrightarrow> path_filename (d @ CHR ''/'' # s) = s"
  by (simp add: path_filename_def last_part)

lemma key_no_period: "CHR ''.'' \<notin> set (keyToString k)"
  using keyToString_is_hex [of "CHR ''.''" k] by (auto simp: is_hex_def hex_value_def)

lemma path_key_plain:
  assumes "plain_extension ext"
  shows "path_key (dir @ ''/'' @ keyToString key @ ext) = key"
proof -
  let ?f = "keyToString key @ ext"
  have "CHR ''/'' \<notin> set ?f" using assms keyToString_no_slash by (auto simp: plain_extension_def)
  then have name: "path_filename (dir @ CHR ''/'' # ?f) = ?f" by (rule path_filename_join)
  have "length ?f \<ge> 16" by simp
  then have "?f \<noteq> ''.''" "?f \<noteq> ''..''" by (auto simp del: length_append)
  then have split: "path_extension (dir @ CHR ''/'' # ?f) =
      (if CHR ''.'' \<notin> set ?f then [] else CHR ''.'' # rev (takeWhile (\<lambda>c. c \<noteq> CHR ''.'') (rev ?f)))"
    unfolding path_extension_def Let_def name by simp
  have "path_extension (dir @ CHR ''/'' # ?f) = ext"
    using assms unfolding plain_extension_def
  proof
    assume "ext = []"
    then show ?thesis using key_no_period [of key] unfolding split by simp
  next
    assume "\<exists>r. ext = CHR ''.'' # r \<and> CHR ''.'' \<notin> set r \<and> CHR ''/'' \<notin> set r"
    then show ?thesis unfolding split by (auto simp: last_part)
  qed
  then have "path_stem (dir @ CHR ''/'' # ?f) = keyToString key" by (simp add: path_stem_def name Let_def)
  then show ?thesis by (simp add: path_key_def key_text.dec_enc)
qed

definition keys_known :: "cache_manager \<Rightarrow> bool" where
  "keys_known c \<longleftrightarrow> (\<forall>p \<in> queued c. umap_find (m_extensionMap c) (path_key p) \<noteq> None) \<and>
     distinct (map (path_key \<circ> snd) (m_timeQueue c))"

lemma distinct_map_push: "distinct (map f (pq_push e q)) \<longleftrightarrow> f e \<notin> f ` set q \<and> distinct (map f q)"
  by (induction q) auto

lemma umap_insert_known:
  "umap_find (umap_insert key v m) k \<noteq> None \<longleftrightarrow> k = key \<or> umap_find m k \<noteq> None"
  by (auto simp: umap_insert_def umap.find_assign split: option.splits)

lemma check_entry_paths:
  assumes "check_entry X opens validate e (c, fs) = (c1, fs1)"
  shows "m_cachePath c1 = m_cachePath c \<and> queued c1 \<subseteq> insert (fst e) (queued c) \<and>
    (\<forall>p. p \<noteq> fst e \<longrightarrow> umap_find fs1 p = umap_find fs p)"
    and "keys_known c \<Longrightarrow> path_key (fst e) \<notin> path_key ` queued c \<Longrightarrow> keys_known c1"
proof -
  obtain p node where e: "e = (p, node)" by (cases e)
  let ?c = "\<lambda>n t. c\<lparr>m_currentSize := n, m_timeQueue := pq_push (t, p) (m_timeQueue c),
    m_extensionMap := umap_insert (path_key p) (path_extension p) (m_extensionMap c)\<rparr>"
  have step: "c1 = c \<and> (fs1 = fs \<or> fs1 = fs_remove p fs) \<or> (\<exists>n t. c1 = ?c n t) \<and> fs1 = fs"
    using assms by (auto simp: e check_entry_def path_key_def Let_def split: fs_node.splits if_splits)
  then show "m_cachePath c1 = m_cachePath c \<and> queued c1 \<subseteq> insert (fst e) (queued c) \<and>
    (\<forall>p. p \<noteq> fst e \<longrightarrow> umap_find fs1 p = umap_find fs p)"
    by (auto simp: e fs_remove_def umap.find_erase)
  assume known: "keys_known c" "path_key (fst e) \<notin> path_key ` queued c"
  have "path_key p \<notin> (path_key \<circ> snd) ` set (m_timeQueue c)"
    using known(2) by (simp add: e queued_def image_comp)
  with known(1) have "keys_known (?c n t)" for n t
    by (simp add: keys_known_def distinct_map_push umap_insert_known del: not_None_eq)
  with step known(1) show "keys_known c1" by blast
qed

lemma disjoint_from_insert: "Q \<subseteq> insert k B \<Longrightarrow> k \<notin> A \<Longrightarrow> A \<inter> B = {} \<Longrightarrow> A \<inter> Q = {}"
  by blast

lemma fold_paths:
  "fold (check_entry X opens validate) es (c, fs) = (c1, fs1) \<Longrightarrow>
    m_cachePath c1 = m_cachePath c \<and> queued c1 \<subseteq> fst ` set es \<union> queued c \<and>
    (\<forall>p. p \<notin> fst ` set es \<longrightarrow> umap_find fs1 p = umap_find fs p)"
proof (induction es arbitrary: c fs)
  case Nil
  then show ?case by simp
next
  case (Cons e es)
  obtain c2 fs2 where step: "check_entry X opens validate e (c, fs) = (c2, fs2)"
    by (cases "check_entry X opens validate e (c, fs)")
  moreover from this have "fold (check_entry X opens validate) es (c2, fs2) = (c1, fs1)" using Cons.prems by simp
  ultimately show ?case
    using check_entry_paths(1) [OF step] Cons.IH [of c2 fs2] by (simp add: subset_iff) blast
qed

lemma fold_keys:
  "fold (check_entry X opens validate) es (c, fs) = (c1, fs1) \<Longrightarrow> keys_known c \<Longrightarrow>
    distinct (map (path_key \<circ> fst) es) \<Longrightarrow> path_key ` fst ` set es \<inter> path_key ` queued c = {} \<Longrightarrow> keys_known c1"
proof (induction es arbitrary: c fs)
  case Nil
  then show ?case by simp
next
  case (Cons e es)
  obtain c2 fs2 where step: "check_entry X opens validate e (c, fs) = (c2, fs2)"
    by (cases "check_entry X opens validate e (c, fs)")
  let ?keys = "path_key ` fst ` set es"
  have "queued c2 \<subseteq> insert (fst e) (queued c)" using check_entry_paths(1) [OF step] by simp
  then have "path_key ` queued c2 \<subseteq> insert (path_key (fst e)) (path_key ` queued c)" by blast
  moreover have "path_key (fst e) \<notin> ?keys" using Cons.prems(3) by (simp add: image_comp)
  moreover have "?keys \<inter> path_key ` queued c = {}" using Cons.prems(4) by simp
  ultimately have disj: "?keys \<inter> path_key ` queued c2 = {}" by (rule disjoint_from_insert)
  show ?case
  proof (rule Cons.IH)
    show "fold (check_entry X opens validate) es (c2, fs2) = (c1, fs1)" using Cons.prems(1) step by simp
    show "keys_known c2" using check_entry_paths(2) [OF step Cons.prems(2)] Cons.prems(4) by simp
    show "distinct (map (path_key \<circ> fst) es)" using Cons.prems(3) by (simp only: list.map distinct.simps)
  qed (fact disj)
qed

lemma makeRoomFor_paths:
  "makeRoomFor added c fs = Inr (c', fs') \<Longrightarrow>
    (keys_known c \<longrightarrow> keys_known c') \<and> m_cachePath c' = m_cachePath c \<and> queued c' \<subseteq> queued c \<and>
    (\<forall>p. p \<notin> queued c \<longrightarrow> umap_find fs' p = umap_find fs p)"
proof (induction added c fs rule: makeRoomFor.induct)
  case (1 added c fs)
  show ?case
  proof (cases "m_currentSize c + added > m_maxSize c")
    case False
    with "1.prems" show ?thesis by (simp add: makeRoomFor.simps)
  next
    case True
    with "1.prems"(1) obtain t p q where q: "m_timeQueue c = (t, p) # q"
      by (cases "m_timeQueue c") (auto simp: makeRoomFor.simps)
    then have top: "pq_top (m_timeQueue c) = Inr (t, p)" "q = pq_pop (m_timeQueue c)" by (simp_all add: pq_pop_def)
    from True "1.prems"(1) q obtain t' where t': "fs_last_write_time p fs = Inr t'"
      by (cases "fs_last_write_time p fs") (auto simp: makeRoomFor.simps pq_pop_def)
    show ?thesis
    proof (cases "t' = t")
      case same: True
      from True "1.prems"(1) q t' same obtain sz where sz: "fs_file_size p fs = Inr sz"
        by (cases "fs_file_size p fs") (auto simp: makeRoomFor.simps pq_pop_def)
      let ?c = "c\<lparr>m_timeQueue := q, m_currentSize := m_currentSize c - sz,
        m_extensionMap := umap_erase (stringToKey (path_stem p)) (m_extensionMap c)\<rparr>"
      have "makeRoomFor added ?c (fs_remove p fs) = Inr (c', fs')"
        using "1.prems"(1) True q t' same sz by (subst (asm) makeRoomFor.simps) (simp add: pq_pop_def)
      moreover have "keys_known ?c" if known: "keys_known c"
      proof -
        have "path_key p \<notin> (path_key \<circ> snd) ` set q" using known q by (simp add: keys_known_def)
        then have "path_key (snd x) \<noteq> path_key p" if "x \<in> set q" for x
          using that by (metis comp_apply imageI)
        then show ?thesis
          using known q by (simp add: keys_known_def queued_def umap.find_erase path_key_def [symmetric])
      qed
      ultimately have "(keys_known c \<longrightarrow> keys_known c') \<and> m_cachePath c' = m_cachePath ?c \<and> queued c' \<subseteq> queued ?c \<and>
          (\<forall>r. r \<notin> queued ?c \<longrightarrow> umap_find fs' r = umap_find (fs_remove p fs) r)"
        using "1.IH"(1) [of "(t, p)" q t' sz] True top t' same sz unfolding snd_conv fst_conv by blast
      moreover have "queued c = insert p (queued ?c)" by (simp add: queued_def q)
      ultimately show ?thesis by (simp add: fs_remove_def umap.find_erase subset_insertI2)
    next
      case False
      let ?c = "c\<lparr>m_timeQueue := pq_push (t', p) q\<rparr>"
      have "makeRoomFor added ?c fs = Inr (c', fs')"
        using "1.prems"(1) True q t' False by (subst (asm) makeRoomFor.simps) (simp add: pq_pop_def)
      moreover have queued_same: "queued ?c = queued c" by (simp add: queued_def q)
      moreover have "keys_known ?c" if "keys_known c"
        using that q by (auto simp: keys_known_def queued_def distinct_map_push)
      ultimately have "(keys_known c \<longrightarrow> keys_known c') \<and> m_cachePath c' = m_cachePath ?c \<and> queued c' \<subseteq> queued ?c \<and>
          (\<forall>r. r \<notin> queued ?c \<longrightarrow> umap_find fs' r = umap_find fs r)"
        using "1.IH"(2) [of "(t, p)" q t'] True top t' False unfolding snd_conv fst_conv by blast
      then show ?thesis by (simp add: queued_same)
    qed
  qed
qed

lemma path_parent_prefix: "prefix (path_parent p) p"
  by (simp add: path_parent_def take_is_prefix)

lemma checkExistingEntries_paths:
  assumes "checkExistingEntries X opens order validate c fs = Inr (c', fs')" "iteration_order order"
  shows "m_cachePath c' = m_cachePath c \<and> (\<forall>p \<in> queued c'. p \<in> fst ` set fs \<and> path_parent p = m_cachePath c) \<and>
      (\<forall>p. \<not> prefix (m_cachePath c) p \<longrightarrow> umap_find fs' p = umap_find fs p)"
    and "umap_ok fs \<Longrightarrow> tidy_dir (m_cachePath c) fs \<Longrightarrow> keys_known c'"
proof -
  let ?dir = "m_cachePath c" and ?es = "order (filter (\<lambda>(q, _). path_parent q = m_cachePath c) fs)"
  let ?c = "c\<lparr>m_currentSize := 0, m_timeQueue := [], m_extensionMap := []\<rparr>"
  obtain c1 fs1 where f: "fold (check_entry X opens validate) ?es (?c, fs) = (c1, fs1)" by fastforce
  with assms(1) have m: "makeRoomFor 0 c1 fs1 = Inr (c', fs')"
    by (auto simp: checkExistingEntries_def directory_def Let_def fault_simps split: if_splits)
  have es: "fst ` set ?es = {p \<in> fst ` set fs. path_parent p = ?dir}"
    using iteration_order_set [OF assms(2)] by force
  have none: "queued ?c = {}" "keys_known ?c" by (simp_all add: queued_def keys_known_def)
  have "queued c1 \<subseteq> fst ` set ?es" using fold_paths [OF f] none(1) by simp
  moreover have "p \<notin> fst ` set ?es" if "\<not> prefix ?dir p" for p
    using that path_parent_prefix [of p] by (auto simp: es)
  ultimately show "m_cachePath c' = ?dir \<and> (\<forall>p \<in> queued c'. p \<in> fst ` set fs \<and> path_parent p = ?dir) \<and>
      (\<forall>p. \<not> prefix ?dir p \<longrightarrow> umap_find fs' p = umap_find fs p)"
    using makeRoomFor_paths [OF m] fold_paths [OF f] unfolding es by (simp add: subset_iff) metis
  assume "umap_ok fs" "tidy_dir ?dir fs"
  then have "distinct (map fst ?es)" "inj_on path_key (set (map fst ?es))"
    using listed_entries(2) [OF assms(2)] es
    by (auto simp: tidy_dir_def map_of_eq_None_iff elim!: inj_on_subset)
  then have "distinct (map (path_key \<circ> fst) ?es)"
    by (simp add: distinct_map comp_inj_on)
  then show "keys_known c'"
    using makeRoomFor_paths [OF m] fold_keys [OF f] none by simp
qed

text \<open>Start-up with validation on a tidy directory gives the books a run starts from.\<close>

lemma start_kept:
  assumes "hash_ok X" "iteration_order order" "umap_ok fs" "umap_find fs (m_cachePath c) = Some NonRegular"
    and "sum_list (map (node_bytes \<circ> snd) fs) < 2 ^ 64" "tidy_dir (m_cachePath c) fs"
    and "checkExistingEntries X opens order True c fs = Inr (c', fs')"
  shows "cache_kept X c' fs'"
proof -
  let ?dir = "m_cachePath c"
  have ok: "cache_ok c' fs'" "names_valid X c' fs'"
    using checkExistingEntries_ok [OF assms(1-5), of opens True] assms(7) by auto
  note paths = checkExistingEntries_paths [OF assms(7,2)]
  have key: "path_key (cached_path c' key ext) = key" if q: "cached_path c' key ext \<in> queued c'" for key ext
  proof -
    have "umap_find fs (cached_path c' key ext) \<noteq> None \<and> path_parent (cached_path c' key ext) = ?dir"
      using paths(1) q by (auto simp: map_of_eq_None_iff)
    with assms(6) obtain key' ext' where p: "cached_path c' key ext = ?dir @ ''/'' @ keyToString key' @ ext'"
      "plain_extension ext'"
      unfolding tidy_dir_def by blast
    then have "cached_path c key ext = cached_path c key' ext'" using paths(1) by (simp add: cached_path_def)
    then have "key = key'" by (rule cached_path_key)
    then show ?thesis unfolding p(1) by (simp only: path_key_plain [OF p(2)])
  qed
  have "xx_hash X content 0 = key"
    if q: "cached_path c' key ext \<in> queued c'" and content: "content_of fs' (cached_path c' key ext) = Some content"
    for key ext content
  proof -
    obtain e where e: "e \<in> set (m_timeQueue c')" "snd e = cached_path c' key ext"
      using q by (auto simp: queued_def)
    then obtain d t where d: "umap_find fs' (snd e) = Some (Regular d t)" "xx_hash X d 0 = path_key (snd e)"
      using ok(2) unfolding names_valid_def path_key_def by blast
    with content e(2) have "d = content" by (simp add: content_of_def)
    with d(2) e(2) key [OF q] show ?thesis by simp
  qed
  moreover have "umap_find (m_extensionMap c') key \<noteq> None" if "cached_path c' key ext \<in> queued c'" for key ext
    using paths(2) [OF assms(3,6)] that key [OF that] unfolding keys_known_def by metis
  ultimately show ?thesis
    using ok(1) by (simp add: cache_kept_def cache_ok_def queued_def)
qed

section \<open>The cache along a run\<close>

text \<open>
  C18: Whatever messages arrive and whatever the network answers, the books of the cache stay
  right: every queued path is a file, none is queued twice, the recorded size is the sum of the
  files' sizes, and a file whose name starts with a key is known under that key and has the
  hash that is the key. No file leaves the cache or changes its contents, so that a run only
  makes it larger, and no file whose path does not start with the cache's changes at all.
\<close>

theorem runs_keep_cache:
  assumes "receive ms s = Inr s'" "hash_ok X" "\<forall>(e, m) \<in> set ms. env_hash e = X"
    and "cache_kept X (m_cacheManager s) (os_files s)"
  shows "cache_kept X (m_cacheManager s') (os_files s') \<and>
    (queue_bytes (os_files s') (m_timeQueue (m_cacheManager s')) < 2 ^ 64 \<longrightarrow> cache_ok (m_cacheManager s') (os_files s')) \<and>
    queued (m_cacheManager s) \<subseteq> queued (m_cacheManager s') \<and>
    (\<forall>p \<in> queued (m_cacheManager s). content_of (os_files s') p = content_of (os_files s) p) \<and>
    (\<forall>p. \<not> prefix (m_cachePath (m_cacheManager s)) p \<longrightarrow> umap_find (os_files s') p = umap_find (os_files s) p)"
  using cache_steps_keep [OF receive_steps [OF assms(1-3)]] assms(4)
  by (auto simp: cache_grows_def intro: cache_kept_ok)

text \<open>The load of a file into an empty cache.\<close>

lemma runs_keep_cache_witness:
  "cache_kept sample_hash (m_cacheManager loaded_state) (os_files loaded_state) \<and>
   cached_path sample_cache 4 ''.wav'' \<in> queued (m_cacheManager loaded_state)"
proof -
  have run: "receive [(chunk_env, (''/assetLoad'', [Osc_string (keyToString 4)]))] (sample_state file_db ()) = Inr loaded_state"
    using first_load by (simp add: receive_def)
  have start: "cache_kept sample_hash (m_cacheManager (sample_state file_db ())) (os_files (sample_state file_db ()))"
    by (simp add: cache_kept_def queued_def sample_state_def sample_cache_def new_CacheManager_def pq_ok_def queue_bytes_def)
  have key: "keyToString 4 = ''0000000000000004''" by code_simp
  from runs_keep_cache [OF run sample_hash_ok _ start] show ?thesis
    by (simp add: chunk_env_def loaded_state_def queued_def cached_path_def key sample_cache_def new_CacheManager_def)
qed

end
