(* ===== verification/Clients.thy ===== *)
theory Clients
  imports Asset_Service Osc_Answers
begin

text \<open>
  Several client programs around one asset server. A turn is one message that one client
  receives and works off; between two turns of a client the server may have served any number
  of turns of the others. The theory follows the server's database and those of all clients
  through any sequence of turns.
\<close>

section \<open>What requests keep\<close>

text \<open>A property of the world that no request breaks, and one that no download breaks.\<close>

definition net_keeps :: "'w network \<Rightarrow> ('w \<Rightarrow> bool) \<Rightarrow> bool" where
  "net_keeps net P \<longleftrightarrow> (\<forall>req w. P w \<longrightarrow> P (snd (net req w)))"

definition gets_keep :: "'w network \<Rightarrow> ('w \<Rightarrow> bool) \<Rightarrow> bool" where
  "gets_keep net P \<longleftrightarrow> (\<forall>req w. req_method req = Get \<longrightarrow> P w \<longrightarrow> P (snd (net req w)))"

lemma net_keeps_gets: "net_keeps net P \<Longrightarrow> gets_keep net P"
  by (simp add: net_keeps_def gets_keep_def)

lemma http_send_keeps: "http_send net m u b w = Inr (r, w') \<Longrightarrow> net_keeps net P \<Longrightarrow> P w \<Longrightarrow> P w'"
  by (auto simp: http_send_def net_keeps_def split: prod.splits option.splits) (metis snd_conv)

lemma http_get_keeps:
  assumes "http_send net Get u b w = Inr (r, w')" "gets_keep net P" "P w"
  shows "P w'"
proof -
  have "w' = snd (net \<lparr>req_method = Get, req_resource = u, req_body = b\<rparr> w)"
    using assms(1) by (auto simp: http_send_def split: prod.splits option.splits)
  with assms(2,3) show ?thesis by (simp add: gets_keep_def)
qed

lemma client_get_keeps:
  "client_getAsset H F net c key w = Inr (x, w') \<Longrightarrow> gets_keep net P \<Longrightarrow> P w \<Longrightarrow> P w'"
  "client_getNamedAsset H F net c name w = Inr (rec, w') \<Longrightarrow> gets_keep net P \<Longrightarrow> P w \<Longrightarrow> P w'"
  "client_getAssetData H F net c key chunk w = Inr (y, w') \<Longrightarrow> gets_keep net P \<Longrightarrow> P w \<Longrightarrow> P w'"
  "client_getNamedList H F net c name w = Inr (rec, w') \<Longrightarrow> gets_keep net P \<Longrightarrow> P w \<Longrightarrow> P w'"
  "client_getListItems net c key token w = Inr (bs, w') \<Longrightarrow> gets_keep net P \<Longrightarrow> P w \<Longrightarrow> P w'"
  by (auto simp: client_getAsset_def client_getNamedAsset_def client_getAssetData_def client_getNamedList_def
      client_getListItems_def Let_def fault_simps split: if_splits dest: http_get_keeps)

lemma client_post_keeps: "client_post H net u bs w = Inr (ok, w') \<Longrightarrow> net_keeps net P \<Longrightarrow> P w \<Longrightarrow> P w'"
  by (auto simp: client_post_def fault_simps dest: http_send_keeps)

lemma upload_loop_keeps:
  "upload_loop H F X net c key ok s bytesRemaining chunk h chunkHash w = Inr (r, w') \<Longrightarrow> net_keeps net P \<Longrightarrow> P w \<Longrightarrow> P w'"
proof (induction H F X net c key ok s bytesRemaining chunk h chunkHash w rule: upload_loop.induct)
  case (1 H F X net c key ok s bytesRemaining chunk h chunkHash w)
  from "1.prems" show ?case
    by (subst (asm) upload_loop.simps)
      (auto simp: fault_simps Let_def split: if_splits prod.splits dest: client_post_keeps intro: "1.IH")
qed

lemma client_post_asset_keeps:
  "postInlineAsset H F X net c salt t name author deps ids sz d w = Inr (k, w') \<Longrightarrow> net_keeps net P \<Longrightarrow> P w \<Longrightarrow> P w'"
  "postFileAsset H F X net c t name author deps ids file w = Inr (k, w') \<Longrightarrow> net_keeps net P \<Longrightarrow> P w \<Longrightarrow> P w'"
  "postList H F net c key name w = Inr (k, w') \<Longrightarrow> net_keeps net P \<Longrightarrow> P w \<Longrightarrow> P w'"
  by (auto simp: postInlineAsset_def postFileAsset_def postList_def Let_def fault_simps
      split: if_splits prod.splits option.splits dest: client_post_keeps upload_loop_keeps)

lemma download_loop_keeps:
  "download_loop H F X net hc key chunks i s w = Inr (s', w') \<Longrightarrow> gets_keep net P \<Longrightarrow> P w \<Longrightarrow> P w'"
proof (induction H F X net hc key chunks i s w rule: download_loop.induct)
  case (1 H F X net hc key chunks i s w)
  from "1.prems" show ?case
    by (subst (asm) download_loop.simps)
      (auto simp: fault_simps split: if_splits dest: client_get_keeps intro: "1.IH")
qed

lemma download_keeps:
  "download H F X net hc opens now key sz chunks ext c fs w = Inr (r, w') \<Longrightarrow> gets_keep net P \<Longrightarrow> P w \<Longrightarrow> P w'"
  by (auto simp: download_def Let_def fault_simps split: if_splits dest: download_loop_keeps)

lemma sendAsset_world: "sendAsset e r rec s = Inr s' \<Longrightarrow> os_world s' = os_world s"
  by (auto dest: sendAsset_shape)

lemma cache_record_world: "cache_record e k rec s = Inr s' \<Longrightarrow> os_world s' = os_world s"
  by (auto dest: cache_record_shape)

lemma locate_asset_keeps:
  "locate_asset e key s = Inr (info, s') \<Longrightarrow> gets_keep (env_net e) P \<Longrightarrow> P (os_world s) \<Longrightarrow> P (os_world s')"
  by (auto simp: locate_asset_def fault_simps Let_def split: if_splits dest: client_get_keeps dest!: cache_record_world)

lemma find_tasks_keep:
  "task_findAsset e key s = Inr s' \<Longrightarrow> gets_keep (env_net e) P \<Longrightarrow> P (os_world s) \<Longrightarrow> P (os_world s')"
  "task_findNamedAsset e name s = Inr s' \<Longrightarrow> gets_keep (env_net e) P \<Longrightarrow> P (os_world s) \<Longrightarrow> P (os_world s')"
  "task_findList e name s = Inr s' \<Longrightarrow> gets_keep (env_net e) P \<Longrightarrow> P (os_world s) \<Longrightarrow> P (os_world s')"
  "task_nextList e key token s = Inr s' \<Longrightarrow> gets_keep (env_net e) P \<Longrightarrow> P (os_world s) \<Longrightarrow> P (os_world s')"
  by (auto simp: task_findAsset_def task_findNamedAsset_def task_findList_def task_nextList_def fault_simps Let_def
      split: if_splits dest: client_get_keeps dest!: sendAsset_world cache_record_world)

lemma add_tasks_keep:
  "task_addAssetFile e t n name au deps ids path s = Inr s' \<Longrightarrow> net_keeps (env_net e) P \<Longrightarrow> P (os_world s) \<Longrightarrow> P (os_world s')"
  "task_addAssetString e t n name au deps ids str s = Inr s' \<Longrightarrow> net_keeps (env_net e) P \<Longrightarrow> P (os_world s) \<Longrightarrow> P (os_world s')"
  "task_addList e name s = Inr s' \<Longrightarrow> net_keeps (env_net e) P \<Longrightarrow> P (os_world s) \<Longrightarrow> P (os_world s')"
  by (auto simp: task_addAssetFile_def task_addAssetString_def task_addList_def fault_simps
      split: option.splits if_splits dest: client_post_asset_keeps)

lemma task_loadAsset_keeps:
  "task_loadAsset e key s = Inr s' \<Longrightarrow> gets_keep (env_net e) P \<Longrightarrow> P (os_world s) \<Longrightarrow> P (os_world s')"
  by (auto simp: task_loadAsset_def Let_def fault_simps split: if_splits dest!: download_keeps)
    (auto dest: locate_asset_keeps)

lemma ProcessMessage_keeps:
  assumes "ProcessMessage e m s = Inr s'" "net_keeps (env_net e) P" "P (os_world s)"
  shows "P (os_world s')"
proof -
  have "P (os_world s')" if "run_task e t s = Inr s'" for t
    using that assms(2,3)
    by (cases t) (auto dest: find_tasks_keep add_tasks_keep task_loadAsset_keeps net_keeps_gets)
  with assms(1,3) show ?thesis
    by (auto simp: ProcessMessage_def split: sum.splits option.splits fault.splits)
qed

section \<open>The server as a network\<close>

text \<open>The asset records a database holds, under whatever keys.\<close>

definition holds :: "'db leveldb \<Rightarrow> 'db asset_database \<Rightarrow> bytes \<Rightarrow> bool" where
  "holds ldb d bs \<longleftrightarrow> (\<exists>k. view ldb d (AssetKey k) = Some bs)"

lemma server_net_keeps:
  "net_keeps (server_net H ldb F now addr) (db_wf ldb F)"
  by (auto simp: net_keeps_def server_net_def split: sum.splits dest: serve_db_wf)

lemma serve_get:
  "serve H ldb F now req d = Inr (r, d') \<Longrightarrow> req_method req = Get \<Longrightarrow> d' = d"
  by (auto simp: serve_def setupRoutes_def run_handler_def split: option.splits if_splits dest: http_get_db)

lemma server_gets_keep: "gets_keep (server_net H ldb F now addr) (\<lambda>w. w = d)"
  by (auto simp: gets_keep_def server_net_def split: sum.splits dest: serve_get)

text \<open>What comes back for a lookup: nothing, or the bytes of a record the server holds.\<close>

definition from_server :: "'db leveldb \<Rightarrow> 'db asset_database \<Rightarrow> record_ptr \<Rightarrow> bool" where
  "from_server ldb d rec \<longleftrightarrow> rec = EmptyRecord \<or> (\<exists>bs. rec = ClientRecord (SizedPointer bs) \<and> holds ldb d bs)"

lemma findAsset_holds:
  assumes "db_wf ldb F d" "findAsset ldb F k d = Inr rec"
  shows "rec = EmptyRecord \<or> (\<exists>bs. record_data rec = Inr (SizedPointer bs) \<and> holds ldb d bs)"
proof -
  have "\<exists>r. resolves ldb F d k r"
    using findAsset_outcome(2) [OF db_wfD(1,3) [OF assms(1)], of k] assms(2) by auto
  then obtain r where r: "resolves ldb F d k r" by blast
  obtain rec' where "findAsset ldb F k d = Inr rec'" "found ldb d r rec'"
    using findAsset_outcome(1) [OF db_wfD(1,3) [OF assms(1)] r] by blast
  with assms(2) show ?thesis by (auto simp: found_def holds_def split: option.splits)
qed

lemma findNamedAsset_holds:
  assumes "db_wf ldb F d" "findNamedAsset ldb F name d = Inr rec"
  shows "rec = EmptyRecord \<or> (\<exists>bs. record_data rec = Inr (SizedPointer bs) \<and> holds ldb d bs)"
  using findNamedAsset_lookup [OF assms(1), of name]
proof
  assume "findNamedAsset ldb F name d = Inr EmptyRecord"
  with assms(2) show ?thesis by simp
next
  assume "\<exists>k. findNamedAsset ldb F name d = findAsset ldb F k d"
  then obtain k where "findAsset ldb F k d = Inr rec" using assms(2) by auto
  then show ?thesis by (rule findAsset_holds [OF assms(1)])
qed

lemma received_from_server:
  assumes "http_ok H" "rec = EmptyRecord \<or> (\<exists>bs. record_data rec = Inr (SizedPointer bs) \<and> holds ldb d bs)"
    and "send_record H rec d1 = Inr (r, d2)" "received H valid r = Inr rec'"
  shows "from_server ldb d rec'"
proof (cases "record_empty rec")
  case True
  with assms(3,4) show ?thesis by (auto simp: send_record_def respond_def received_def from_server_def)
next
  case False
  with assms(2) obtain bs where bs: "record_data rec = Inr (SizedPointer bs)" "holds ldb d bs" by auto
  with False assms(3) have "r = \<lparr>resp_code = Ok, resp_body = b64_encode H bs\<rparr>"
    by (auto simp: send_record_def respond_def encode_page_def fault_simps split: if_splits)
  with assms(1,4) bs(2) show ?thesis
    by (auto simp: received_def decode_page_def decode_encoded from_server_def fault_simps split: if_splits)
qed

lemma server_lookup:
  assumes "http_ok H" "db_wf ldb F d"
  shows "client_getAsset H F (server_net H ldb F now addr) \<lparr>m_serverAddress = addr\<rparr> key d = Inr ((k, rec), d') \<Longrightarrow>
      d' = d \<and> from_server ldb d rec"
    and "client_getNamedAsset H F (server_net H ldb F now addr) \<lparr>m_serverAddress = addr\<rparr> name d = Inr (rec, d') \<Longrightarrow>
      d' = d \<and> from_server ldb d rec"
proof -
  note sent = http_send_server serve_routes [OF assms(1), simplified] key_text.dec_enc Let_def
  assume get: "client_getAsset H F (server_net H ldb F now addr) \<lparr>m_serverAddress = addr\<rparr> key d = Inr ((k, rec), d')"
  then have "d' = d" by (rule client_get_keeps(1)) (rule server_gets_keep, rule refl)
  moreover obtain rec0 r d1 where "findAsset ldb F key d = Inr rec0" "send_record H rec0 d = Inr (r, d1)"
    "received H (asset_valid F) r = Inr rec"
    using get by (auto simp: client_getAsset_def http_getAsset_def sent fault_simps split: sum.splits)
  ultimately show "d' = d \<and> from_server ldb d rec"
    using received_from_server [OF assms(1) findAsset_holds [OF assms(2)]] by simp
next
  note sent = http_send_server serve_routes [OF assms(1), simplified] key_text.dec_enc Let_def
  assume get: "client_getNamedAsset H F (server_net H ldb F now addr) \<lparr>m_serverAddress = addr\<rparr> name d = Inr (rec, d')"
  then have "d' = d" by (rule client_get_keeps(2)) (rule server_gets_keep, rule refl)
  moreover obtain rec0 r d1 where "findNamedAsset ldb F name d = Inr rec0" "send_record H rec0 d = Inr (r, d1)"
    "received H (asset_valid F) r = Inr rec"
    using get by (auto simp: client_getNamedAsset_def http_getNamedAsset_def sent fault_simps split: sum.splits)
  ultimately show "d' = d \<and> from_server ldb d rec"
    using received_from_server [OF assms(1) findNamedAsset_holds [OF assms(2)]] by simp
qed

section \<open>What a client keeps\<close>

lemma storeAsset_holds:
  assumes "opened ldb d" "storeAsset ldb F now key (SizedPointer bs) d = Inr (ok, d')" "holds ldb d' b"
  shows "b = bs \<or> holds ldb d b"
proof -
  obtain ls where put: "db_put_batch ldb (typed_batch (asset_batch now key bs (asset_root F bs) ls)) d = Inr (ok, d')"
    using storeAsset_batch [OF assms(2)] by blast
  obtain k where k: "view ldb d' (AssetKey k) = Some b" using assms(3) by (auto simp: holds_def)
  have only: "v = bs" if "(AssetKey k, v) \<in> set (asset_batch now key bs (asset_root F bs) ls)" for v
    using that by (auto simp: asset_batch_def typed_name_def split: option.splits if_splits)
  have "view ldb d' = (if ok then update_view (asset_batch now key bs (asset_root F bs) ls) (view ldb d) else view ldb d)"
    using put_batch_refines [OF assms(1), of "asset_batch now key bs (asset_root F bs) ls"] put by auto
  with k have "(AssetKey k, b) \<in> set (asset_batch now key bs (asset_root F bs) ls) \<or> view ldb d (AssetKey k) = Some b"
    using update_view_cases by (auto split: if_splits)
  with only show ?thesis by (auto simp: holds_def)
qed

text \<open>
  What a client relies on to know where its records come from: an asset that a lookup brings was
  seen at the service, in its state \<open>w\<close>, and what was seen stays so while the client only looks up.
\<close>

definition brought :: "('w \<Rightarrow> bytes \<Rightarrow> bool) \<Rightarrow> 'w \<Rightarrow> record_ptr \<Rightarrow> bool" where
  "brought seen w rec \<longleftrightarrow> rec = EmptyRecord \<or> (\<exists>bs. rec = ClientRecord (SizedPointer bs) \<and> seen w bs)"

definition uses_net :: "('db, 'h, 'w) osc_env \<Rightarrow> http_lib \<Rightarrow> flat_lib \<Rightarrow> 'w network \<Rightarrow> http_client \<Rightarrow> bool" where
  "uses_net e H F net hc \<longleftrightarrow> env_http e = H \<and> env_flat e = F \<and> env_net e = net \<and> m_httpClient e = hc"

locale asset_source =
  fixes H :: http_lib and F :: flat_lib and net :: "'w network" and hc :: http_client
    and good :: "'w \<Rightarrow> bool" and seen :: "'w \<Rightarrow> bytes \<Rightarrow> bool"
  assumes good_kept: "good w \<Longrightarrow> good (snd (net req w))"
    and seen_kept: "good w \<Longrightarrow> req_method req = Get \<Longrightarrow> seen w b \<Longrightarrow> seen (snd (net req w)) b"
    and asset_seen: "good w \<Longrightarrow> client_getAsset H F net hc key w = Inr ((k, rec), w') \<Longrightarrow> brought seen w' rec"
    and named_seen: "good w \<Longrightarrow> client_getNamedAsset H F net hc name w = Inr (rec, w') \<Longrightarrow> brought seen w' rec"

text \<open>The local database after a task: what it held, and what was seen at the service.\<close>

definition gained :: "('w \<Rightarrow> bytes \<Rightarrow> bool) \<Rightarrow> ('db, 'h, 'w) osc_env \<Rightarrow> ('db, 'w) osc_handler \<Rightarrow> ('db, 'w) osc_handler \<Rightarrow> bool" where
  "gained seen e s s' \<longleftrightarrow>
     (\<forall>b. holds (env_ldb e) (m_assetDatabase s') b \<longrightarrow> holds (env_ldb e) (m_assetDatabase s) b \<or> seen (os_world s') b)"

lemma gained_same: "m_assetDatabase s' = m_assetDatabase s \<Longrightarrow> gained seen e s s'"
  by (simp add: gained_def)

lemma cache_record_gained:
  assumes "cache_record e k rec s1 = Inr s2" "brought seen (os_world s1) rec" "opened (env_ldb e) (m_assetDatabase s)"
    and "m_assetDatabase s1 = m_assetDatabase s" "m_assetDatabase s3 = m_assetDatabase s2" "os_world s3 = os_world s2"
  shows "gained seen e s s3"
proof -
  obtain p ok d' where c: "record_data rec = Inr p" "m_assetDatabase s2 = d'"
    "storeAsset (env_ldb e) (env_flat e) (env_micros e) k p (m_assetDatabase s) = Inr (ok, d')"
    using assms(1,4) by (auto simp: cache_record_def fault_simps)
  then obtain bs where bs: "p = SizedPointer bs" by (cases p) (auto simp: storeAsset_def)
  then have "seen (os_world s1) bs" using assms(2) c(1) by (auto simp: brought_def)
  then show ?thesis
    using storeAsset_holds [OF assms(3) c(3) [unfolded bs]] c(2) assms(5,6) cache_record_world [OF assms(1)]
    by (auto simp: gained_def)
qed

lemma sendAsset_database: "sendAsset e r rec s = Inr s' \<Longrightarrow> m_assetDatabase s' = m_assetDatabase s \<and> os_world s' = os_world s"
  by (auto dest: sendAsset_shape)

lemma load_database:
  assumes "task_loadAsset e key s = Inr s'"
  shows "m_assetDatabase s' = m_assetDatabase s \<or>
    (\<exists>fs info s1. locate_asset e key (s\<lparr>os_files := fs\<rparr>) = Inr (info, s1) \<and> m_assetDatabase s' = m_assetDatabase s1 \<and>
      (\<forall>P. gets_keep (env_net e) P \<longrightarrow> P (os_world s1) \<longrightarrow> P (os_world s')))"
proof -
  obtain path fs where c: "checkCache (env_time e) key (m_cacheManager s) (os_files s) = Inr (path, fs)"
    using assms by (cases "checkCache (env_time e) key (m_cacheManager s) (os_files s)") (auto simp: task_loadAsset_def)
  show ?thesis
  proof (cases "path = []")
    case False
    with assms c show ?thesis by (auto simp: task_loadAsset_def Let_def)
  next
    case True
    with assms c obtain dk sz ch ext s1 where l: "locate_asset e key (s\<lparr>os_files := fs\<rparr>) = Inr ((dk, sz, ch, ext), s1)"
      by (auto simp: task_loadAsset_def Let_def fault_simps)
    with assms c True have "m_assetDatabase s' = m_assetDatabase s1 \<and>
        (\<forall>P. gets_keep (env_net e) P \<longrightarrow> P (os_world s1) \<longrightarrow> P (os_world s'))"
      by (auto simp: task_loadAsset_def Let_def fault_simps split: if_splits dest: download_keeps)
    with l show ?thesis by blast
  qed
qed

context asset_source
begin

lemma find_tasks_gained:
  assumes "uses_net e H F net hc" "good (os_world s)" "opened (env_ldb e) (m_assetDatabase s)"
  shows "task_findAsset e key s = Inr s' \<Longrightarrow> gained seen e s s'"
    and "task_findNamedAsset e name s = Inr s' \<Longrightarrow> gained seen e s s'"
    and "locate_asset e key s = Inr (info, s') \<Longrightarrow> gained seen e s s'"
  using asset_seen [OF assms(2)] named_seen [OF assms(2)] assms(1)
  by (auto simp: task_findAsset_def task_findNamedAsset_def locate_asset_def uses_net_def fault_simps Let_def split: if_splits
      dest!: sendAsset_database intro: gained_same cache_record_gained [OF _ _ assms(3)])

lemma good_net_keeps: "net_keeps net good"
  using good_kept by (simp add: net_keeps_def)

lemma seen_gets_keep: "gets_keep net (\<lambda>w. good w \<and> seen w b)"
  using good_kept seen_kept by (simp add: gets_keep_def)

lemma run_task_gained:
  assumes "uses_net e H F net hc" "good (os_world s)" "opened (env_ldb e) (m_assetDatabase s)" "run_task e t s = Inr s'"
  shows "gained seen e s s'"
proof (cases t)
  case (Load_asset key)
  then have load: "task_loadAsset e key s = Inr s'" using assms(4) by simp
  from load_database [OF load] show ?thesis
  proof (elim disjE exE conjE)
    fix fs info s1
    assume l: "locate_asset e key (s\<lparr>os_files := fs\<rparr>) = Inr (info, s1)" "m_assetDatabase s' = m_assetDatabase s1"
      and later: "\<forall>P. gets_keep (env_net e) P \<longrightarrow> P (os_world s1) \<longrightarrow> P (os_world s')"
    have net: "env_net e = net" using assms(1) by (simp add: uses_net_def)
    have "good (os_world s1)"
      using locate_asset_keeps [OF l(1), of good] assms(2) net_keeps_gets [OF good_net_keeps] net by simp
    then have "seen (os_world s1) b \<Longrightarrow> seen (os_world s') b" for b
      using later seen_gets_keep net by blast
    moreover have "gained seen e (s\<lparr>os_files := fs\<rparr>) s1"
      using find_tasks_gained(3) [OF assms(1) _ _ l(1)] assms(2,3) by simp
    ultimately show ?thesis using l(2) by (auto simp: gained_def)
  qed (rule gained_same)
qed (use assms(4) find_tasks_gained [OF assms(1-3)] in
    \<open>auto simp: task_addAssetFile_def task_addAssetString_def task_addList_def task_findList_def task_nextList_def fault_simps
      split: option.splits if_splits intro: gained_same\<close>)

lemma ProcessMessage_gained:
  assumes "uses_net e H F net hc" "good (os_world s)" "opened (env_ldb e) (m_assetDatabase s)" "ProcessMessage e m s = Inr s'"
  shows "gained seen e s s'"
proof -
  have "s' = s \<or> (\<exists>t. run_task e t s = Inr s')"
    using assms(4) by (auto simp: ProcessMessage_def split: sum.splits option.splits fault.splits)
  then show ?thesis using run_task_gained [OF assms(1-3)] gained_same by blast
qed

end

interpretation turn_source: asset_source H F "server_net H ldb F now addr" "\<lparr>m_serverAddress = addr\<rparr>"
    "\<lambda>d. http_ok H \<and> db_wf ldb F d" "holds ldb" for H F ldb now addr
proof unfold_locales
  fix d and req :: http_request
  assume "http_ok H \<and> db_wf ldb F d"
  then show "http_ok H \<and> db_wf ldb F (snd (server_net H ldb F now addr req d))"
    using server_net_keeps [of H ldb F now addr] by (simp add: net_keeps_def)
next
  fix d b and req :: http_request
  assume "req_method req = Get" "holds ldb d b"
  then show "holds ldb (snd (server_net H ldb F now addr req d)) b"
    using server_gets_keep [of H ldb F now addr d] by (auto simp: gets_keep_def)
next
  fix d key k rec d'
  assume "http_ok H \<and> db_wf ldb F d"
    and "client_getAsset H F (server_net H ldb F now addr) \<lparr>m_serverAddress = addr\<rparr> key d = Inr ((k, rec), d')"
  then show "brought (holds ldb) d' rec"
    using server_lookup(1) [of H ldb F d now addr] unfolding brought_def from_server_def by blast
next
  fix d name rec d'
  assume "http_ok H \<and> db_wf ldb F d"
    and "client_getNamedAsset H F (server_net H ldb F now addr) \<lparr>m_serverAddress = addr\<rparr> name d = Inr (rec, d')"
  then show "brought (holds ldb) d' rec"
    using server_lookup(2) [of H ldb F d now addr] unfolding brought_def from_server_def by blast
qed

section \<open>What changes the server\<close>

lemma storeList_assets:
  assumes "opened ldb d" "storeList ldb F key p d = Inr (ok, d')"
  shows "view ldb d' (AssetKey k) = view ldb d (AssetKey k)"
proof -
  obtain bs where bs: "p = SizedPointer bs" using assms(2) by (cases p) (auto simp: storeList_def)
  then have "db_put_batch ldb (typed_batch (list_batch key bs (list_root F bs))) d = Inr (ok, d')"
    using assms(2) by (auto simp: storeList_def GetFlatList_def list_batch_def name_entry_typed Let_def fault_simps
        split: if_splits)
  then have "view ldb d' = (if ok then update_view (list_batch key bs (list_root F bs)) (view ldb d) else view ldb d)"
    using put_batch_refines [OF assms(1), of "list_batch key bs (list_root F bs)"] by auto
  moreover have "AssetKey k \<notin> fst ` set (list_batch key bs (list_root F bs))"
    by (auto simp: list_batch_def typed_name_def split: option.splits if_splits)
  ultimately show ?thesis by (simp add: update_view_other)
qed

lemma postList_assets:
  assumes "http_ok H" "opened ldb d"
    and "postList H F (server_net H ldb F now addr) \<lparr>m_serverAddress = addr\<rparr> key name d = Inr (x, d')"
  shows "view ldb d' (AssetKey k) = view ldb d (AssetKey k)"
proof -
  let ?res = "''/list/id/'' @ keyToString key"
  obtain body r where "http_send (server_net H ldb F now addr) Post (addr @ ?res) body d = Inr (r, d')"
    using assms(3) by (auto simp: postList_def client_post_def fault_simps Let_def)
  then have "serve H ldb F now \<lparr>req_method = Post, req_resource = ?res, req_body = body\<rparr> d = Inr (r, d')"
    by (cases "serve H ldb F now \<lparr>req_method = Post, req_resource = ?res, req_body = body\<rparr> d")
      (simp_all only: http_send_server sum.case, simp_all)
  then have "http_postList H ldb F (keyToString key) body d = Inr (r, d')"
    by (simp only: serve_routes(7) [OF assms(1)])
  then show ?thesis
    using storeList_assets [OF assms(2)]
    by (auto simp: http_postList_def Let_def fault_simps split: if_splits dest!: status_response_db)
qed

text \<open>Only a message that adds an asset changes the assets of the server.\<close>

definition adds_asset :: "osc_message \<Rightarrow> bool" where
  "adds_asset m \<longleftrightarrow> fst m = ''/assetAddFile'' \<or> fst m = ''/assetAddString''"

lemma other_messages_keep_assets:
  assumes "http_ok H" "connected e H ldb F X now addr" "db_wf ldb F (os_world s)" "ProcessMessage e m s = Inr s'"
    and "\<not> adds_asset m"
  shows "holds ldb (os_world s') b \<longleftrightarrow> holds ldb (os_world s) b"
proof -
  have gets: "gets_keep (env_net e) (\<lambda>w. w = os_world s)"
    using assms(2) server_gets_keep by (simp add: connected_def)
  have "holds ldb (os_world s') b \<longleftrightarrow> holds ldb (os_world s) b"
    if parse: "parse_message m = Inr (Some t)" and run: "run_task e t s = Inr s'" for t
  proof (cases t)
    case (Add_list name)
    with run assms(2) obtain x where
      "postList H F (server_net H ldb F now addr) \<lparr>m_serverAddress = addr\<rparr> (env_random e) name (os_world s) = Inr (x, os_world s')"
      by (auto simp: task_addList_def connected_def fault_simps)
    from postList_assets [OF assms(1) db_wfD(1) [OF assms(3)] this] show ?thesis by (simp add: holds_def)
  next
    case (Add_asset_file ty n name au de ids path)
    with parse assms(5) show ?thesis
      by (cases m) (auto simp: adds_asset_def parse_message_def split: if_splits dest!: parsed_keys parsed_names)
  next
    case (Add_asset_string ty n name au de ids str)
    with parse assms(5) show ?thesis
      by (cases m) (auto simp: adds_asset_def parse_message_def split: if_splits dest!: parsed_keys parsed_names)
  qed (use run find_tasks_keep [OF _ gets] task_loadAsset_keeps [OF _ gets] in auto)
  with assms(4) show ?thesis
    by (auto simp: ProcessMessage_def split: sum.splits option.splits fault.splits)
qed

section \<open>Turns\<close>

text \<open>
  The state of the whole: the server's database and the client programs. A turn is recorded with
  the client that took it, its message and the server's database after it.
\<close>

type_synonym ('db, 'sdb) system = "'sdb asset_database \<times> (nat \<Rightarrow> ('db, 'sdb asset_database) osc_handler)"
type_synonym 'sdb turn = "nat \<times> osc_message \<times> 'sdb asset_database"

inductive system_run :: "http_lib \<Rightarrow> 'sdb leveldb \<Rightarrow> flat_lib \<Rightarrow> 'h hash_lib \<Rightarrow> string \<Rightarrow> 'db leveldb \<Rightarrow> ('db, 'sdb) system \<Rightarrow>
    'sdb turn list \<Rightarrow> ('db, 'sdb) system \<Rightarrow> bool" for H ldb F X addr cldb start where
  start: "system_run H ldb F X addr cldb start [] start"
| turn: "system_run H ldb F X addr cldb start turns (srv, cl) \<Longrightarrow>
    connected e H ldb F X now addr \<Longrightarrow> env_ldb e = cldb \<Longrightarrow>
    ProcessMessage e m ((cl i)\<lparr>os_world := srv\<rparr>) = Inr s \<Longrightarrow>
    system_run H ldb F X addr cldb start (turns @ [(i, m, os_world s)]) (os_world s, cl(i := s))"

definition was_added :: "'sdb leveldb \<Rightarrow> 'sdb asset_database \<Rightarrow> 'sdb turn list \<Rightarrow> bytes \<Rightarrow> bool" where
  "was_added ldb srv0 turns b \<longleftrightarrow>
     holds ldb srv0 b \<or> (\<exists>(i, m, d) \<in> set turns. adds_asset m \<and> holds ldb d b)"

lemma was_added_later: "was_added ldb srv0 turns b \<Longrightarrow> was_added ldb srv0 (turns @ [x]) b"
  by (auto simp: was_added_def)

text \<open>
  C2: However many clients take turns in whatever order, the server's database and those of
  all clients stay well formed, and every asset that any of them holds was held by the server
  at the start or was added by a message of one of the clients: the record is byte for byte
  one the server held when that message had been worked off.
\<close>

theorem assets_come_from_users:
  assumes "system_run H ldb F X addr cldb (srv0, cl0) turns (srv, cl)" "http_ok H" "db_wf ldb F srv0"
    and "\<forall>i. db_wf cldb F (m_assetDatabase (cl0 i)) \<and> (\<forall>b. \<not> holds cldb (m_assetDatabase (cl0 i)) b)"
  shows "db_wf ldb F srv \<and> (\<forall>i. db_wf cldb F (m_assetDatabase (cl i))) \<and>
    (\<forall>b. holds ldb srv b \<longrightarrow> was_added ldb srv0 turns b) \<and>
    (\<forall>i b. holds cldb (m_assetDatabase (cl i)) b \<longrightarrow> was_added ldb srv0 turns b)"
  using assms(1)
proof (induction turns "(srv, cl)" arbitrary: srv cl rule: system_run.induct)
  case start
  with assms(3,4) show ?case by (simp add: was_added_def)
next
  case (turn turns srv cl e now m i s)
  let ?s = "(cl i)\<lparr>os_world := srv\<rparr>" and ?turns = "turns @ [(i, m, os_world s)]"
  have e: "env_ldb e = cldb" "env_flat e = F" using turn.hyps(3,4) by (simp_all add: connected_def)
  have wf: "db_wf ldb F (os_world ?s)" "db_wf cldb F (m_assetDatabase ?s)" using turn.hyps(2) by simp_all
  have srv: "db_wf ldb F (os_world s)"
    using ProcessMessage_keeps [where P = "db_wf ldb F", OF turn.hyps(5) _ wf(1)] turn.hyps(3)
    by (simp add: connected_def server_net_keeps)
  have cl: "db_wf cldb F (m_assetDatabase s)"
    using ProcessMessage_effect [OF turn.hyps(5)] wf(2) e by (simp add: task_effect_def)
  have added: "was_added ldb srv0 ?turns b" if "holds ldb (os_world s) b" for b
  proof (cases "adds_asset m")
    case True
    with that show ?thesis by (auto simp: was_added_def)
  next
    case False
    with that have "holds ldb srv b"
      using other_messages_keep_assets [OF assms(2) turn.hyps(3) wf(1) turn.hyps(5)] by simp
    with turn.hyps(2) show ?thesis by (blast intro: was_added_later)
  qed
  have kept: "was_added ldb srv0 ?turns b" if "holds cldb (m_assetDatabase s) b" for b
  proof -
    have "uses_net e H F (server_net H ldb F now addr) \<lparr>m_serverAddress = addr\<rparr>"
      using turn.hyps(3) by (simp add: uses_net_def connected_def)
    then have "gained (holds ldb) e ?s s"
      using turn_source.ProcessMessage_gained [OF _ _ _ turn.hyps(5)] assms(2) wf(1) db_wfD(1) [OF wf(2)] e by blast
    with that have "holds cldb (m_assetDatabase (cl i)) b \<or> holds ldb (os_world s) b" by (simp add: gained_def e)
    with turn.hyps(2) added show ?thesis by (blast intro: was_added_later)
  qed
  have others: "was_added ldb srv0 ?turns b" if "holds cldb (m_assetDatabase (cl j)) b" for j b
    using turn.hyps(2) that by (blast intro: was_added_later)
  show ?case
    using srv cl added kept others turn.hyps(2) by auto
qed

text \<open>Two clients with empty databases: one adds a string, then the other takes a turn.\<close>

lemma assets_come_from_users_witness:
  "\<exists>srv. db_wf mem_store plain_flat srv \<and> (\<forall>b. holds mem_store srv b \<longrightarrow>
     was_added mem_store (memory_db []) [(0, sample_add, srv), (1, (''/assetFind'', []), srv)] b)"
proof -
  let ?s = "sample_state [] (memory_db [])" and ?cl = "(\<lambda>_. sample_state [] (memory_db [])) :: nat \<Rightarrow> (mem, mem asset_database) osc_handler"
  let ?run = "system_run sample_http mem_store plain_flat sample_hash ''s'' mem_store (memory_db [], ?cl)"
  obtain s1 where add: "ProcessMessage (sample_env 1) sample_add ?s = Inr s1" using sample_add by blast
  have env: "env_ldb (sample_env 1) = mem_store" by (simp add: sample_env_def)
  have same: "(?cl 0)\<lparr>os_world := memory_db []\<rparr> = ?s" by (simp add: sample_state_def)
  have first: "?run ([] @ [(0, sample_add, os_world s1)]) (os_world s1, ?cl(0 := s1))"
    by (rule system_run.turn [OF system_run.start sample_env_connected env]) (simp add: same add)
  let ?s2 = "((?cl(0 := s1)) 1)\<lparr>os_world := os_world s1\<rparr>"
  have world: "os_world ?s2 = os_world s1" by simp
  have "ProcessMessage (sample_env 1) (''/assetFind'', []) ?s2 = Inr ?s2"
    by (simp add: ProcessMessage_def parse_message_def parse_assetFind_def)
  from system_run.turn [OF first sample_env_connected env this]
  have run: "?run [(0, sample_add, os_world s1), (1, (''/assetFind'', []), os_world s1)]
      (os_world s1, ?cl(0 := s1, 1 := ?s2))"
    by (simp only: append.simps world)
  have "db_wf mem_store plain_flat (m_assetDatabase (?cl i)) \<and> (\<forall>b. \<not> holds mem_store (m_assetDatabase (?cl i)) b)" for i
    using empty_wf by (simp add: sample_state_def holds_def memory_view)
  then show ?thesis
    using assets_come_from_users [OF run sample_http_ok empty_wf] by blast
qed

end
