(* ===== verification/Server_Threads.thy ===== *)
theory Server_Threads
  imports Http_Properties
begin

text \<open>
  The asset server answers on several threads, which share the database. A handler makes one
  call on the store, reads one snapshot of it or writes one batch, except the two lookups by
  name: they read the key under the name, and then, from a later snapshot, what the key leads
  to. This theory interleaves the requests at that grain and shows that a lookup by name stays
  right when others store in between.
\<close>

section \<open>The two halves of a lookup by name\<close>

definition name_key :: "'db leveldb \<Rightarrow> string \<Rightarrow> string \<Rightarrow> 'db asset_database \<Rightarrow> fault + u64 option" where
  "name_key ldb prefix name d =
     rbind (db_ptr d) (\<lambda>db.
       let nameKey = of_chars (prefix @ name);
           it = seek ldb nameKey db
       in if \<not> iteratorMatch it nameKey then Inr None
          else rbind (it_value it) (\<lambda>v. rbind (read_u64 v) (\<lambda>key. Inr (Some key))))"

lemma findNamedAsset_halves:
  "findNamedAsset ldb F name d = rbind (name_key ldb kAssetNamePrefix name d)
     (\<lambda>k. case k of None \<Rightarrow> Inr EmptyRecord | Some key \<Rightarrow> findAsset ldb F key d)"
  by (cases "db_ptr d")
    (simp_all add: findNamedAsset_def name_key_def rbind_assoc Let_def)

lemma findNamedList_halves:
  "findNamedList ldb name d = rbind (name_key ldb kListNamePrefix name d)
     (\<lambda>k. case k of None \<Rightarrow> Inr EmptyRecord | Some key \<Rightarrow> loadList ldb key d)"
  by (cases "db_ptr d")
    (simp_all add: findNamedList_def name_key_def rbind_assoc Let_def)

text \<open>What the first half reads is the key that the name's entry holds.\<close>

lemma name_key_view:
  assumes "db_wf ldb F d" "name_key ldb prefix name d = Inr (Some key)"
    and "of_chars (prefix @ name) = key_bytes n" "n = AssetName name \<or> n = ListName name"
  shows "\<exists>v. view ldb d n = Some v \<and> key = le_word v"
proof -
  note o = db_wfD(1) [OF assms(1)]
  have ok: "leveldb_ok ldb" using o by (simp add: opened_def)
  let ?it = "seek ldb (key_bytes n) (the (m_database d))"
  have read: "name_key ldb prefix name d =
      (if \<not> iteratorMatch ?it (key_bytes n) then Inr None
       else rbind (it_value ?it) (\<lambda>v. rbind (read_u64 v) (\<lambda>key. Inr (Some key))))"
    by (simp only: name_key_def opened_ptr [OF o] assms(3) Let_def rbind.simps)
  then have "iteratorMatch ?it (key_bytes n)" using assms(2) by (auto split: if_splits)
  then obtain v where v: "view ldb d n = Some v"
    by (auto simp: seek_match_iff [OF ok] view_def db_view_def)
  moreover have "it_value ?it = Inr v"
    using seek_value(1) [OF ok] v by (simp add: view_def db_view_def)
  moreover have "length v = 8" using v assms(1,4) unfolding db_wf_def by blast
  ultimately show ?thesis
    using assms(2) unfolding read by (auto simp: read_u64_def split: if_splits)
qed

lemma asset_name_view:
  assumes "db_wf ldb F d" "name_key ldb kAssetNamePrefix name d = Inr (Some key)"
  shows "\<exists>v. view ldb d (AssetName name) = Some v \<and> key = le_word v"
  by (rule name_key_view [OF assms]) simp_all

lemma list_name_view:
  assumes "db_wf ldb F d" "name_key ldb kListNamePrefix name d = Inr (Some key)"
  shows "\<exists>v. view ldb d (ListName name) = Some v \<and> key = le_word v"
  by (rule name_key_view [OF assms]) simp_all

section \<open>A name is stored with its record\<close>

definition names_stored :: "'db leveldb \<Rightarrow> 'db asset_database \<Rightarrow> bool" where
  "names_stored ldb d \<longleftrightarrow>
     (\<forall>s v. view ldb d (AssetName s) = Some v \<longrightarrow> view ldb d (AssetKey (le_word v)) \<noteq> None) \<and>
     (\<forall>s v. view ldb d (ListName s) = Some v \<longrightarrow> view ldb d (ListKey (le_word v)) \<noteq> None)"

definition names_with_records :: "(db_key \<times> bytes) list \<Rightarrow> bool" where
  "names_with_records b \<longleftrightarrow>
     (\<forall>s v. (AssetName s, v) \<in> set b \<longrightarrow> AssetKey (le_word v) \<in> fst ` set b) \<and>
     (\<forall>s v. (ListName s, v) \<in> set b \<longrightarrow> ListKey (le_word v) \<in> fst ` set b)"

lemma update_view_points:
  assumes "update_view b m n = Some v" "(n, v) \<in> set b \<Longrightarrow> r \<in> fst ` set b" "m n = Some v \<Longrightarrow> m r \<noteq> None"
  shows "update_view b m r \<noteq> None"
  using update_view_cases [OF assms(1)] assms(2,3) update_view_adds [of r b m] update_view_keeps [of m r b] by blast

text \<open>A batch is written as a whole, so a name never becomes visible before its record.\<close>

lemma put_batch_names:
  assumes "opened ldb d" "names_stored ldb d" "names_with_records b"
    and "db_put_batch ldb (typed_batch b) d = Inr (ok, d')"
  shows "names_stored ldb d' \<and> (\<forall>k. view ldb d k \<noteq> None \<longrightarrow> view ldb d' k \<noteq> None)"
proof -
  have v: "view ldb d' = (if ok then update_view b (view ldb d) else view ldb d)"
    using put_batch_refines [OF assms(1), of b] assms(4) by auto
  show ?thesis
  proof (cases ok)
    case False
    with v assms(2) show ?thesis by (simp add: names_stored_def)
  next
    case True
    then have eq: "view ldb d' = update_view b (view ldb d)" using v by simp
    have "view ldb d' (AssetKey (le_word w)) \<noteq> None" if "view ldb d' (AssetName s) = Some w" for s w
      using that assms(2,3) unfolding eq names_stored_def names_with_records_def
      by (intro update_view_points [of b "view ldb d" "AssetName s" w]) auto
    moreover have "view ldb d' (ListKey (le_word w)) \<noteq> None" if "view ldb d' (ListName s) = Some w" for s w
      using that assms(2,3) unfolding eq names_stored_def names_with_records_def
      by (intro update_view_points [of b "view ldb d" "ListName s" w]) auto
    ultimately show ?thesis
      using update_view_keeps [of "view ldb d" _ b] unfolding names_stored_def eq by blast
  qed
qed
lemma named_batches:
  "names_with_records (asset_batch now key bs a ls)" "names_with_records (list_batch key bs l)"
  "names_with_records [(DataKey key c, bs)]"
  unfolding names_with_records_def asset_batch_def list_batch_def
  by (auto dest!: typed_name_set simp: le_word_le_bytes)

definition only_adds :: "'db leveldb \<Rightarrow> 'db asset_database \<Rightarrow> 'db asset_database \<Rightarrow> bool" where
  "only_adds ldb d d' \<longleftrightarrow> names_stored ldb d' \<and> (\<forall>k. view ldb d k \<noteq> None \<longrightarrow> view ldb d' k \<noteq> None)"

lemma only_adds_refl: "names_stored ldb d \<Longrightarrow> only_adds ldb d d"
  by (simp add: only_adds_def)

lemma store_only_adds:
  assumes "db_wf ldb F d" "names_stored ldb d"
  shows "storeAsset ldb F now key (SizedPointer bs) d = Inr (ok, d') \<Longrightarrow> only_adds ldb d d'"
    and "storeAssetDataChunk ldb key c (SizedPointer bs) d = Inr (ok, d') \<Longrightarrow> only_adds ldb d d'"
    and "storeList ldb F key (SizedPointer bs) d = Inr (ok, d') \<Longrightarrow> only_adds ldb d d'"
proof -
  note put = put_batch_names [OF db_wfD(1) [OF assms(1)] assms(2)]
  show "only_adds ldb d d'" if "storeAsset ldb F now key (SizedPointer bs) d = Inr (ok, d')"
    using storeAsset_batch [OF that] put [OF named_batches(1)] unfolding only_adds_def by blast
  show "only_adds ldb d d'" if "storeAssetDataChunk ldb key c (SizedPointer bs) d = Inr (ok, d')"
    unfolding only_adds_def
    by (rule put [OF named_batches(3) [of key c bs]]) (use that in \<open>simp add: storeAssetDataChunk_def\<close>)
  show "only_adds ldb d d'" if "storeList ldb F key (SizedPointer bs) d = Inr (ok, d')"
    unfolding only_adds_def
    by (rule put [OF named_batches(2) [of key bs "list_root F bs"]])
      (use that in \<open>auto simp: storeList_def GetFlatList_def list_batch_def name_entry_typed Let_def fault_simps
         split: if_splits\<close>)
qed

lemma serve_only_adds:
  assumes "db_wf ldb F d" "names_stored ldb d" "serve H ldb F now req d = Inr (r, d')"
  shows "only_adds ldb d d'"
proof -
  have "only_adds ldb d d'" if "run_handler H ldb F now h params body d = Inr (r, d')" for h params body
  proof -
    have "http_postAsset H ldb F now k body d = Inr (r, d') \<Longrightarrow> only_adds ldb d d'"
      "http_postAssetData H ldb F k n body d = Inr (r, d') \<Longrightarrow> only_adds ldb d d'"
      "http_postList H ldb F k body d = Inr (r, d') \<Longrightarrow> only_adds ldb d d'" for k n
      unfolding http_postAsset_def http_postAssetData_def http_postList_def Let_def
      using assms(1,2)
      by (auto simp: fault_simps split: option.splits if_splits dest!: status_response_db
          intro: only_adds_refl dest: store_only_adds)
    with that assms(2) show ?thesis
      by (cases h) (auto simp: run_handler_def intro: only_adds_refl dest: http_get_db)
  qed
  with assms(3) only_adds_refl [OF assms(2)] show ?thesis
    by (auto simp: serve_def split: option.splits)
qed

section \<open>The threads\<close>

text \<open>
  A thread waits for a request, or has read the key of the name it was asked for. \<open>hist\<close> holds
  the requests that were answered in one step, each with its time and its answer: every kind
  of request can be, the lookups by name when no other thread comes between their halves.
\<close>

datatype activity = Waiting | Key_of_asset "u64 \<times> http_request" u64 | Key_of_list "u64 \<times> http_request" u64

type_synonym history = "((u64 \<times> http_request) \<times> http_response) list"

definition routed :: "http_lib \<Rightarrow> http_request \<Rightarrow> handler \<Rightarrow> bool" where
  "routed H req h \<longleftrightarrow> (case find_route H (req_method req) (req_resource req) setupRoutes of
     None \<Rightarrow> False | Some (h', params) \<Rightarrow> h' = h)"

inductive server_run :: "http_lib \<Rightarrow> 'db leveldb \<Rightarrow> flat_lib \<Rightarrow> 'db asset_database \<Rightarrow> history \<Rightarrow>
    'db asset_database \<Rightarrow> (nat \<Rightarrow> activity) \<Rightarrow> bool"
  for H ldb F d0 where
  start: "server_run H ldb F d0 [] d0 (\<lambda>_. Waiting)"
| whole_request: "server_run H ldb F d0 hist d ts \<Longrightarrow> ts i = Waiting \<Longrightarrow> serve H ldb F now req d = Inr (r, d') \<Longrightarrow>
    server_run H ldb F d0 (hist @ [((now, req), r)]) d' ts"
| asset_name: "server_run H ldb F d0 hist d ts \<Longrightarrow> ts i = Waiting \<Longrightarrow> routed H req GetNamedAsset \<Longrightarrow>
    name_key ldb kAssetNamePrefix (to_chars (req_body req)) d = Inr (Some key) \<Longrightarrow>
    server_run H ldb F d0 hist d (ts(i := Key_of_asset (now, req) key))"
| asset_record: "server_run H ldb F d0 hist d ts \<Longrightarrow> ts i = Key_of_asset req key \<Longrightarrow> findAsset ldb F key d = Inr rec \<Longrightarrow>
    send_record H rec d = Inr (r, d') \<Longrightarrow> server_run H ldb F d0 hist d' (ts(i := Waiting))"
| list_name: "server_run H ldb F d0 hist d ts \<Longrightarrow> ts i = Waiting \<Longrightarrow> routed H req GetNamedList \<Longrightarrow>
    name_key ldb kListNamePrefix (to_chars (req_body req)) d = Inr (Some key) \<Longrightarrow>
    server_run H ldb F d0 hist d (ts(i := Key_of_list (now, req) key))"
| list_of_key: "server_run H ldb F d0 hist d ts \<Longrightarrow> ts i = Key_of_list req key \<Longrightarrow> loadList ldb key d = Inr rec \<Longrightarrow>
    send_record H rec d = Inr (r, d') \<Longrightarrow> server_run H ldb F d0 hist d' (ts(i := Waiting))"

text \<open>The same requests with the same answers, one after the other.\<close>

fun one_by_one :: "http_lib \<Rightarrow> 'db leveldb \<Rightarrow> flat_lib \<Rightarrow> history \<Rightarrow> 'db asset_database \<Rightarrow> 'db asset_database \<Rightarrow> bool" where
  "one_by_one H ldb F [] d d' \<longleftrightarrow> d = d'"
| "one_by_one H ldb F (((now, req), r) # hist) d d' \<longleftrightarrow>
     (case serve H ldb F now req d of Inl e \<Rightarrow> False | Inr (r1, d1) \<Rightarrow> r1 = r \<and> one_by_one H ldb F hist d1 d')"

lemma one_by_one_snoc:
  "one_by_one H ldb F hist d d1 \<Longrightarrow> serve H ldb F now req d1 = Inr (r, d') \<Longrightarrow>
   one_by_one H ldb F (hist @ [((now, req), r)]) d d'"
  by (induction hist arbitrary: d) (auto split: sum.splits prod.splits)

lemma serve_named:
  assumes "routed H req GetNamedAsset"
  shows "serve H ldb F now req d = http_getNamedAsset H ldb F (req_body req) d"
  using assms by (auto simp: routed_def serve_def run_handler_def split: option.splits)

lemma serve_named_list:
  assumes "routed H req GetNamedList"
  shows "serve H ldb F now req d = http_getNamedList H ldb (req_body req) d"
  using assms by (auto simp: routed_def serve_def run_handler_def split: option.splits)

text \<open>A database the server had at some point of the history.\<close>

definition at_some_time :: "http_lib \<Rightarrow> 'db leveldb \<Rightarrow> flat_lib \<Rightarrow> 'db asset_database \<Rightarrow> history \<Rightarrow>
    'db asset_database \<Rightarrow> ('db asset_database \<Rightarrow> bool) \<Rightarrow> bool" where
  "at_some_time H ldb F d0 hist d P \<longleftrightarrow> (\<exists>before since d1. hist = before @ since \<and>
     one_by_one H ldb F before d0 d1 \<and> one_by_one H ldb F since d1 d \<and> P d1)"

lemma at_present: "one_by_one H ldb F hist d0 d \<Longrightarrow> P d \<Longrightarrow> at_some_time H ldb F d0 hist d P"
  unfolding at_some_time_def by (rule exI [of _ hist], rule exI [of _ "[]"], rule exI [of _ d]) simp

lemma at_some_time_snoc:
  assumes "at_some_time H ldb F d0 hist d P" "serve H ldb F now req d = Inr (r, d')"
  shows "at_some_time H ldb F d0 (hist @ [((now, req), r)]) d' P"
proof -
  obtain before since d1 where h: "hist = before @ since" "one_by_one H ldb F before d0 d1" "one_by_one H ldb F since d1 d" "P d1"
    using assms(1) unfolding at_some_time_def by blast
  from one_by_one_snoc [OF h(3) assms(2)] h(1,2,4) show ?thesis
    unfolding at_some_time_def by (metis append.assoc)
qed

lemma at_some_time_mono:
  "at_some_time H ldb F d0 hist d P \<Longrightarrow> (\<And>d1. P d1 \<Longrightarrow> Q d1) \<Longrightarrow> at_some_time H ldb F d0 hist d Q"
  unfolding at_some_time_def by blast

section \<open>The invariant of the threads\<close>

definition pending :: "http_lib \<Rightarrow> 'db leveldb \<Rightarrow> flat_lib \<Rightarrow> 'db asset_database \<Rightarrow> history \<Rightarrow>
    'db asset_database \<Rightarrow> activity \<Rightarrow> bool" where
  "pending H ldb F d0 hist d act \<longleftrightarrow> (case act of
     Waiting \<Rightarrow> True
   | Key_of_asset (now, req) key \<Rightarrow> routed H req GetNamedAsset \<and> view ldb d (AssetKey key) \<noteq> None \<and>
       at_some_time H ldb F d0 hist d (\<lambda>d1. db_wf ldb F d1 \<and> names_stored ldb d1 \<and>
         name_key ldb kAssetNamePrefix (to_chars (req_body req)) d1 = Inr (Some key))
   | Key_of_list (now, req) key \<Rightarrow> routed H req GetNamedList \<and> view ldb d (ListKey key) \<noteq> None \<and>
       at_some_time H ldb F d0 hist d (\<lambda>d1. db_wf ldb F d1 \<and> names_stored ldb d1 \<and>
         name_key ldb kListNamePrefix (to_chars (req_body req)) d1 = Inr (Some key)))"

lemma pending_simps [simp]: "pending H ldb F d0 hist d Waiting"
  by (simp add: pending_def)

lemma pending_snoc:
  assumes "pending H ldb F d0 hist d act" "serve H ldb F now req d = Inr (r, d')" "only_adds ldb d d'"
  shows "pending H ldb F d0 (hist @ [((now, req), r)]) d' act"
  using assms(1,3) at_some_time_snoc [OF _ assms(2)]
  by (auto simp: pending_def only_adds_def split: activity.splits prod.splits)

lemma named_record_stored:
  assumes "db_wf ldb F d" "names_stored ldb d"
  shows "name_key ldb kAssetNamePrefix name d = Inr (Some key) \<Longrightarrow> view ldb d (AssetKey key) \<noteq> None"
    and "name_key ldb kListNamePrefix name d = Inr (Some key) \<Longrightarrow> view ldb d (ListKey key) \<noteq> None"
  using asset_name_view [OF assms(1)] list_name_view [OF assms(1)] assms(2) unfolding names_stored_def by blast+

definition threads_ok :: "http_lib \<Rightarrow> 'db leveldb \<Rightarrow> flat_lib \<Rightarrow> 'db asset_database \<Rightarrow> history \<Rightarrow>
    'db asset_database \<Rightarrow> (nat \<Rightarrow> activity) \<Rightarrow> bool" where
  "threads_ok H ldb F d0 hist d ts \<longleftrightarrow> one_by_one H ldb F hist d0 d \<and> db_wf ldb F d \<and> names_stored ldb d \<and>
     (\<forall>i. pending H ldb F d0 hist d (ts i))"

lemma server_run_ok:
  "server_run H ldb F d0 hist d ts \<Longrightarrow> db_wf ldb F d0 \<Longrightarrow> names_stored ldb d0 \<Longrightarrow> threads_ok H ldb F d0 hist d ts"
proof (induction rule: server_run.induct)
  case start
  then show ?case by (simp add: threads_ok_def)
next
  case (whole_request hist d ts i now req r d')
  then have ok: "threads_ok H ldb F d0 hist d ts" by blast
  then have adds: "only_adds ldb d d'"
    using serve_only_adds whole_request.hyps(3) by (auto simp: threads_ok_def)
  then have "names_stored ldb d'" by (simp add: only_adds_def)
  moreover have "db_wf ldb F d'" using ok serve_db_wf [OF _ whole_request.hyps(3)] by (simp add: threads_ok_def)
  moreover have "one_by_one H ldb F (hist @ [((now, req), r)]) d0 d'"
    using ok one_by_one_snoc [OF _ whole_request.hyps(3)] by (simp add: threads_ok_def)
  ultimately show ?case
    using ok pending_snoc [OF _ whole_request.hyps(3) adds] by (simp add: threads_ok_def)
next
  case (asset_name hist d ts i req key now)
  then have ok: "threads_ok H ldb F d0 hist d ts" by blast
  then have "pending H ldb F d0 hist d (Key_of_asset (now, req) key)"
    using asset_name.hyps named_record_stored(1) at_present
    unfolding pending_def threads_ok_def by fastforce
  with ok show ?case by (simp add: threads_ok_def)
next
  case (list_name hist d ts i req key now)
  then have ok: "threads_ok H ldb F d0 hist d ts" by blast
  then have "pending H ldb F d0 hist d (Key_of_list (now, req) key)"
    using list_name.hyps named_record_stored(2) at_present
    unfolding pending_def threads_ok_def by fastforce
  with ok show ?case by (simp add: threads_ok_def)
next
  case (asset_record hist d ts i req key rec r d')
  with send_record_db [OF asset_record.hyps(4)] show ?case by (simp add: threads_ok_def)
next
  case (list_of_key hist d ts i req key rec r d')
  with send_record_db [OF list_of_key.hyps(4)] show ?case by (simp add: threads_ok_def)
qed

section \<open>Answers in two halves\<close>

text \<open>
  What was stored under a key is still there. Keys are hashes of what they name, so clients
  that follow the protocol store nothing else under a key again.
\<close>

definition records_kept :: "'db leveldb \<Rightarrow> 'db asset_database \<Rightarrow> 'db asset_database \<Rightarrow> bool" where
  "records_kept ldb d d' \<longleftrightarrow>
     (\<forall>k v. view ldb d (AssetKey k) = Some v \<longrightarrow> view ldb d' (AssetKey k) = Some v) \<and>
     (\<forall>k v. view ldb d (ListKey k) = Some v \<longrightarrow> view ldb d' (ListKey k) = Some v)"

lemma resolves_kept:
  assumes "resolves ldb F d k r" "records_kept ldb d d'" "r \<noteq> None"
  shows "resolves ldb F d' k r"
proof -
  have at: "asset_at ldb F d' j = Some a" if "asset_at ldb F d j = Some a" for j a
    using that assms(2) by (auto simp: asset_at_def records_kept_def)
  show ?thesis
    using assms(1,3) by (induction rule: resolves.induct) (auto intro: resolves.intros dest: at)
qed

lemma send_same:
  assumes "send_record H rec' d' = Inr (r, x)"
    and "\<not> record_empty rec'" "record_data rec' = Inr (SizedPointer bs)"
    and "\<not> record_empty rec" "record_data rec = Inr (SizedPointer bs)"
  shows "send_record H rec d = Inr (r, d)"
  using assms by (auto simp: send_record_def respond_def fault_simps)

lemma late_asset:
  assumes "db_wf ldb F d1" "db_wf ldb F d" "records_kept ldb d1 d" "resolves ldb F d1 key (Some e)"
    and "findAsset ldb F key d = Inr rec" "send_record H rec d = Inr (r, d')"
  shows "\<exists>rec1. findAsset ldb F key d1 = Inr rec1 \<and> send_record H rec1 d1 = Inr (r, d1)"
proof -
  obtain rec1 bs where one: "findAsset ldb F key d1 = Inr rec1" "\<not> record_empty rec1"
      "view ldb d1 (AssetKey e) = Some bs" "record_data rec1 = Inr (SizedPointer bs)"
    using findAsset_outcome(1) [OF db_wfD(1,3) [OF assms(1)] assms(4)] by (auto simp: found_def)
  have "resolves ldb F d key (Some e)" using resolves_kept [OF assms(4,3)] by simp
  moreover have "view ldb d (AssetKey e) = Some bs" using assms(3) one(3) by (simp add: records_kept_def)
  ultimately have rec: "\<not> record_empty rec \<and> record_data rec = Inr (SizedPointer bs)"
    using findAsset_outcome(1) [OF db_wfD(1,3) [OF assms(2)], of key "Some e"] assms(5) by (auto simp: found_def)
  show ?thesis
    by (rule exI [of _ rec1]) (simp add: one(1) send_same [OF assms(6) conjunct1 [OF rec] conjunct2 [OF rec] one(2,4)])
qed

lemma late_list:
  assumes "db_wf ldb F d1" "db_wf ldb F d" "records_kept ldb d1 d" "view ldb d1 (ListKey key) \<noteq> None"
    and "loadList ldb key d = Inr rec" "send_record H rec d = Inr (r, d')"
  shows "\<exists>rec1. loadList ldb key d1 = Inr rec1 \<and> send_record H rec1 d1 = Inr (r, d1)"
proof -
  obtain bs where bs: "view ldb d1 (ListKey key) = Some bs" "view ldb d (ListKey key) = Some bs"
    using assms(3,4) by (auto simp: records_kept_def)
  have load: "\<exists>rec. loadList ldb key x = Inr rec \<and> \<not> record_empty rec \<and> record_data rec = Inr (SizedPointer bs)"
    if "view ldb x (ListKey key) = Some bs" "opened ldb x" for x
  proof -
    have "leveldb_ok ldb" "map_of (ldb_entries ldb (the (m_database x))) (makeListKey key) = Some bs"
      using that by (simp_all add: opened_def view_def db_view_def)
    from seek_hit [OF this] show ?thesis
      by (auto simp: loadList_def opened_ptr [OF that(2)] Let_def)
  qed
  obtain rec1 where one: "loadList ldb key d1 = Inr rec1" "\<not> record_empty rec1" "record_data rec1 = Inr (SizedPointer bs)"
    using load [OF bs(1) db_wfD(1) [OF assms(1)]] by blast
  have rec: "\<not> record_empty rec" "record_data rec = Inr (SizedPointer bs)"
    using load [OF bs(2) db_wfD(1) [OF assms(2)]] assms(5) by simp_all
  show ?thesis by (rule exI [of _ rec1]) (simp add: one(1) send_same [OF assms(6) rec one(2,3)])
qed

text \<open>No request of a history changes a record that was stored before it.\<close>

fun keeps_records :: "http_lib \<Rightarrow> 'db leveldb \<Rightarrow> flat_lib \<Rightarrow> history \<Rightarrow> 'db asset_database \<Rightarrow> bool" where
  "keeps_records H ldb F [] d \<longleftrightarrow> True"
| "keeps_records H ldb F (((now, req), r) # hist) d \<longleftrightarrow>
     (case serve H ldb F now req d of
        Inl e \<Rightarrow> True
      | Inr (r1, d1) \<Rightarrow> records_kept ldb d d1 \<and> keeps_records H ldb F hist d1)"

lemma records_kept_refl: "records_kept ldb d d"
  by (simp add: records_kept_def)

lemma records_kept_trans: "records_kept ldb a b \<Longrightarrow> records_kept ldb b c \<Longrightarrow> records_kept ldb a c"
  by (simp add: records_kept_def)

lemma keeps_records_kept: "keeps_records H ldb F hist d \<Longrightarrow> one_by_one H ldb F hist d d' \<Longrightarrow> records_kept ldb d d'"
  by (induction hist arbitrary: d)
    (auto split: sum.splits prod.splits intro: records_kept_refl, blast intro: records_kept_trans)

lemma keeps_records_since:
  "keeps_records H ldb F (before @ since) d \<Longrightarrow> one_by_one H ldb F before d d1 \<Longrightarrow> keeps_records H ldb F since d1"
  by (induction before arbitrary: d) (auto split: sum.splits prod.splits)

lemma at_some_time_kept:
  assumes "at_some_time H ldb F d0 hist d P" "keeps_records H ldb F hist d0"
    and "\<And>d1. P d1 \<Longrightarrow> records_kept ldb d1 d \<Longrightarrow> Q d1"
  shows "at_some_time H ldb F d0 hist d Q"
proof -
  obtain before since d1 where h: "hist = before @ since" "one_by_one H ldb F before d0 d1" "one_by_one H ldb F since d1 d" "P d1"
    using assms(1) unfolding at_some_time_def by blast
  have "records_kept ldb d1 d"
    using keeps_records_kept [OF keeps_records_since [OF assms(2) [unfolded h(1)] h(2)] h(3)] .
  with assms(3) h show ?thesis unfolding at_some_time_def by blast
qed

text \<open>The answer a thread is about to give to a lookup, and that the lookup would have got at once.\<close>

definition answers_as_before :: "http_lib \<Rightarrow> 'db leveldb \<Rightarrow> flat_lib \<Rightarrow> u64 \<times> http_request \<Rightarrow>
    (fault + record_ptr) \<Rightarrow> 'db asset_database \<Rightarrow> 'db asset_database \<Rightarrow> bool" where
  "answers_as_before H ldb F req late d d1 \<longleftrightarrow>
     (\<forall>r. rbind late (\<lambda>rec. send_record H rec d) = Inr (r, d) \<longrightarrow> serve H ldb F (fst req) (snd req) d1 = Inr (r, d1))"

lemma late_asset_answer:
  assumes "routed H req GetNamedAsset" "name_key ldb kAssetNamePrefix (to_chars (req_body req)) d1 = Inr (Some key)"
    and "db_wf ldb F d1" "db_wf ldb F d" "records_kept ldb d1 d" "resolves ldb F d1 key (Some e)"
  shows "answers_as_before H ldb F (now, req) (findAsset ldb F key d) d d1"
  unfolding answers_as_before_def
proof (intro allI impI)
  fix r
  assume "rbind (findAsset ldb F key d) (\<lambda>rec. send_record H rec d) = Inr (r, d)"
  then obtain rec where "findAsset ldb F key d = Inr rec" "send_record H rec d = Inr (r, d)"
    by (auto simp: fault_simps)
  from late_asset [OF assms(3-6) this] show "serve H ldb F (fst (now, req)) (snd (now, req)) d1 = Inr (r, d1)"
    by (auto simp: serve_named [OF assms(1)] http_getNamedAsset_def findNamedAsset_halves assms(2) Let_def)
qed

lemma late_list_answer:
  assumes "routed H req GetNamedList" "name_key ldb kListNamePrefix (to_chars (req_body req)) d1 = Inr (Some key)"
    and "db_wf ldb F d1" "db_wf ldb F d" "records_kept ldb d1 d" "names_stored ldb d1"
  shows "answers_as_before H ldb F (now, req) (loadList ldb key d) d d1"
  unfolding answers_as_before_def
proof (intro allI impI)
  fix r
  assume "rbind (loadList ldb key d) (\<lambda>rec. send_record H rec d) = Inr (r, d)"
  then obtain rec where "loadList ldb key d = Inr rec" "send_record H rec d = Inr (r, d)"
    by (auto simp: fault_simps)
  from late_list [OF assms(3-5) named_record_stored(2) [OF assms(3,6,2)] this] show "serve H ldb F (fst (now, req)) (snd (now, req)) d1 = Inr (r, d1)"
    by (auto simp: serve_named_list [OF assms(1)] http_getNamedList_def findNamedList_halves assms(2) Let_def)
qed

text \<open>
  C4: However the threads of the server interleave, the database is the one that the answered
  requests, served one after the other, leave behind. A thread that has read the key of a name
  never finds the record gone, whatever was stored since, even another asset under that name.
  When no record was overwritten, its answer is the one the whole lookup had at the moment
  the name was read, for an asset that then had an end to its chain of deprecations.
\<close>

theorem interleaved_lookups:
  assumes "server_run H ldb F d0 hist d ts" "db_wf ldb F d0" "names_stored ldb d0"
  shows "one_by_one H ldb F hist d0 d \<and> db_wf ldb F d \<and> names_stored ldb d \<and>
    (\<forall>i req key. ts i = Key_of_asset req key \<longrightarrow> view ldb d (AssetKey key) \<noteq> None \<and>
      (keeps_records H ldb F hist d0 \<longrightarrow> at_some_time H ldb F d0 hist d (\<lambda>d1.
        name_key ldb kAssetNamePrefix (to_chars (req_body (snd req))) d1 = Inr (Some key) \<and>
        (\<forall>e. resolves ldb F d1 key (Some e) \<longrightarrow> answers_as_before H ldb F req (findAsset ldb F key d) d d1)))) \<and>
    (\<forall>i req key. ts i = Key_of_list req key \<longrightarrow> view ldb d (ListKey key) \<noteq> None \<and>
      (keeps_records H ldb F hist d0 \<longrightarrow> at_some_time H ldb F d0 hist d (\<lambda>d1.
        name_key ldb kListNamePrefix (to_chars (req_body (snd req))) d1 = Inr (Some key) \<and>
        answers_as_before H ldb F req (loadList ldb key d) d d1)))"
proof -
  note ok = server_run_ok [OF assms, unfolded threads_ok_def]
  have wf: "db_wf ldb F d" using ok by blast
  have asset: "view ldb d (AssetKey key) \<noteq> None \<and>
      (keeps_records H ldb F hist d0 \<longrightarrow> at_some_time H ldb F d0 hist d (\<lambda>d1.
        name_key ldb kAssetNamePrefix (to_chars (req_body (snd req))) d1 = Inr (Some key) \<and>
        (\<forall>e. resolves ldb F d1 key (Some e) \<longrightarrow> answers_as_before H ldb F req (findAsset ldb F key d) d d1)))"
    if "ts i = Key_of_asset req key" for i req key
  proof -
    obtain now r0 where req: "req = (now, r0)" by (cases req)
    have p: "pending H ldb F d0 hist d (Key_of_asset (now, r0) key)" using ok that req by metis
    then have routed: "routed H r0 GetNamedAsset" by (simp add: pending_def)
    show ?thesis
      using p late_asset_answer [OF routed _ _ wf, where key = key and now = now]
      by (auto simp: pending_def req elim!: at_some_time_kept)
  qed
  have list: "view ldb d (ListKey key) \<noteq> None \<and>
      (keeps_records H ldb F hist d0 \<longrightarrow> at_some_time H ldb F d0 hist d (\<lambda>d1.
        name_key ldb kListNamePrefix (to_chars (req_body (snd req))) d1 = Inr (Some key) \<and>
        answers_as_before H ldb F req (loadList ldb key d) d d1))"
    if "ts i = Key_of_list req key" for i req key
  proof -
    obtain now r0 where req: "req = (now, r0)" by (cases req)
    have p: "pending H ldb F d0 hist d (Key_of_list (now, r0) key)" using ok that req by metis
    then have routed: "routed H r0 GetNamedList" by (simp add: pending_def)
    show ?thesis
      using p late_list_answer [OF routed _ _ wf, where key = key and now = now]
      by (auto simp: pending_def req elim!: at_some_time_kept)
  qed
  show ?thesis using ok asset list by blast
qed

section \<open>A witness\<close>

text \<open>
  An asset named tune is posted; a thread reads its key; then another asset of that name is
  posted, before the thread goes on.
\<close>

definition post_sample :: "u64 \<Rightarrow> http_request" where
  "post_sample k = \<lparr>req_method = Post, req_resource = ''/asset/id/'' @ keyToString k,
     req_body = b64_encode sample_http (plain_asset (sample_asset k 0))\<rparr>"

definition tune_request :: http_request where
  "tune_request = \<lparr>req_method = Get, req_resource = ''/asset/name'', req_body = of_chars ''tune''\<rparr>"

definition sample_put :: "u64 \<Rightarrow> u64 \<Rightarrow> mem" where
  "sample_put now k = rev (typed_batch (asset_batch now k (plain_asset (sample_asset k 0)) (sample_asset k 0) [5]))"

lemma sample_put_view:
  "view mem_store (memory_db (sample_put now k @ m)) =
     update_view (asset_batch now k (plain_asset (sample_asset k 0)) (sample_asset k 0) [5]) (view mem_store (memory_db m))"
  using put_batch_refines [OF memory_opened [of m], of "asset_batch now k (plain_asset (sample_asset k 0)) (sample_asset k 0) [5]"]
  by (auto simp: sample_put_def split: if_splits)

lemma post_sample_served:
  "serve sample_http mem_store plain_flat now (post_sample k) (memory_db m) =
     Inr (\<lparr>resp_code = Ok, resp_body = []\<rparr>, memory_db (sample_put now k @ m))"
proof -
  have "decode_page sample_http (b64_encode sample_http (plain_asset (sample_asset k 0))) = Inr (plain_asset (sample_asset k 0))"
    using page_roundtrip(3) [OF sample_http_ok plain_sample_length] by simp
  moreover have "storeAsset mem_store plain_flat now k (SizedPointer (plain_asset (sample_asset k 0))) (memory_db m) =
      Inr (True, memory_db (sample_put now k @ m))"
    by (simp add: storeAsset_def GetFlatAsset_def name_entry_typed list_entries_eq asset_batch_def
        kAssetMaxListEntries_def sample_put_def Let_def)
  ultimately show ?thesis
    by (simp only: post_sample_def serve_routes [OF sample_http_ok] http_postAsset_def key_text.dec_enc Let_def)
      (simp add: status_response_def respond_def)
qed

lemma name_key_entry:
  assumes "opened ldb d" "view ldb d (AssetName name) = Some (le_bytes key)"
  shows "name_key ldb kAssetNamePrefix name d = Inr (Some key)"
proof -
  have "leveldb_ok ldb" "map_of (ldb_entries ldb (the (m_database d))) (of_chars (kAssetNamePrefix @ name)) = Some (le_bytes key)"
    using assms by (simp_all add: opened_def view_def db_view_def)
  from seek_value [OF this] show ?thesis
    by (simp add: name_key_def opened_ptr [OF assms(1)] Let_def)
qed

lemma tune_views:
  "view mem_store (memory_db (sample_put now k @ m)) (AssetName ''tune'') = Some (le_bytes k)"
  "view mem_store (memory_db (sample_put now k @ m)) (AssetKey j) =
     (if j = k then Some (plain_asset (sample_asset k 0)) else view mem_store (memory_db m) (AssetKey j))"
  "view mem_store (memory_db (sample_put now k @ m)) (ListKey j) = view mem_store (memory_db m) (ListKey j)"
  by (simp_all add: sample_put_view asset_batch_def typed_name_def)

lemma renaming_run:
  "server_run sample_http mem_store plain_flat (memory_db [])
     [((1, post_sample 7), \<lparr>resp_code = Ok, resp_body = []\<rparr>), ((2, post_sample 8), \<lparr>resp_code = Ok, resp_body = []\<rparr>)]
     (memory_db (sample_put 2 8 @ sample_put 1 7)) ((\<lambda>_. Waiting)(0 := Key_of_asset (3, tune_request) 7))"
proof -
  let ?run = "server_run sample_http mem_store plain_flat (memory_db [])"
  have "?run [((1, post_sample 7), \<lparr>resp_code = Ok, resp_body = []\<rparr>)] (memory_db (sample_put 1 7)) (\<lambda>_. Waiting)"
    using server_run.whole_request [OF server_run.start refl post_sample_served [of 1 7 "[]"]] by simp
  moreover have "routed sample_http tune_request GetNamedAsset"
    using sample_http_ok by (simp add: routed_def tune_request_def http_ok_def route_simps)
  moreover have "name_key mem_store kAssetNamePrefix (to_chars (req_body tune_request)) (memory_db (sample_put 1 7)) = Inr (Some 7)"
    using name_key_entry [OF memory_opened tune_views(1) [of 1 7 "[]"]]
    by (simp only: tune_request_def http_request.select_convs to_chars_of_chars append_Nil2)
  ultimately have "?run [((1, post_sample 7), \<lparr>resp_code = Ok, resp_body = []\<rparr>)] (memory_db (sample_put 1 7))
      ((\<lambda>_. Waiting)(0 := Key_of_asset (3, tune_request) 7))"
    using server_run.asset_name [where now = 3 and i = 0] by fastforce
  from server_run.whole_request [OF this _ post_sample_served, of 1 2 8] show ?thesis by simp
qed

lemma interleaved_lookups_witness:
  "\<exists>hist d ts. server_run sample_http mem_store plain_flat (memory_db []) hist d ts \<and> ts 0 = Key_of_asset (3, tune_request) 7 \<and>
     view mem_store d (AssetName ''tune'') = Some (le_bytes 8) \<and> view mem_store d (AssetKey 7) \<noteq> None \<and> names_stored mem_store d \<and>
     keeps_records sample_http mem_store plain_flat hist (memory_db [])"
proof -
  have empty: "view mem_store (memory_db []) k = None" for k by (simp add: memory_view)
  then have "names_stored mem_store (memory_db [])" by (simp add: names_stored_def)
  note safe = interleaved_lookups [OF renaming_run empty_wf this]
  let ?hist = "[((1, post_sample 7), \<lparr>resp_code = Ok, resp_body = []\<rparr>), ((2, post_sample 8), \<lparr>resp_code = Ok, resp_body = []\<rparr>)]"
  have "keeps_records sample_http mem_store plain_flat ?hist (memory_db [])"
    using post_sample_served [of 1 7 "[]"] tune_views(2,3) [of 1 7 "[]"] tune_views(2,3) [of 2 8 "sample_put 1 7"]
    by (simp add: post_sample_served records_kept_def empty)
  moreover have "view mem_store (memory_db (sample_put 2 8 @ sample_put 1 7)) (AssetKey 7) \<noteq> None"
    using safe [THEN conjunct2, THEN conjunct2, THEN conjunct2, THEN conjunct1, THEN spec, THEN spec, THEN spec, THEN mp,
        of 0 "(3, tune_request)" 7, THEN conjunct1] by simp
  moreover have "names_stored mem_store (memory_db (sample_put 2 8 @ sample_put 1 7))"
    using safe [THEN conjunct2, THEN conjunct2, THEN conjunct1] .
  ultimately show ?thesis
    by (intro exI [of _ ?hist] exI [of _ "memory_db (sample_put 2 8 @ sample_put 1 7)"]
        exI [of _ "(\<lambda>_. Waiting)(0 := Key_of_asset (3, tune_request) 7)"] conjI renaming_run tune_views(1)) simp_all
qed

end
