(* ===== verification/Shared_Server.thy ===== *)
theory Shared_Server
  imports Server_Threads
begin

text \<open>
  The asset server as a client meets it when it is not alone. Before each of its requests, and
  between the halves of its lookups by name, the server may have answered any requests of
  others. A transfer of a file takes many requests; it comes through when no other client
  stores under the file's key.
\<close>

section \<open>A server with other clients\<close>

text \<open>
  The requests of others, each with its time, in the batches that are served before the next
  request of the client, before the one after it, and so on. A request that brings the server
  down leaves the database it found, as a restart would.
\<close>

record 'db shared_server =
  sh_db :: "'db asset_database"
  sh_others :: "(u64 \<times> http_request) list list"

fun others_served :: "http_lib \<Rightarrow> 'db leveldb \<Rightarrow> flat_lib \<Rightarrow> (u64 \<times> http_request) list \<Rightarrow>
    'db asset_database \<Rightarrow> 'db asset_database" where
  "others_served H ldb F [] d = d"
| "others_served H ldb F ((now, req) # reqs) d =
     others_served H ldb F reqs (case serve H ldb F now req d of Inl e \<Rightarrow> d | Inr (r, d') \<Rightarrow> d')"

definition others_turn :: "http_lib \<Rightarrow> 'db leveldb \<Rightarrow> flat_lib \<Rightarrow> 'db shared_server \<Rightarrow> 'db shared_server" where
  "others_turn H ldb F w =
     (case sh_others w of
        [] \<Rightarrow> w
      | batch # batches \<Rightarrow> \<lparr>sh_db = others_served H ldb F batch (sh_db w), sh_others = batches\<rparr>)"

text \<open>The second half of a lookup by name, with the requests of others before it.\<close>

definition named_record :: "http_lib \<Rightarrow> ('db asset_database \<Rightarrow> fault + record_ptr) \<Rightarrow> 'db shared_server \<Rightarrow>
    fault + http_response \<times> 'db shared_server" where
  "named_record H look w =
     rbind (look (sh_db w)) (\<lambda>rec. rbind (send_record H rec (sh_db w)) (\<lambda>(r, d). Inr (r, w\<lparr>sh_db := d\<rparr>)))"

definition serve_shared :: "http_lib \<Rightarrow> 'db leveldb \<Rightarrow> flat_lib \<Rightarrow> u64 \<Rightarrow> http_request \<Rightarrow> 'db shared_server \<Rightarrow>
    fault + http_response \<times> 'db shared_server" where
  "serve_shared H ldb F now req w =
     (let name = to_chars (req_body req)
      in if routed H req GetNamedAsset then
           rbind (name_key ldb kAssetNamePrefix name (sh_db w)) (\<lambda>k. case k of
             None \<Rightarrow> named_record H (\<lambda>d. Inr EmptyRecord) w
           | Some key \<Rightarrow> named_record H (findAsset ldb F key) (others_turn H ldb F w))
         else if routed H req GetNamedList then
           rbind (name_key ldb kListNamePrefix name (sh_db w)) (\<lambda>k. case k of
             None \<Rightarrow> named_record H (\<lambda>d. Inr EmptyRecord) w
           | Some key \<Rightarrow> named_record H (loadList ldb key) (others_turn H ldb F w))
         else rbind (serve H ldb F now req (sh_db w)) (\<lambda>(r, d). Inr (r, w\<lparr>sh_db := d\<rparr>)))"

definition shared_net :: "http_lib \<Rightarrow> 'db leveldb \<Rightarrow> flat_lib \<Rightarrow> u64 \<Rightarrow> string \<Rightarrow> 'db shared_server network" where
  "shared_net H ldb F now addr req w0 =
     (let w = others_turn H ldb F w0
      in if take (length addr) (req_resource req) = addr then
           (case serve_shared H ldb F now (req\<lparr>req_resource := drop (length addr) (req_resource req)\<rparr>) w of
              Inl e \<Rightarrow> (None, w)
            | Inr (r, w') \<Rightarrow> (Some r, w'))
         else (None, w))"

text \<open>Alone, a client meets the server of \<open>server_net\<close>.\<close>

lemma alone_turn [simp]: "others_turn H ldb F \<lparr>sh_db = d, sh_others = []\<rparr> = \<lparr>sh_db = d, sh_others = []\<rparr>"
  by (simp add: others_turn_def)

lemma alone_serve:
  "serve_shared H ldb F now req \<lparr>sh_db = d, sh_others = []\<rparr> =
     rbind (serve H ldb F now req d) (\<lambda>(r, d'). Inr (r, \<lparr>sh_db = d', sh_others = []\<rparr>))"
proof -
  consider "routed H req GetNamedAsset" | "\<not> routed H req GetNamedAsset" "routed H req GetNamedList"
    | "\<not> routed H req GetNamedAsset" "\<not> routed H req GetNamedList" by blast
  then show ?thesis
  proof cases
    case 1
    then show ?thesis
      by (simp add: serve_shared_def named_record_def serve_named [OF 1] http_getNamedAsset_def findNamedAsset_halves
          rbind_assoc Let_def)
        (rule arg_cong [where f = "rbind _"], auto simp: fun_eq_iff split: option.split)
  next
    case 2
    then show ?thesis
      by (simp add: serve_shared_def named_record_def serve_named_list [OF 2(2)] http_getNamedList_def findNamedList_halves
          rbind_assoc Let_def)
        (rule arg_cong [where f = "rbind _"], auto simp: fun_eq_iff split: option.split)
  next
    case 3
    then show ?thesis by (simp add: serve_shared_def)
  qed
qed

lemma alone_net:
  "shared_net H ldb F now addr req \<lparr>sh_db = d, sh_others = []\<rparr> =
     (let (r, d') = server_net H ldb F now addr req d in (r, \<lparr>sh_db = d', sh_others = []\<rparr>))"
  by (auto simp: shared_net_def server_net_def alone_serve split: sum.splits)

section \<open>Where a request stores\<close>

text \<open>The key under which a request stores an asset or a chunk of one.\<close>

definition stores_under :: "http_lib \<Rightarrow> http_request \<Rightarrow> u64 option" where
  "stores_under H req =
     (case find_route H (req_method req) (req_resource req) setupRoutes of
        None \<Rightarrow> None
      | Some (h, params) \<Rightarrow>
          if h = PostAsset \<or> h = PostAssetData then Some (stringToKey (param '':key'' params)) else None)"

definition spared :: "http_lib \<Rightarrow> u64 \<Rightarrow> (u64 \<times> http_request) list list \<Rightarrow> bool" where
  "spared H key batches \<longleftrightarrow> (\<forall>batch \<in> set batches. \<forall>(now, req) \<in> set batch. stores_under H req \<noteq> Some key)"

definition same_file :: "'db leveldb \<Rightarrow> u64 \<Rightarrow> 'db asset_database \<Rightarrow> 'db asset_database \<Rightarrow> bool" where
  "same_file ldb key d d' \<longleftrightarrow>
     view ldb d' (AssetKey key) = view ldb d (AssetKey key) \<and> (\<forall>n. view ldb d' (DataKey key n) = view ldb d (DataKey key n))"

lemma same_file_refl: "same_file ldb key d d"
  by (simp add: same_file_def)

lemma same_file_trans: "same_file ldb key a b \<Longrightarrow> same_file ldb key b c \<Longrightarrow> same_file ldb key a c"
  by (simp add: same_file_def)

lemma put_batch_same_file:
  assumes "opened ldb d" "db_put_batch ldb (typed_batch b) d = Inr (ok, d')"
    and "AssetKey key \<notin> fst ` set b" "\<And>n. DataKey key n \<notin> fst ` set b"
  shows "same_file ldb key d d'"
proof -
  have "view ldb d' = (if ok then update_view b (view ldb d) else view ldb d)"
    using put_batch_refines [OF assms(1), of b] assms(2) by auto
  then show ?thesis using assms(3,4) by (simp add: same_file_def update_view_other)
qed

lemma store_same_file:
  assumes "opened ldb d"
  shows "storeAsset ldb F now k (SizedPointer bs) d = Inr (ok, d') \<Longrightarrow> k \<noteq> key \<Longrightarrow> same_file ldb key d d'"
    and "storeAssetDataChunk ldb k c (SizedPointer bs) d = Inr (ok, d') \<Longrightarrow> k \<noteq> key \<Longrightarrow> same_file ldb key d d'"
    and "storeList ldb F k (SizedPointer bs) d = Inr (ok, d') \<Longrightarrow> same_file ldb key d d'"
proof -
  note put = put_batch_same_file [OF assms]
  show "same_file ldb key d d'" if st: "storeAsset ldb F now k (SizedPointer bs) d = Inr (ok, d')" and ne: "k \<noteq> key"
  proof -
    obtain ls where "db_put_batch ldb (typed_batch (asset_batch now k bs (asset_root F bs) ls)) d = Inr (ok, d')"
      using storeAsset_batch [OF st] by blast
    then show ?thesis
      by (rule put) (use ne in \<open>auto simp: asset_batch_def dest!: typed_name_set\<close>)
  qed
  show "same_file ldb key d d'" if st: "storeAssetDataChunk ldb k c (SizedPointer bs) d = Inr (ok, d')" and ne: "k \<noteq> key"
    by (rule put [of "[(DataKey k c, bs)]"]) (use st ne in \<open>simp_all add: storeAssetDataChunk_def\<close>)
  show "same_file ldb key d d'" if st: "storeList ldb F k (SizedPointer bs) d = Inr (ok, d')"
    by (rule put [of "list_batch k bs (list_root F bs)"])
      (use st in \<open>auto simp: storeList_def GetFlatList_def list_batch_def name_entry_typed Let_def fault_simps
         dest!: typed_name_set split: if_splits\<close>)
qed

lemma serve_same_file:
  assumes "opened ldb d" "stores_under H req \<noteq> Some key" "serve H ldb F now req d = Inr (r, d')"
  shows "same_file ldb key d d'"
proof -
  have run: "same_file ldb key d d'"
    if "run_handler H ldb F now h params body d = Inr (r, d')"
      and "h = PostAsset \<or> h = PostAssetData \<Longrightarrow> stringToKey (param '':key'' params) \<noteq> key" for h params body
  proof -
    have "http_postAsset H ldb F now k body d = Inr (r, d') \<Longrightarrow> stringToKey k \<noteq> key \<Longrightarrow> same_file ldb key d d'"
      "http_postAssetData H ldb F k n body d = Inr (r, d') \<Longrightarrow> stringToKey k \<noteq> key \<Longrightarrow> same_file ldb key d d'"
      "http_postList H ldb F k body d = Inr (r, d') \<Longrightarrow> same_file ldb key d d'" for k n
      unfolding http_postAsset_def http_postAssetData_def http_postList_def Let_def
      using assms(1)
      by (auto simp: fault_simps split: option.splits if_splits dest!: status_response_db
          intro: same_file_refl dest: store_same_file)
    with that show ?thesis
      by (cases h) (auto simp: run_handler_def intro: same_file_refl dest: http_get_db)
  qed
  show ?thesis
  proof (cases "find_route H (req_method req) (req_resource req) setupRoutes")
    case None
    with assms(3) show ?thesis by (simp add: serve_def same_file_refl)
  next
    case (Some hp)
    then obtain h params where hp: "hp = (h, params)" by fastforce
    have "run_handler H ldb F now h params (req_body req) d = Inr (r, d')"
      using assms(3) Some hp by (simp add: serve_def)
    moreover have "h = PostAsset \<or> h = PostAssetData \<Longrightarrow> stringToKey (param '':key'' params) \<noteq> key"
      using assms(2) Some hp by (auto simp: stores_under_def)
    ultimately show ?thesis by (rule run)
  qed
qed

section \<open>What others leave alone\<close>

lemma others_served_ok:
  assumes "db_wf ldb F d" "\<forall>(now, req) \<in> set reqs. stores_under H req \<noteq> Some key"
  shows "db_wf ldb F (others_served H ldb F reqs d) \<and> same_file ldb key d (others_served H ldb F reqs d)"
  using assms
proof (induction reqs arbitrary: d)
  case Nil
  then show ?case by (simp add: same_file_refl)
next
  case (Cons x reqs)
  obtain now req where x: "x = (now, req)" by fastforce
  show ?case
  proof (cases "serve H ldb F now req d")
    case (Inl e)
    with Cons x show ?thesis by simp
  next
    case (Inr rd)
    obtain r d1 where rd: "rd = (r, d1)" by fastforce
    have "db_wf ldb F d1" using serve_db_wf [OF Cons.prems(1)] Inr rd by simp
    moreover have "same_file ldb key d d1"
      using serve_same_file [OF db_wfD(1) [OF Cons.prems(1)]] Cons.prems(2) Inr rd x by fastforce
    ultimately show ?thesis
      using Cons.IH [of d1] Cons.prems(2) Inr rd x by (auto intro: same_file_trans)
  qed
qed

definition shared_ok :: "http_lib \<Rightarrow> 'db leveldb \<Rightarrow> flat_lib \<Rightarrow> u64 \<Rightarrow> 'db shared_server \<Rightarrow> bool" where
  "shared_ok H ldb F key w \<longleftrightarrow> http_ok H \<and> flat_ok F \<and> db_wf ldb F (sh_db w) \<and> spared H key (sh_others w)"

lemma others_turn_ok:
  assumes "shared_ok H ldb F key w"
  shows "shared_ok H ldb F key (others_turn H ldb F w) \<and> same_file ldb key (sh_db w) (sh_db (others_turn H ldb F w))"
proof (cases "sh_others w")
  case Nil
  with assms show ?thesis by (simp add: others_turn_def same_file_refl)
next
  case (Cons b bs)
  with assms others_served_ok [of ldb F "sh_db w" b H key] show ?thesis
    by (auto simp: shared_ok_def others_turn_def spared_def)
qed

definition others_later :: "http_lib \<Rightarrow> 'db leveldb \<Rightarrow> flat_lib \<Rightarrow> 'db shared_server \<Rightarrow> 'db shared_server \<Rightarrow> bool" where
  "others_later H ldb F w w' \<longleftrightarrow> (\<exists>n. w' = (others_turn H ldb F ^^ n) w)"

lemma others_later_ok:
  assumes "others_later H ldb F w w'" "shared_ok H ldb F key w"
  shows "shared_ok H ldb F key w' \<and> same_file ldb key (sh_db w) (sh_db w')"
proof -
  have "shared_ok H ldb F key ((others_turn H ldb F ^^ n) w) \<and> same_file ldb key (sh_db w) (sh_db ((others_turn H ldb F ^^ n) w))" for n
    using assms(2) by (induction n) (auto simp: same_file_refl dest: others_turn_ok intro: same_file_trans)
  with assms(1) show ?thesis by (auto simp: others_later_def)
qed

lemma others_later_refl: "others_later H ldb F w w"
  unfolding others_later_def by (rule exI [of _ 0]) simp

lemma others_later_trans: "others_later H ldb F w w' \<Longrightarrow> others_later H ldb F w' w'' \<Longrightarrow> others_later H ldb F w w''"
  unfolding others_later_def by (metis comp_apply funpow_add)

section \<open>The transfer of a file\<close>

text \<open>A request that is no lookup by name is served whole, after a turn of the others.\<close>

definition unnamed :: "http_lib \<Rightarrow> http_method \<Rightarrow> string \<Rightarrow> bool" where
  "unnamed H m res \<longleftrightarrow> (\<forall>body. \<not> routed H \<lparr>req_method = m, req_resource = res, req_body = body\<rparr> GetNamedAsset \<and>
     \<not> routed H \<lparr>req_method = m, req_resource = res, req_body = body\<rparr> GetNamedList)"

lemma file_requests_unnamed:
  assumes "http_ok H"
  shows "unnamed H Post (''/asset/id/'' @ keyToString key)"
    "unnamed H Post (''/asset/data/'' @ keyToString key @ ''/'' @ show_dec n)"
    "unnamed H Get (''/asset/data/'' @ keyToString key @ ''/'' @ show_dec n)"
  using assms by (simp_all add: unnamed_def routed_def http_ok_def route_simps del: append.simps)

lemma shared_send:
  assumes "unnamed H m res"
  shows "http_send (shared_net H ldb F now addr) m (addr @ res) body w =
    (let w1 = others_turn H ldb F w
     in rbind (http_send (server_net H ldb F now addr) m (addr @ res) body (sh_db w1)) (\<lambda>(r, d). Inr (r, w1\<lparr>sh_db := d\<rparr>)))"
  using assms
  by (auto simp: http_send_def shared_net_def server_net_def serve_shared_def unnamed_def Let_def split: sum.splits)

lemma shared_post:
  assumes "unnamed H Post res" "w1 = others_turn H ldb F w"
    and "client_post H (server_net H ldb F now addr) (addr @ res) bs (sh_db w1) = Inr (ok, d)"
  shows "client_post H (shared_net H ldb F now addr) (addr @ res) bs w = Inr (ok, w1\<lparr>sh_db := d\<rparr>)"
  using assms by (auto simp: client_post_def shared_send Let_def fault_simps)

lemma shared_get_chunk:
  assumes "http_ok H" "w1 = others_turn H ldb F w"
    and "client_getAssetData H F (server_net H ldb F now addr) \<lparr>m_serverAddress = addr\<rparr> key n (sh_db w1) = Inr (x, sh_db w1)"
  shows "client_getAssetData H F (shared_net H ldb F now addr) \<lparr>m_serverAddress = addr\<rparr> key n w = Inr (x, w1)"
  using assms file_requests_unnamed(3) [OF assms(1)]
  by (auto simp: client_getAssetData_def shared_send snprintf_u64 Let_def fault_simps)

interpretation shared_files: file_service H F "shared_net H ldb F now addr" "\<lparr>m_serverAddress = addr\<rparr>" key
    "shared_ok H ldb F key" "others_later H ldb F" "\<lambda>w n. view ldb (sh_db w) (DataKey key n)"
    "\<lambda>w. view ldb (sh_db w) (AssetKey key)" "writes_succeed ldb"
  for H ldb F now addr key
proof (unfold_locales, goal_cases)
  case (1 w)
  then show ?case by (simp add: shared_ok_def)
next
  case 2
  show ?case by (rule others_later_refl)
next
  case 3
  then show ?case by (rule others_later_trans)
next
  case 4
  then show ?case using others_later_ok by blast
next
  case 5
  then show ?case using others_later_ok by (metis same_file_def)
next
  case 6
  then show ?case using others_later_ok by (metis same_file_def)
next
  case (7 w bs ids)
  let ?w = "others_turn H ldb F w"
  have w: "http_ok H" "db_wf ldb F (sh_db ?w)" "shared_ok H ldb F key ?w"
    using others_turn_ok [OF 7(1)] by (auto simp: shared_ok_def)
  obtain ok d where p: "client_post H (server_net H ldb F now addr) (addr @ ''/asset/id/'' @ keyToString key) bs (sh_db ?w) = Inr (ok, d)"
    "storeAsset ldb F now key (SizedPointer bs) (sh_db ?w) = Inr (ok, d)" "writes_succeed ldb \<longrightarrow> ok"
    "view ldb d = (if ok then update_view (asset_batch now key bs (asset_root F bs) ids) (view ldb (sh_db ?w)) else view ldb (sh_db ?w))"
    using post_asset [OF w(1) 7(2-5) db_wfD(1) [OF w(2)], of now addr key] by blast
  have "shared_ok H ldb F key (?w\<lparr>sh_db := d\<rparr>)"
    using w(3) storeAsset_db_wf [OF w(2) p(2)] by (simp add: shared_ok_def)
  moreover have "ok \<longrightarrow> view ldb d (AssetKey key) = Some bs" using p(4) by (simp add: asset_batch_def update_view_append)
  ultimately show ?case
    using shared_post [OF file_requests_unnamed(1) [OF w(1)] refl p(1)] p(3)
    by (intro exI [of _ ok] exI [of _ "?w\<lparr>sh_db := d\<rparr>"]) simp
next
  case (8 w bs n)
  let ?w = "others_turn H ldb F w"
  have w: "http_ok H" "db_wf ldb F (sh_db ?w)" "shared_ok H ldb F key ?w" "same_file ldb key (sh_db w) (sh_db ?w)"
    using others_turn_ok [OF 8(1)] by (auto simp: shared_ok_def)
  obtain ok d where p: "client_post H (server_net H ldb F now addr) (addr @ ''/asset/data/'' @ keyToString key @ ''/'' @
      snprintf 32 (show_dec (unat n))) bs (sh_db ?w) = Inr (ok, d)" "storeAssetDataChunk ldb key n (SizedPointer bs) (sh_db ?w) = Inr (ok, d)"
    using post_chunk [OF w(1) 8(2,3) db_wfD(1) [OF w(2)], of now addr key n] by blast
  have "view ldb d = (if ok then (view ldb (sh_db ?w))(DataKey key n \<mapsto> bs) else view ldb (sh_db ?w))"
    using storeAssetDataChunk_refines [OF db_wfD(1) [OF w(2)], of key n bs] p(2) by auto
  moreover have "writes_succeed ldb \<longrightarrow> ok"
    using p(2) by (auto simp: storeAssetDataChunk_def dest: put_batch_succeeds)
  moreover have "shared_ok H ldb F key (?w\<lparr>sh_db := d\<rparr>)"
    using w(3) storeAssetDataChunk_db_wf [OF w(2) p(2)] by (simp add: shared_ok_def)
  ultimately show ?case
    using shared_post [OF file_requests_unnamed(2) [OF w(1), of key "unat n"] refl p(1) [unfolded snprintf_u64]] w(4)
    by (intro exI [of _ ok] exI [of _ "?w\<lparr>sh_db := d\<rparr>"]) (simp add: snprintf_u64 same_file_def)
next
  case (9 w bs n)
  let ?w = "others_turn H ldb F w"
  have w: "http_ok H" "db_wf ldb F (sh_db ?w)" "same_file ldb key (sh_db w) (sh_db ?w)"
    using others_turn_ok [OF 9(1)] by (auto simp: shared_ok_def)
  have "view ldb (sh_db ?w) (DataKey key n) = Some bs" using 9(4) w(3) by (simp add: same_file_def)
  note get = get_chunk [OF w(1) 9(2,3) db_wfD(1) [OF w(2)] this, of now addr]
  have "others_later H ldb F w ?w" unfolding others_later_def by (rule exI [of _ 1]) simp
  with shared_get_chunk [OF w(1) refl get] show ?case by blast
qed

text \<open>
  C8: A file comes through a busy server: whatever requests of other clients the server answers
  between those of an upload, and between those of the download that follows, the downloaded
  file is byte for byte the uploaded one, as long as none of those requests stores under the key
  of the file and its size is no multiple of the chunk size.
\<close>

theorem file_survives_others:
  assumes "http_ok H" "hash_ok X" "flat_ok F" "db_wf ldb F (sh_db w)" "spared H key (sh_others w)"
    and "content \<noteq> []" "length content < 2 ^ 42" "\<not> kDataChunkSize dvd length content"
    and "ids \<noteq> []" "0 \<notin> set ids" "length ids \<le> kAssetMaxListEntries"
    and "tbl = file_table t name author deprecates ids ext key (length content)"
    and "key = xx_hash X content 0" "asset_fits tbl" "length (asset_bytes F tbl) \<le> 3069"
    and "postFileAsset H F X (shared_net H ldb F now addr) \<lparr>m_serverAddress = addr\<rparr> t name author deprecates
        (join_ids ids) (steady_file ext content) w = Inr (posted, w')" "posted \<noteq> 0"
    and "path = m_cachePath c @ ''/'' @ keyToString key @ ext" "opens path"
  shows "posted = key \<and> view ldb (sh_db w') (AssetKey key) = Some (asset_bytes F tbl) \<and>
    (\<exists>w''. download H F X (shared_net H ldb F later addr) \<lparr>m_serverAddress = addr\<rparr> opens time key
        (fa_size tbl) (fa_chunks tbl) ext c fs w' =
      Inr ((path, c\<lparr>m_currentSize := m_currentSize c + of_nat (length content),
                    m_timeQueue := pq_push (time, path) (m_timeQueue c),
                    m_extensionMap := umap_insert key ext (m_extensionMap c)\<rparr>,
            umap_assign path (Regular content time) fs), w'') \<and> db_wf ldb F (sh_db w''))"
proof -
  have ok: "shared_ok H ldb F key w" using assms(1,3-5) by (simp add: shared_ok_def)
  obtain good w1 where up: "postFileAsset H F X (shared_net H ldb F now addr) \<lparr>m_serverAddress = addr\<rparr> t name author deprecates
      (join_ids ids) (steady_file ext content) w = Inr (if good then key else 0, w1)" "shared_ok H ldb F key w1"
    "good \<longrightarrow> view ldb (sh_db w1) (AssetKey key) = Some (asset_bytes F tbl) \<and>
       chunks_stored F (\<lambda>n. view ldb (sh_db w1) (DataKey key n)) 0 (tables_of X (xx_reset X 0) (chunks_of content))"
    using shared_files.upload_file [OF ok assms(2,6,7,9-11,13,12,14,15), of now addr] by blast
  with assms(16,17) have good: good "posted = key" "w1 = w'" by (auto split: if_splits)
  have at: "shared_ok H ldb F key w'" and
    chunks: "chunks_stored F (\<lambda>n. view ldb (sh_db w') (DataKey key n)) 0 (tables_of X (xx_reset X 0) (chunks_of content))"
    using up(2,3) good by simp_all
  obtain w'' where "others_later H ldb F w' w''" "download H F X (shared_net H ldb F later addr) \<lparr>m_serverAddress = addr\<rparr> opens time
      key (fa_size tbl) (fa_chunks tbl) ext c fs w' =
    Inr ((path, c\<lparr>m_currentSize := m_currentSize c + of_nat (length content),
                  m_timeQueue := pq_push (time, path) (m_timeQueue c),
                  m_extensionMap := umap_insert key ext (m_extensionMap c)\<rparr>,
          umap_assign path (Regular content time) fs), w'')"
    using shared_files.download_file [where opens = opens and path = path, OF at assms(2,6-8) chunks assms(12,13,18,19)] by blast
  moreover from others_later_ok [OF this(1) at] have "db_wf ldb F (sh_db w'')" by (simp add: shared_ok_def)
  ultimately show ?thesis using up(3) good by blast
qed

section \<open>A witness\<close>

lemma stores_under_asset:
  "http_ok H \<Longrightarrow> stores_under H \<lparr>req_method = Post, req_resource = ''/asset/id/'' @ keyToString k, req_body = b\<rparr> = Some k"
  by (simp add: stores_under_def http_ok_def route_simps key_text.dec_enc del: append.simps)

text \<open>Two other clients post an asset each, one before and one during the upload of a file.\<close>

definition others_world :: "mem shared_server" where
  "others_world = \<lparr>sh_db = memory_db [], sh_others = [[(1, post_sample 7)], [(2, post_sample 8)]]\<rparr>"

lemma others_world_spared: "spared sample_http 4 (sh_others others_world)"
  by (simp add: spared_def others_world_def post_sample_def stores_under_asset [OF sample_http_ok] del: append.simps)

lemma file_survives_others_witness:
  "\<exists>w'. postFileAsset sample_http plain_flat sample_hash (shared_net sample_http mem_store plain_flat 1 ''s'')
       \<lparr>m_serverAddress = ''s''\<rparr> kSample ''a'' 0 0 (join_ids [5]) (steady_file ''.wav'' [1, 2, 3]) others_world = Inr (4, w') \<and>
     (\<exists>c' w''. download sample_http plain_flat sample_hash (shared_net sample_http mem_store plain_flat 2 ''s'')
       \<lparr>m_serverAddress = ''s''\<rparr> (\<lambda>_. True) 9 4 3 1 ''.wav'' sample_cache [(''c'', NonRegular)] w' =
     Inr ((''c/'' @ keyToString 4 @ ''.wav'', c',
       [(''c'', NonRegular), (''c/'' @ keyToString 4 @ ''.wav'', Regular [1, 2, 3] 9)]), w''))"
proof -
  have key: "4 = xx_hash sample_hash [1, 2, 3] 0" by (simp add: sample_hash_def)
  have len: "([1, 2, 3] :: bytes) \<noteq> []" "length ([1, 2, 3] :: bytes) < 2 ^ 42" "\<not> kDataChunkSize dvd length ([1, 2, 3] :: bytes)"
    by (auto simp: kDataChunkSize_val dest: dvd_imp_le)
  have ids: "[5] \<noteq> ([] :: u64 list)" "0 \<notin> set [5 :: u64]" "length [5 :: u64] \<le> kAssetMaxListEntries"
    by (simp_all add: kAssetMaxListEntries_def)
  have tbl: "sample_table = file_table kSample ''a'' 0 0 [5] ''.wav'' 4 (length ([1, 2, 3] :: bytes))"
    by (simp add: sample_table_def numeral_3_eq_3)
  have wf: "db_wf mem_store plain_flat (sh_db others_world)" using empty_wf by (simp add: others_world_def)
  have ok: "shared_ok sample_http mem_store plain_flat 4 others_world"
    using sample_http_ok plain_flat_ok wf others_world_spared by (simp add: shared_ok_def)
  obtain w' where up: "postFileAsset sample_http plain_flat sample_hash (shared_net sample_http mem_store plain_flat 1 ''s'')
       \<lparr>m_serverAddress = ''s''\<rparr> kSample ''a'' 0 0 (join_ids [5]) (steady_file ''.wav'' [1, 2, 3]) others_world = Inr (4, w')"
    using shared_files.upload_file [OF ok sample_hash_ok len(1,2) ids key tbl sample_table_fits, of 1 "''s''"] sample_writes
    by auto
  have "fa_size sample_table = 3" "fa_chunks sample_table = 1"
    by (simp_all add: sample_table_def file_table_def kDataChunkSize_val)
  with file_survives_others [OF sample_http_ok sample_hash_ok plain_flat_ok wf others_world_spared len ids tbl key
      sample_table_fits up _ refl, of "\<lambda>_. True" sample_cache 2 9 "[(''c'', NonRegular)]"] up
  show ?thesis
    by (auto simp: sample_cache_def new_CacheManager_def)
qed

end
