(* ===== verification/Busy_Server.thy ===== *)
theory Busy_Server
  imports Clients Shared_Server
begin

text \<open>
  A client program on a server that is busy with others. Each exchange of \<open>shared_net\<close> is a few
  steps of the server's threads: thread 0 answers the client, thread 1 the others. So everything
  that holds of the threads holds of a server with such clients, and what a client keeps is
  something the server held at some time.
\<close>

section \<open>An exchange is a run of threads\<close>

lemma one_by_one_append:
  "one_by_one H ldb F (before @ since) d d' \<longleftrightarrow>
    (\<exists>d1. one_by_one H ldb F before d d1 \<and> one_by_one H ldb F since d1 d')"
  by (induction before arbitrary: d) (auto split: sum.splits prod.splits)

lemma at_some_time_later:
  assumes "at_some_time H ldb F d0 hist d P" "one_by_one H ldb F steps d d'"
  shows "at_some_time H ldb F d0 (hist @ steps) d' P"
proof -
  obtain before since d1 where h: "hist = before @ since" "one_by_one H ldb F before d0 d1" "one_by_one H ldb F since d1 d" "P d1"
    using assms(1) unfolding at_some_time_def by blast
  then have "one_by_one H ldb F (since @ steps) d1 d'" using assms(2) one_by_one_append by blast
  with h show ?thesis unfolding at_some_time_def by (metis append.assoc)
qed

text \<open>The threads can go on from \<open>d\<close> to \<open>d'\<close>, each ending as it began.\<close>

definition threads_go :: "http_lib \<Rightarrow> 'db leveldb \<Rightarrow> flat_lib \<Rightarrow> 'db asset_database \<Rightarrow> history \<Rightarrow> (nat \<Rightarrow> activity) \<Rightarrow>
    'db asset_database \<Rightarrow> 'db asset_database \<Rightarrow> bool" where
  "threads_go H ldb F d0 hist ts d d' \<longleftrightarrow>
     (\<exists>steps. server_run H ldb F d0 (hist @ steps) d' ts \<and> one_by_one H ldb F steps d d')"

lemma threads_go_refl: "server_run H ldb F d0 hist d ts \<Longrightarrow> threads_go H ldb F d0 hist ts d d"
  unfolding threads_go_def by (rule exI [of _ "[]"]) simp

lemma one_request_goes:
  assumes "server_run H ldb F d0 hist d ts" "ts i = Waiting" "serve H ldb F now req d = Inr (r, d')"
  shows "threads_go H ldb F d0 hist ts d d'"
  unfolding threads_go_def
  by (rule exI [of _ "[((now, req), r)]"]) (use server_run.whole_request [OF assms] assms(3) in simp)

lemma others_go:
  assumes "server_run H ldb F d0 hist d ts" "ts i = Waiting"
  shows "threads_go H ldb F d0 hist ts d (others_served H ldb F reqs d)"
  using assms(1)
proof (induction reqs arbitrary: d hist)
  case Nil
  then show ?case by (simp add: threads_go_refl)
next
  case (Cons x reqs)
  obtain now req where x: "x = (now, req)" by fastforce
  show ?case
  proof (cases "serve H ldb F now req d")
    case (Inl e)
    with Cons x show ?thesis by simp
  next
    case (Inr rd)
    obtain r d1 where rd: "rd = (r, d1)" by fastforce
    obtain steps where one: "server_run H ldb F d0 (hist @ steps) d1 ts" "one_by_one H ldb F steps d d1"
      using one_request_goes [OF Cons.prems assms(2)] Inr rd unfolding threads_go_def by blast
    from Cons.IH [OF one(1)] obtain steps' where
      "server_run H ldb F d0 (hist @ steps @ steps') (others_served H ldb F reqs d1) ts"
      "one_by_one H ldb F steps' d1 (others_served H ldb F reqs d1)"
      unfolding threads_go_def by auto
    with one(2) show ?thesis
      unfolding threads_go_def by (intro exI [of _ "steps @ steps'"]) (auto simp: Inr rd x one_by_one_append)
  qed
qed

lemma others_turn_goes:
  assumes "server_run H ldb F d0 hist (sh_db w) ts" "ts i = Waiting"
  shows "threads_go H ldb F d0 hist ts (sh_db w) (sh_db (others_turn H ldb F w))"
  using others_go [OF assms] threads_go_refl [OF assms(1)] by (auto simp: others_turn_def split: list.splits)

lemma threads_go_trans:
  assumes "threads_go H ldb F d0 hist ts d d1"
    and "\<And>hist. server_run H ldb F d0 hist d1 ts \<Longrightarrow> threads_go H ldb F d0 hist ts d1 d'"
  shows "threads_go H ldb F d0 hist ts d d'"
proof -
  obtain steps where one: "server_run H ldb F d0 (hist @ steps) d1 ts" "one_by_one H ldb F steps d d1"
    using assms(1) unfolding threads_go_def by blast
  with assms(2) [OF one(1)] obtain steps' where "server_run H ldb F d0 (hist @ steps @ steps') d' ts" "one_by_one H ldb F steps' d1 d'"
    unfolding threads_go_def by auto
  with one(2) show ?thesis unfolding threads_go_def by (intro exI [of _ "steps @ steps'"]) (auto simp: one_by_one_append)
qed

lemma named_record_found:
  assumes "named_record H look w = Inr (r, w')"
  shows "\<exists>rec. look (sh_db w) = Inr rec \<and> send_record H rec (sh_db w) = Inr (r, sh_db w) \<and> w' = w"
proof -
  obtain rec d where "look (sh_db w) = Inr rec" "send_record H rec (sh_db w) = Inr (r, d)" "w' = w\<lparr>sh_db := d\<rparr>"
    using assms by (auto simp: named_record_def fault_simps)
  moreover from send_record_db [OF this(2)] have "d = sh_db w" .
  ultimately show ?thesis by simp
qed

text \<open>The two halves of a lookup by name, with the others between them.\<close>

lemma named_asset_goes:
  assumes "server_run H ldb F d0 hist (sh_db w) ts" "ts 0 = Waiting" "ts 1 = Waiting" "routed H req GetNamedAsset"
    and "name_key ldb kAssetNamePrefix (to_chars (req_body req)) (sh_db w) = Inr (Some key)"
    and "named_record H (findAsset ldb F key) (others_turn H ldb F w) = Inr (r, w')"
  shows "threads_go H ldb F d0 hist ts (sh_db w) (sh_db w')"
proof -
  let ?ts = "ts(0 := Key_of_asset (0, req) key)"
  have "server_run H ldb F d0 hist (sh_db w) ?ts" by (rule server_run.asset_name [OF assms(1,2,4,5)])
  then obtain steps where m: "server_run H ldb F d0 (hist @ steps) (sh_db (others_turn H ldb F w)) ?ts"
    "one_by_one H ldb F steps (sh_db w) (sh_db (others_turn H ldb F w))"
    using others_turn_goes [where i = 1] assms(3) unfolding threads_go_def by fastforce
  obtain rec where rec: "findAsset ldb F key (sh_db (others_turn H ldb F w)) = Inr rec"
    "send_record H rec (sh_db (others_turn H ldb F w)) = Inr (r, sh_db (others_turn H ldb F w))" "w' = others_turn H ldb F w"
    using named_record_found [OF assms(6)] by blast
  have "server_run H ldb F d0 (hist @ steps) (sh_db (others_turn H ldb F w)) (?ts(0 := Waiting))"
    by (rule server_run.asset_record [OF m(1) _ rec(1,2)]) simp
  moreover have "?ts(0 := Waiting) = ts" using assms(2) by auto
  ultimately show ?thesis using m(2) rec(3) unfolding threads_go_def by auto
qed

lemma named_list_goes:
  assumes "server_run H ldb F d0 hist (sh_db w) ts" "ts 0 = Waiting" "ts 1 = Waiting" "routed H req GetNamedList"
    and "name_key ldb kListNamePrefix (to_chars (req_body req)) (sh_db w) = Inr (Some key)"
    and "named_record H (loadList ldb key) (others_turn H ldb F w) = Inr (r, w')"
  shows "threads_go H ldb F d0 hist ts (sh_db w) (sh_db w')"
proof -
  let ?ts = "ts(0 := Key_of_list (0, req) key)"
  have "server_run H ldb F d0 hist (sh_db w) ?ts" by (rule server_run.list_name [OF assms(1,2,4,5)])
  then obtain steps where m: "server_run H ldb F d0 (hist @ steps) (sh_db (others_turn H ldb F w)) ?ts"
    "one_by_one H ldb F steps (sh_db w) (sh_db (others_turn H ldb F w))"
    using others_turn_goes [where i = 1] assms(3) unfolding threads_go_def by fastforce
  obtain rec where rec: "loadList ldb key (sh_db (others_turn H ldb F w)) = Inr rec"
    "send_record H rec (sh_db (others_turn H ldb F w)) = Inr (r, sh_db (others_turn H ldb F w))" "w' = others_turn H ldb F w"
    using named_record_found [OF assms(6)] by blast
  have "server_run H ldb F d0 (hist @ steps) (sh_db (others_turn H ldb F w)) (?ts(0 := Waiting))"
    by (rule server_run.list_of_key [OF m(1) _ rec(1,2)]) simp
  moreover have "?ts(0 := Waiting) = ts" using assms(2) by auto
  ultimately show ?thesis using m(2) rec(3) unfolding threads_go_def by auto
qed

lemma serve_shared_goes:
  assumes "server_run H ldb F d0 hist (sh_db w) ts" "ts 0 = Waiting" "ts 1 = Waiting"
    and "serve_shared H ldb F now req w = Inr (r, w')"
  shows "threads_go H ldb F d0 hist ts (sh_db w) (sh_db w')"
proof -
  note refl = threads_go_refl [OF assms(1)]
  consider (asset) "routed H req GetNamedAsset" | (list) "\<not> routed H req GetNamedAsset" "routed H req GetNamedList"
    | (other) "\<not> routed H req GetNamedAsset" "\<not> routed H req GetNamedList" by blast
  then show ?thesis
  proof cases
    case asset
    with assms(4) named_asset_goes [OF assms(1-3) asset] refl show ?thesis
      by (auto simp: serve_shared_def fault_simps Let_def split: option.splits dest!: named_record_found)
  next
    case list
    with assms(4) named_list_goes [OF assms(1-3) list(2)] refl show ?thesis
      by (auto simp: serve_shared_def fault_simps Let_def split: option.splits dest!: named_record_found)
  next
    case other
    with assms(4) one_request_goes [OF assms(1,2)] show ?thesis
      by (auto simp: serve_shared_def fault_simps Let_def)
  qed
qed

lemma shared_net_goes:
  assumes "server_run H ldb F d0 hist (sh_db w) ts" "ts 0 = Waiting" "ts 1 = Waiting"
  shows "threads_go H ldb F d0 hist ts (sh_db w) (sh_db (snd (shared_net H ldb F now addr req w)))"
proof (rule threads_go_trans [OF others_turn_goes [OF assms(1,3)]])
  fix hist
  assume run: "server_run H ldb F d0 hist (sh_db (others_turn H ldb F w)) ts"
  show "threads_go H ldb F d0 hist ts (sh_db (others_turn H ldb F w)) (sh_db (snd (shared_net H ldb F now addr req w)))"
    using threads_go_refl [OF run] serve_shared_goes [OF run assms(2,3)]
    by (auto simp: shared_net_def Let_def split: sum.splits)
qed

section \<open>What a client learns\<close>

definition server_saw :: "http_lib \<Rightarrow> 'db leveldb \<Rightarrow> flat_lib \<Rightarrow> 'db asset_database \<Rightarrow> 'db shared_server \<Rightarrow>
    ('db asset_database \<Rightarrow> bool) \<Rightarrow> bool" where
  "server_saw H ldb F d0 w P \<longleftrightarrow> (\<exists>hist ts. server_run H ldb F d0 hist (sh_db w) ts \<and> ts 0 = Waiting \<and> ts 1 = Waiting \<and>
     one_by_one H ldb F hist d0 (sh_db w) \<and> at_some_time H ldb F d0 hist (sh_db w) P)"

lemma server_saw_goes:
  assumes "server_saw H ldb F d0 w P"
    and "\<And>hist ts. server_run H ldb F d0 hist (sh_db w) ts \<Longrightarrow> ts 0 = Waiting \<Longrightarrow> ts 1 = Waiting \<Longrightarrow>
      threads_go H ldb F d0 hist ts (sh_db w) (sh_db w')"
  shows "server_saw H ldb F d0 w' P"
proof -
  obtain hist ts where h: "server_run H ldb F d0 hist (sh_db w) ts" "ts 0 = Waiting" "ts 1 = Waiting"
    "one_by_one H ldb F hist d0 (sh_db w)" "at_some_time H ldb F d0 hist (sh_db w) P"
    using assms(1) unfolding server_saw_def by blast
  obtain steps where "server_run H ldb F d0 (hist @ steps) (sh_db w') ts" "one_by_one H ldb F steps (sh_db w) (sh_db w')"
    using assms(2) [OF h(1-3)] unfolding threads_go_def by blast
  with h show ?thesis
    unfolding server_saw_def by (blast intro: at_some_time_later one_by_one_append [THEN iffD2])
qed

lemma server_saw_now:
  assumes "server_saw H ldb F d0 w P" "Q (sh_db w)"
  shows "server_saw H ldb F d0 w Q"
  using assms at_present unfolding server_saw_def by blast

lemma server_saw_net:
  "server_saw H ldb F d0 w P \<Longrightarrow> server_saw H ldb F d0 (snd (shared_net H ldb F now addr req w)) P"
  by (erule server_saw_goes) (rule shared_net_goes)

lemma server_saw_turn: "server_saw H ldb F d0 w P \<Longrightarrow> server_saw H ldb F d0 (others_turn H ldb F w) P"
  by (erule server_saw_goes) (rule others_turn_goes [where i = 1])

text \<open>A server that began well formed, with its names stored, and was run by its threads since.\<close>

definition busy_ok :: "http_lib \<Rightarrow> 'db leveldb \<Rightarrow> flat_lib \<Rightarrow> 'db asset_database \<Rightarrow> 'db shared_server \<Rightarrow> bool" where
  "busy_ok H ldb F d0 w \<longleftrightarrow>
     http_ok H \<and> db_wf ldb F d0 \<and> names_stored ldb d0 \<and> server_saw H ldb F d0 w (\<lambda>d. True)"

lemma busy_wf:
  assumes "busy_ok H ldb F d0 w"
  shows "db_wf ldb F (sh_db w)" "names_stored ldb (sh_db w)"
  using assms server_run_ok unfolding busy_ok_def server_saw_def threads_ok_def by blast+

lemma busy_turn: "busy_ok H ldb F d0 w \<Longrightarrow> busy_ok H ldb F d0 (others_turn H ldb F w)"
  by (simp add: busy_ok_def server_saw_turn)

lemma brought_now:
  assumes "busy_ok H ldb F d0 w" "from_server ldb (sh_db w) rec"
  shows "brought (\<lambda>w b. server_saw H ldb F d0 w (\<lambda>d. holds ldb d b)) w rec"
proof -
  have saw: "server_saw H ldb F d0 w (\<lambda>d. True)" using assms(1) by (simp add: busy_ok_def)
  have "server_saw H ldb F d0 w (\<lambda>d. holds ldb d b)" if "holds ldb (sh_db w) b" for b
    by (rule server_saw_now [OF saw, where Q = "\<lambda>d. holds ldb d b"]) (rule that)
  with assms(2) show ?thesis by (auto simp: from_server_def brought_def)
qed

lemma asset_request_unnamed: "http_ok H \<Longrightarrow> unnamed H Get (''/asset/id/'' @ keyToString key)"
  by (simp add: unnamed_def routed_def http_ok_def route_simps del: append.simps)

lemma shared_get_asset:
  assumes "http_ok H"
  shows "client_getAsset H F (shared_net H ldb F now addr) \<lparr>m_serverAddress = addr\<rparr> key w =
    (let w1 = others_turn H ldb F w
     in rbind (client_getAsset H F (server_net H ldb F now addr) \<lparr>m_serverAddress = addr\<rparr> key (sh_db w1))
          (\<lambda>(x, d). Inr (x, w1\<lparr>sh_db := d\<rparr>)))"
  unfolding client_getAsset_def Let_def http_client.select_convs shared_send [OF asset_request_unnamed [OF assms]]
  by (simp add: rbind_assoc split_beta del: append.simps)

lemma shared_asset_seen:
  assumes "busy_ok H ldb F d0 w"
    and "client_getAsset H F (shared_net H ldb F now addr) \<lparr>m_serverAddress = addr\<rparr> key w = Inr ((k, rec), w')"
  shows "brought (\<lambda>w b. server_saw H ldb F d0 w (\<lambda>d. holds ldb d b)) w' rec"
proof -
  let ?w = "others_turn H ldb F w"
  note ok = busy_turn [OF assms(1)]
  have H: "http_ok H" using assms(1) by (simp add: busy_ok_def)
  obtain d where "client_getAsset H F (server_net H ldb F now addr) \<lparr>m_serverAddress = addr\<rparr> key (sh_db ?w) = Inr ((k, rec), d)"
    "w' = ?w\<lparr>sh_db := d\<rparr>"
    using assms(2) by (auto simp: shared_get_asset [OF H] Let_def fault_simps)
  moreover from server_lookup(1) [OF H busy_wf(1) [OF ok] this(1)] have "d = sh_db ?w" "from_server ldb (sh_db ?w) rec" by simp_all
  ultimately show ?thesis using brought_now [OF ok] by simp
qed

lemma shared_named_seen:
  assumes "busy_ok H ldb F d0 w"
    and "client_getNamedAsset H F (shared_net H ldb F now addr) \<lparr>m_serverAddress = addr\<rparr> name w = Inr (rec, w')"
  shows "brought (\<lambda>w b. server_saw H ldb F d0 w (\<lambda>d. holds ldb d b)) w' rec"
proof -
  let ?w = "others_turn H ldb F w"
  let ?req = "\<lparr>req_method = Get, req_resource = ''/asset/name'', req_body = of_chars name\<rparr>"
  note ok = busy_turn [OF assms(1)]
  have H: "http_ok H" using assms(1) by (simp add: busy_ok_def)
  then have routed: "routed H ?req GetNamedAsset"
    by (simp add: routed_def http_ok_def route_simps)
  obtain r where r: "serve_shared H ldb F now ?req ?w = Inr (r, w')" "received H (asset_valid F) r = Inr rec"
    using assms(2) by (auto simp: client_getNamedAsset_def http_send_def shared_net_def Let_def fault_simps split: sum.splits)
  have "\<exists>k look w2. named_record H look w2 = Inr (r, w') \<and> busy_ok H ldb F d0 w2 \<and>
      (look = (\<lambda>d. Inr EmptyRecord) \<or> look = findAsset ldb F k)"
    using r(1) ok busy_turn [OF ok] by (auto simp: serve_shared_def routed fault_simps Let_def split: option.splits)
  then obtain k look where look: "named_record H look w' = Inr (r, w')" "busy_ok H ldb F d0 w'"
    "look = (\<lambda>d. Inr EmptyRecord) \<or> look = findAsset ldb F k"
    using named_record_found by blast
  then obtain rec0 where rec0: "look (sh_db w') = Inr rec0" "send_record H rec0 (sh_db w') = Inr (r, sh_db w')"
    using named_record_found by blast
  have "rec0 = EmptyRecord \<or> (\<exists>bs. record_data rec0 = Inr (SizedPointer bs) \<and> holds ldb (sh_db w') bs)"
    using look(3) rec0(1) findAsset_holds [OF busy_wf(1) [OF look(2)]] by auto
  from received_from_server [OF H this rec0(2) r(2)] show ?thesis by (rule brought_now [OF look(2)])
qed

interpretation busy_source: asset_source H F "shared_net H ldb F now addr" "\<lparr>m_serverAddress = addr\<rparr>"
    "busy_ok H ldb F d0" "\<lambda>w b. server_saw H ldb F d0 w (\<lambda>d. holds ldb d b)" for H F ldb now addr d0
proof (unfold_locales, goal_cases)
  case (1 w req)
  then show ?case by (simp add: busy_ok_def server_saw_net)
next
  case 2
  then show ?case by (simp add: server_saw_net)
next
  case 3
  then show ?case by (rule shared_asset_seen)
next
  case 4
  then show ?case by (rule shared_named_seen)
qed

section \<open>Clients of a busy server\<close>

lemma busy_message:
  assumes "ProcessMessage e m s = Inr s'" "uses_net e H F (shared_net H ldb F now addr) \<lparr>m_serverAddress = addr\<rparr>"
    and "busy_ok H ldb F d0 (os_world s)" "db_wf (env_ldb e) F (m_assetDatabase s)"
  shows "busy_ok H ldb F d0 (os_world s')" "db_wf (env_ldb e) F (m_assetDatabase s')"
    "gained (\<lambda>w b. server_saw H ldb F d0 w (\<lambda>d. holds ldb d b)) e s s'"
    "server_saw H ldb F d0 (os_world s) P \<Longrightarrow> server_saw H ldb F d0 (os_world s') P"
proof -
  have net: "env_net e = shared_net H ldb F now addr" "env_flat e = F" using assms(2) by (simp_all add: uses_net_def)
  show "busy_ok H ldb F d0 (os_world s')"
    by (rule ProcessMessage_keeps [where P = "busy_ok H ldb F d0", OF assms(1) _ assms(3)])
      (simp only: net busy_source.good_net_keeps)
  show "db_wf (env_ldb e) F (m_assetDatabase s')"
    using ProcessMessage_effect [OF assms(1)] assms(4) net by (simp add: task_effect_def)
  show "gained (\<lambda>w b. server_saw H ldb F d0 w (\<lambda>d. holds ldb d b)) e s s'"
    by (rule busy_source.ProcessMessage_gained [OF assms(2,3) db_wfD(1) [OF assms(4)] assms(1)])
  have "net_keeps (env_net e) (\<lambda>w. server_saw H ldb F d0 w P)"
    unfolding net_keeps_def net using server_saw_net by blast
  then show "server_saw H ldb F d0 (os_world s) P \<Longrightarrow> server_saw H ldb F d0 (os_world s') P"
    using ProcessMessage_keeps [OF assms(1), of "\<lambda>w. server_saw H ldb F d0 w P"] by simp
qed

lemma busy_messages:
  assumes "receive ms s = Inr s'" "busy_ok H ldb F d0 (os_world s)" "db_wf cldb F (m_assetDatabase s)"
    and "\<forall>(e, m) \<in> set ms. env_ldb e = cldb \<and> (\<exists>now. uses_net e H F (shared_net H ldb F now addr) \<lparr>m_serverAddress = addr\<rparr>)"
  shows "busy_ok H ldb F d0 (os_world s') \<and> db_wf cldb F (m_assetDatabase s') \<and>
    (\<forall>P. server_saw H ldb F d0 (os_world s) P \<longrightarrow> server_saw H ldb F d0 (os_world s') P) \<and>
    (\<forall>b. holds cldb (m_assetDatabase s') b \<longrightarrow> holds cldb (m_assetDatabase s) b \<or>
      server_saw H ldb F d0 (os_world s') (\<lambda>d. holds ldb d b))"
  using assms
proof (induction ms arbitrary: s)
  case Nil
  then show ?case by (simp add: receive_def)
next
  case (Cons em ms)
  obtain e m where em: "em = (e, m)" by (cases em)
  obtain s1 where s1: "ProcessMessage e m s = Inr s1" "receive ms s1 = Inr s'"
    using Cons.prems(1) by (auto simp: receive_def em fault_simps)
  obtain now where e: "env_ldb e = cldb" "uses_net e H F (shared_net H ldb F now addr) \<lparr>m_serverAddress = addr\<rparr>"
    using Cons.prems(4) em by auto
  note one = busy_message [OF s1(1) e(2) Cons.prems(2) Cons.prems(3) [folded e(1)], unfolded e(1)]
  have "\<forall>(e, m) \<in> set ms. env_ldb e = cldb \<and> (\<exists>now. uses_net e H F (shared_net H ldb F now addr) \<lparr>m_serverAddress = addr\<rparr>)"
    using Cons.prems(4) by simp
  note rest = Cons.IH [OF s1(2) one(1,2) this]
  have "holds cldb (m_assetDatabase s1) b \<Longrightarrow> holds cldb (m_assetDatabase s) b \<or> server_saw H ldb F d0 (os_world s1) (\<lambda>d. holds ldb d b)" for b
    using one(3) by (simp add: gained_def e(1))
  then show ?case using rest one(4) by blast
qed

text \<open>
  C5: Whatever a client does at a server that other clients use at the same time, and whatever
  they send between its requests, the server's database is one that the threads of the server
  reach, well formed and equal to that of the requests served one after the other; and every
  asset the client has put into its own database was held by the server at some time.
\<close>

theorem clients_of_busy_server:
  assumes "receive ms s = Inr s'" "d0 = sh_db (os_world s)"
    and "http_ok H" "db_wf ldb F d0" "names_stored ldb d0" "db_wf cldb F (m_assetDatabase s)"
    and "\<forall>(e, m) \<in> set ms. env_ldb e = cldb \<and> (\<exists>now. uses_net e H F (shared_net H ldb F now addr) \<lparr>m_serverAddress = addr\<rparr>)"
  shows "db_wf ldb F (sh_db (os_world s')) \<and>
    (\<exists>hist ts. server_run H ldb F d0 hist (sh_db (os_world s')) ts \<and> one_by_one H ldb F hist d0 (sh_db (os_world s'))) \<and>
    (\<forall>b. holds cldb (m_assetDatabase s') b \<longrightarrow> holds cldb (m_assetDatabase s) b \<or>
      server_saw H ldb F d0 (os_world s') (\<lambda>d. holds ldb d b))"
proof -
  have "server_run H ldb F d0 [] (sh_db (os_world s)) (\<lambda>_. Waiting)"
    using server_run.start assms(2) by metis
  then have "server_saw H ldb F d0 (os_world s) (\<lambda>d. True)"
    unfolding server_saw_def
    by (intro exI [of _ "[]"] exI [of _ "\<lambda>_. Waiting"]) (simp add: assms(2) at_present)
  then have "busy_ok H ldb F d0 (os_world s)" using assms(3-5) by (simp add: busy_ok_def)
  note ran = busy_messages [OF assms(1) this assms(6,7)]
  then have "server_saw H ldb F d0 (os_world s') (\<lambda>d. True)" by (simp add: busy_ok_def)
  then show ?thesis
    using ran busy_wf(1) [of H ldb F d0 "os_world s'"] unfolding server_saw_def by blast
qed

section \<open>Witnesses\<close>

text \<open>
  A client looks an asset up that another client posts just before: the request of the other
  is served first.
\<close>

definition busy_world :: "mem shared_server" where
  "busy_world = \<lparr>sh_db = memory_db [], sh_others = [[(1, post_sample 7)]]\<rparr>"

definition busy_env :: "(mem, u64, mem shared_server) osc_env" where
  "busy_env =
     \<lparr>env_http = sample_http, env_ldb = mem_store, env_flat = plain_flat, env_hash = sample_hash,
      env_net = shared_net sample_http mem_store plain_flat 2 ''s'', m_httpClient = \<lparr>m_serverAddress = ''s''\<rparr>,
      env_opens = (\<lambda>_. True), env_file = (\<lambda>_. None), env_micros = 1, env_time = 9, env_random = 7,
      packet_size = (\<lambda>_. 0)\<rparr>"

lemma busy_sample_turn:
  "others_turn sample_http mem_store plain_flat busy_world = \<lparr>sh_db = memory_db (sample_db 0), sh_others = []\<rparr>"
  using post_sample_served [of 1 7 "[]"]
  by (simp add: others_turn_def busy_world_def sample_put_def sample_db_def)

lemma busy_sample_get:
  "client_getAsset sample_http plain_flat (shared_net sample_http mem_store plain_flat 2 ''s'') \<lparr>m_serverAddress = ''s''\<rparr> 7 busy_world =
     Inr ((7, ClientRecord (SizedPointer (plain_asset (sample_asset 7 0)))), \<lparr>sh_db = memory_db (sample_db 0), sh_others = []\<rparr>)"
proof -
  have "client_getAsset sample_http plain_flat (server_net sample_http mem_store plain_flat 2 ''s'') \<lparr>m_serverAddress = ''s''\<rparr> 7
      (memory_db (sample_db 0)) = Inr ((7, ClientRecord (SizedPointer (plain_asset (sample_asset 7 0)))), memory_db (sample_db 0))"
    by (rule server.get_held [OF sample_service(1,2)])
  then show ?thesis
    using shared_get_asset [OF sample_http_ok, of plain_flat mem_store 2 "''s''" 7 busy_world] by (simp add: busy_sample_turn)
qed

lemma names_stored_empty: "names_stored mem_store (memory_db [])"
  by (simp add: names_stored_def memory_view)

lemma clients_of_busy_server_witness:
  "\<exists>s'. receive [(busy_env, (''/assetFind'', [Osc_string (keyToString 7)]))] (sample_state [] busy_world) = Inr s' \<and>
     m_transmitSocket s' = [asset_packet (keyToString 7) (sample_asset 7 0)] \<and>
     (\<forall>b. holds mem_store (m_assetDatabase s') b \<longrightarrow>
        server_saw sample_http mem_store plain_flat (memory_db []) (os_world s') (\<lambda>d. holds mem_store d b))"
proof -
  let ?s = "sample_state [] busy_world" and ?bs = "plain_asset (sample_asset 7 0)"
  let ?s1 = "?s\<lparr>os_world := \<lparr>sh_db = memory_db (sample_db 0), sh_others = []\<rparr>\<rparr>"
  have env: "env_ldb busy_env = mem_store" "env_flat busy_env = plain_flat" by (simp_all add: busy_env_def)
  have sendable: "sendable (asset_root plain_flat ?bs)" by (simp add: sendable_def kAssetMaxListEntries_def)
  have "opened (env_ldb busy_env) (m_assetDatabase ?s1)" by (simp add: env sample_state_def)
  from cache_record_sendable [of busy_env ?s1 ?bs 7, OF this] sendable obtain d where
    cached: "cache_record busy_env 7 (ClientRecord (SizedPointer ?bs)) ?s1 = Inr (?s1\<lparr>m_assetDatabase := d\<rparr>)"
    by (auto simp: env)
  have sent: "sendAsset busy_env r (ClientRecord (SizedPointer ?bs)) x =
      Inr (send_packet busy_env kDataChunkSize (asset_packet r (sample_asset 7 0)) x)" for r x
    using sendAsset_sendable [of "ClientRecord (SizedPointer ?bs)" ?bs busy_env r x] sendable by (simp add: env)
  have missing: "findAsset mem_store plain_flat 7 (memory_db []) = Inr EmptyRecord"
    using findAsset_outcome(1) [OF db_wfD(1,3) [OF empty_wf] resolves.missing, of 7]
    by (auto simp: asset_at_def memory_view found_def)
  have "ProcessMessage busy_env (''/assetFind'', [Osc_string (keyToString 7)]) ?s =
      Inr (send_packet busy_env kDataChunkSize (asset_packet (keyToString 7) (sample_asset 7 0)) (?s1\<lparr>m_assetDatabase := d\<rparr>))"
    using busy_sample_get cached sent missing
    by (simp add: ProcessMessage_def parse_assetFind_key task_findAsset_def env sample_state_def)
      (simp add: busy_env_def)
  then obtain s' where r: "receive [(busy_env, (''/assetFind'', [Osc_string (keyToString 7)]))] ?s = Inr s'"
    "m_transmitSocket s' = [asset_packet (keyToString 7) (sample_asset 7 0)]"
    by (simp add: receive_def send_packet_def busy_env_def sample_state_def)
  have d0: "memory_db [] = sh_db (os_world ?s)" by (simp add: sample_state_def busy_world_def)
  have "db_wf mem_store plain_flat (m_assetDatabase ?s)" using empty_wf by (simp add: sample_state_def)
  moreover have "\<forall>(e, m) \<in> set [(busy_env, (''/assetFind'', [Osc_string (keyToString 7)]))]. env_ldb e = mem_store \<and>
      (\<exists>now. uses_net e sample_http plain_flat (shared_net sample_http mem_store plain_flat now ''s'') \<lparr>m_serverAddress = ''s''\<rparr>)"
    by (auto simp: uses_net_def busy_env_def)
  ultimately have "\<forall>b. holds mem_store (m_assetDatabase s') b \<longrightarrow> holds mem_store (m_assetDatabase ?s) b \<or>
      server_saw sample_http mem_store plain_flat (memory_db []) (os_world s') (\<lambda>d. holds mem_store d b)"
    using clients_of_busy_server [OF r(1) d0 sample_http_ok empty_wf names_stored_empty] by blast
  moreover have "\<not> holds mem_store (m_assetDatabase ?s) b" for b by (simp add: holds_def sample_state_def memory_view)
  ultimately show ?thesis using r by blast
qed

end
