(* ===== verification/Config.thy ===== *)
theory Config
  imports Version Records
begin

text \<open>
  \<open>src/confab/Config.cpp\<close>: the configuration record of the database, which holds the version
  the database was written with. The bytes of its table, their root and their verifier
  belong to the flatbuffers library.
\<close>

section \<open>The table\<close>

record flat_config =
  fc_versionMajor :: int
  fc_versionMinor :: int
  fc_versionPatch :: int

record config_lib =
  config_bytes :: "flat_config \<Rightarrow> bytes"
  config_root :: "bytes \<Rightarrow> flat_config"
  config_valid :: "bytes \<Rightarrow> bool"

text \<open>A finished table of three 32-bit integers verifies and reads back.\<close>

definition config_ok :: "config_lib \<Rightarrow> bool" where
  "config_ok C \<longleftrightarrow>
     (\<forall>t. in_i32 (fc_versionMajor t) \<longrightarrow> in_i32 (fc_versionMinor t) \<longrightarrow> in_i32 (fc_versionPatch t) \<longrightarrow>
        config_valid C (config_bytes C t) \<and> config_root C (config_bytes C t) = t)"

section \<open>The class\<close>

record config =
  m_record :: "record_ptr option"
  m_version :: version

definition getConfigKey :: sized_pointer where
  "getConfigKey = (let kConfigKey = ''confab-db-config'' in SizedPointer (of_chars kConfigKey))"

definition new_Config :: "version \<Rightarrow> config" where
  "new_Config v = \<lparr>m_record = None, m_version = copy_version v\<rparr>"

definition config_flatten :: "config_lib \<Rightarrow> config \<Rightarrow> sized_pointer" where
  "config_flatten C c =
     (let v = m_version c;
          t = \<lparr>fc_versionMajor = m_major v, fc_versionMinor = m_minor v, fc_versionPatch = m_patch v\<rparr>
      in SizedPointer (config_bytes C t))"

definition config_Verify :: "config_lib \<Rightarrow> record_ptr \<Rightarrow> fault + bool" where
  "config_Verify C rec =
     rbind (record_data rec) (\<lambda>p. rbind (sp_data p) (\<lambda>bs. Inr (config_valid C bs)))"

text \<open>The private constructor that wraps a record.\<close>

definition Config_of_flat :: "record_ptr \<Rightarrow> flat_config \<Rightarrow> config" where
  "Config_of_flat rec t =
     \<lparr>m_record = Some rec, m_version = mk_version (fc_versionMajor t) (fc_versionMinor t) (fc_versionPatch t)\<rparr>"

definition LoadConfig :: "config_lib \<Rightarrow> record_ptr \<Rightarrow> fault + config" where
  "LoadConfig C rec =
     rbind (record_data rec) (\<lambda>p.
     rbind (sp_data p) (\<lambda>bs.
       if config_valid C bs then Inr (Config_of_flat rec (config_root C bs)) else Inl Unverified))"

definition config_version :: "config \<Rightarrow> version" where
  "config_version c = copy_version (m_version c)"

section \<open>Reading back what was written\<close>

lemma copy_version_id [simp]: "copy_version v = v"
  by (cases v) (simp add: copy_version_def)

text \<open>A configuration that was written verifies and has the version it was written with.\<close>

lemma config_written_is_read:
  assumes "config_ok C" "version_ok v" "record_data rec = Inr (config_flatten C (new_Config v))"
  shows "config_Verify C rec = Inr True \<and> (\<exists>c. LoadConfig C rec = Inr c \<and> config_version c = v)"
proof -
  let ?t = "\<lparr>fc_versionMajor = m_major v, fc_versionMinor = m_minor v, fc_versionPatch = m_patch v\<rparr>"
  have "in_i32 (m_major v)" "in_i32 (m_minor v)" "in_i32 (m_patch v)"
    using assms(2) by (simp_all add: version_ok_def)
  then have "config_valid C (config_bytes C ?t) \<and> config_root C (config_bytes C ?t) = ?t"
    using assms(1) by (simp add: config_ok_def)
  then show ?thesis
    using assms(2,3) mk_version_id [OF assms(2)]
    by (simp add: config_flatten_def new_Config_def config_Verify_def LoadConfig_def Config_of_flat_def config_version_def)
qed

end
