(* ===== verification/ConfabCommon.thy ===== *)
theory ConfabCommon
  imports Cache_Runs
begin

text \<open>
  \<open>src/confab/ConfabCommon.cpp\<close> and \<open>src/confab/confab.cpp\<close>: the client program from its
  start to its end. The command line is parsed by the gflags library, so its flags are a
  parameter; so are the process id, whether a file opens for writing, whether a port can be
  bound, whether the signal mask can be set, which signal arrives, and whether the OSC
  library's receive loop comes to an end.
\<close>

section \<open>Flags and state\<close>

record flags =
  FLAGS_chatty :: bool
  FLAGS_data_directory :: string
  FLAGS_create_new_database :: bool
  FLAGS_database_cache_size_mb :: int
  FLAGS_validate_file_cache :: bool
  FLAGS_max_cache_size_gb :: int
  FLAGS_osc_listen_port :: int
  FLAGS_osc_respond_port :: int
  FLAGS_server_url :: string

text \<open>The values without a command line.\<close>

definition default_flags :: flags where
  "default_flags =
     \<lparr>FLAGS_chatty = False, FLAGS_data_directory = ''../data/confab'', FLAGS_create_new_database = False,
      FLAGS_database_cache_size_mb = 4, FLAGS_validate_file_cache = True, FLAGS_max_cache_size_gb = 4,
      FLAGS_osc_listen_port = 4248, FLAGS_osc_respond_port = 4249,
      FLAGS_server_url = ''http://sclork-s01.local:9080''\<rparr>"

record log_flags =
  FLAGS_log_dir :: string
  FLAGS_alsologtostderr :: bool

datatype signal = SIGHUP | SIGINT | SIGTERM

text \<open>The object, and what its methods change besides: the signals blocked and the files.\<close>

record 'db confab_common =
  m_pidPath :: string
  cc_assetDatabase :: "'db asset_database option"
  cc_log :: "log_flags option"
  cc_blocked :: "signal list"
  cc_files :: fs

text \<open>
  What the system does. A wait for signals ends with a signal of the set or with the number of
  an error, or does not end.
\<close>

record surroundings =
  sys_pid :: nat
  sys_time :: nat
  sys_opens :: "string \<Rightarrow> bool"
  sys_binds :: "int \<Rightarrow> bool"
  sys_sigmask :: bool
  sys_sigwait :: "signal list \<Rightarrow> (int + signal) option"
  sys_loop_ends :: bool

definition new_ConfabCommon :: "fs \<Rightarrow> 'db confab_common" where
  "new_ConfabCommon fs =
     \<lparr>m_pidPath = [], cc_assetDatabase = None, cc_log = None, cc_blocked = [], cc_files = fs\<rparr>"

section \<open>Initialisation\<close>

definition initializeLogging :: "flags \<Rightarrow> 'db confab_common \<Rightarrow> 'db confab_common" where
  "initializeLogging fl c =
     c\<lparr>cc_log := Some \<lparr>FLAGS_log_dir = FLAGS_data_directory fl @ ''/log'', FLAGS_alsologtostderr = FLAGS_chatty fl\<rparr>\<rparr>"

definition checkSentinelFile :: "surroundings \<Rightarrow> flags \<Rightarrow> 'db confab_common \<Rightarrow> bool \<times> 'db confab_common" where
  "checkSentinelFile sys fl c =
     (let c = c\<lparr>m_pidPath := FLAGS_data_directory fl @ ''/pid''\<rparr>
      in if umap_find (cc_files c) (m_pidPath c) \<noteq> None then (False, c)
         else if \<not> sys_opens sys (m_pidPath c) then (False, c)
         else (True, c\<lparr>cc_files := umap_assign (m_pidPath c)
                         (Regular (of_chars (show_dec (sys_pid sys))) (sys_time sys)) (cc_files c)\<rparr>))"

definition setThreadMask :: "surroundings \<Rightarrow> 'db confab_common \<Rightarrow> bool \<times> 'db confab_common" where
  "setThreadMask sys c =
     (if \<not> sys_sigmask sys then (False, c) else (True, c\<lparr>cc_blocked := [SIGHUP, SIGINT, SIGTERM]\<rparr>))"

text \<open>The size of the cache is computed in \<open>int\<close>.\<close>

definition openDatabase :: "'db leveldb \<Rightarrow> flags \<Rightarrow> 'db confab_common \<Rightarrow> fault + bool \<times> 'db confab_common" where
  "openDatabase ldb fl c =
     rbind (chk_i32 (FLAGS_database_cache_size_mb fl * 1024)) (\<lambda>kb.
     rbind (chk_i32 (kb * 1024)) (\<lambda>cacheSize.
       let (ok, d) = db_open ldb (FLAGS_data_directory fl @ ''/db'') (FLAGS_create_new_database fl) cacheSize new_AssetDatabase;
           c = c\<lparr>cc_assetDatabase := Some d\<rparr>
       in if \<not> ok then Inr (False, c) else Inr (True, c)))"

text \<open>The result of \<open>setThreadMask\<close> is not looked at.\<close>

definition initialize :: "'db leveldb \<Rightarrow> surroundings \<Rightarrow> flags \<Rightarrow> 'db confab_common \<Rightarrow> fault + bool \<times> 'db confab_common" where
  "initialize ldb sys fl c =
     (let c = initializeLogging fl c;
          (alone, c) = checkSentinelFile sys fl c
      in if \<not> alone then Inr (False, c)
         else
           let (masked, c) = setThreadMask sys c
           in openDatabase ldb fl c)"

definition common_shutdown :: "'db confab_common \<Rightarrow> fault + 'db confab_common" where
  "common_shutdown c =
     (case cc_assetDatabase c of
        None \<Rightarrow> Inl NullDeref
      | Some d \<Rightarrow> Inr (c\<lparr>cc_assetDatabase := Some (db_close d), cc_files := fs_remove (m_pidPath c) (cc_files c)\<rparr>))"

text \<open>Nothing when the wait does not end; its status and signal are only logged.\<close>

definition waitForTerminationSignal :: "surroundings \<Rightarrow> unit option" where
  "waitForTerminationSignal sys =
     (case sys_sigwait sys [SIGINT, SIGTERM, SIGHUP] of
        None \<Rightarrow> None
      | Some (Inr signal) \<Rightarrow> Some ()
      | Some (Inl status) \<Rightarrow> Some ())"

section \<open>The client program\<close>

text \<open>
  \<open>main\<close> of \<open>confab\<close>. The cache is checked by a task whose discarded future is waited for,
  and whose exception is dropped with it; the exception is that of the directory listing, which
  is thrown when the cache is empty and no file has been looked at.

  The receive loop that \<open>osc.run()\<close> starts is waited for in the same way. Only
  \<open>osc.shutdown()\<close>, further down, asks it to end, so that it ends by a failure of the library
  alone (\<open>sys_loop_ends\<close>). The program is described up to the point where it stays: in the
  loop, in the wait for a signal, or at its end, with the number it returns and the files it
  leaves.
\<close>

datatype ('db, 'w) confab_status =
    Exited int fs
  | Receiving osc_sockets "('db, 'w) osc_handler"
  | Waiting osc_sockets "('db, 'w) osc_handler"

definition max_cache_bytes :: "flags \<Rightarrow> u64" where
  "max_cache_bytes fl = of_int (FLAGS_max_cache_size_gb fl) * 1024 * 1024 * 1024"

text \<open>
  The cast keeps every size from 0 on; a negative one becomes a cache of nearly 16 exabytes,
  which nothing outgrows.
\<close>

lemma max_cache_bytes_exact:
  assumes "0 \<le> FLAGS_max_cache_size_gb fl" "FLAGS_max_cache_size_gb fl < 2 ^ 31"
  shows "uint (max_cache_bytes fl) = FLAGS_max_cache_size_gb fl * 2 ^ 30"
proof -
  have "max_cache_bytes fl = of_int (FLAGS_max_cache_size_gb fl * 2 ^ 30)" by (simp add: max_cache_bytes_def)
  then show ?thesis using assms by (simp only: uint_word_of_int_eq) (rule take_bit_int_eq_self, simp_all)
qed

lemma max_cache_bytes_negative:
  assumes "- (2 ^ 31) \<le> FLAGS_max_cache_size_gb fl" "FLAGS_max_cache_size_gb fl < 0"
  shows "uint (max_cache_bytes fl) = 2 ^ 64 + FLAGS_max_cache_size_gb fl * 2 ^ 30"
proof -
  have "max_cache_bytes fl = of_int (2 ^ 64 + FLAGS_max_cache_size_gb fl * 2 ^ 30)" by (simp add: max_cache_bytes_def)
  then show ?thesis using assms by (simp only: uint_word_of_int_eq) (rule take_bit_int_eq_self, simp_all)
qed

lemma default_cache_size: "uint (max_cache_bytes default_flags) = 2 ^ 32"
  using max_cache_bytes_exact [of default_flags] by (simp add: default_flags_def)

definition start_cache :: "'h hash_lib \<Rightarrow> surroundings \<Rightarrow> (fs \<Rightarrow> fs) \<Rightarrow> flags \<Rightarrow> fs \<Rightarrow> fault + cache_manager \<times> fs" where
  "start_cache X sys order fl fs =
     (let c = new_CacheManager (FLAGS_data_directory fl @ ''/cache'') (max_cache_bytes fl)
      in case checkExistingEntries X (sys_opens sys) order (FLAGS_validate_file_cache fl) c fs of
           Inl FilesystemError \<Rightarrow> Inr (c, fs)
         | r \<Rightarrow> r)"

text \<open>
  The statements behind \<open>osc.run()\<close>. The database and the files are those the handler has
  worked on, which the program shares with it.
\<close>

definition confab_finish :: "surroundings \<Rightarrow> 'db confab_common \<Rightarrow> pistache_client \<Rightarrow> osc_sockets \<Rightarrow>
    ('db, 'w) osc_handler \<Rightarrow> fault + ('db, 'w) confab_status" where
  "confab_finish sys common client ports s =
     (case waitForTerminationSignal sys of
        None \<Rightarrow> Inr (Waiting ports s)
      | Some _ \<Rightarrow>
          rbind (osc_shutdown ports) (\<lambda>ports.
          let client = client_shutdown client;
              common = common\<lparr>cc_assetDatabase := Some (m_assetDatabase s), cc_files := os_files s\<rparr>
          in rbind (common_shutdown common) (\<lambda>common. Inr (Exited 0 (cc_files common)))))"

definition confab_main :: "'db leveldb \<Rightarrow> 'h hash_lib \<Rightarrow> surroundings \<Rightarrow> (fs \<Rightarrow> fs) \<Rightarrow> flags \<Rightarrow>
    (http_client \<Rightarrow> (('db, 'h, 'w) osc_env \<times> osc_message) list) \<Rightarrow> fs \<Rightarrow> 'w \<Rightarrow> fault + ('db, 'w) confab_status" where
  "confab_main ldb X sys order fl inbox fs w =
     rbind (initialize ldb sys fl (new_ConfabCommon fs)) (\<lambda>(ok, common).
       if \<not> ok then Inr (Exited (-1) (cc_files common))
       else
         let (httpClient, client) = new_HttpClient (FLAGS_server_url fl)
         in rbind (start_cache X sys order fl (cc_files common)) (\<lambda>(cacheManager, fs).
            case cc_assetDatabase common of
              None \<Rightarrow> Inl NullDeref
            | Some d \<Rightarrow>
                let (ports, osc) = new_OscHandler (FLAGS_osc_listen_port fl) (FLAGS_osc_respond_port fl) d
                                     cacheManager fs w
                in rbind (osc_run (sys_binds sys) ports) (\<lambda>ports.
                   rbind (rfold (\<lambda>(e, m). ProcessMessage e m) (inbox httpClient) osc) (\<lambda>s.
                   if \<not> sys_loop_ends sys then Inr (Receiving ports s)
                   else confab_finish sys common client ports s))))"

section \<open>One program per data directory\<close>

text \<open>A start that finds the sentinel ends at once and changes no file.\<close>

lemma sentinel_refuses:
  assumes "umap_find fs (FLAGS_data_directory fl @ ''/pid'') \<noteq> None"
  shows "confab_main ldb X sys order fl inbox fs w = Inr (Exited (-1) fs)"
  using assms
  by (auto simp: confab_main_def initialize_def initializeLogging_def checkSentinelFile_def new_ConfabCommon_def Let_def)

text \<open>A start that finds no sentinel leaves one, whether the database opens or not.\<close>

lemma initialize_sentinel:
  assumes "initialize ldb sys fl (new_ConfabCommon fs) = Inr (ok, c)"
    and "sys_opens sys (FLAGS_data_directory fl @ ''/pid'')" "umap_find fs (FLAGS_data_directory fl @ ''/pid'') = None"
  shows "cc_files c = umap_assign (FLAGS_data_directory fl @ ''/pid'')
           (Regular (of_chars (show_dec (sys_pid sys))) (sys_time sys)) fs"
    and "m_pidPath c = FLAGS_data_directory fl @ ''/pid''" and "cc_assetDatabase c \<noteq> None"
  using assms
  by (auto simp: initialize_def initializeLogging_def checkSentinelFile_def setThreadMask_def openDatabase_def
      new_ConfabCommon_def Let_def fault_simps split: if_splits prod.splits)

text \<open>What a program that has come to its receive loop has done.\<close>

lemma confab_main_reached:
  assumes "initialize ldb sys fl (new_ConfabCommon fs) = Inr (True, c)"
    and "confab_main ldb X sys order fl inbox fs w = Inr status"
  obtains s0 s ports client where
    "start_cache X sys order fl (cc_files c) = Inr (m_cacheManager s0, os_files s0)"
    "receive (inbox (fst (new_HttpClient (FLAGS_server_url fl)))) s0 = Inr s"
    "if \<not> sys_loop_ends sys then status = Receiving ports s else confab_finish sys c client ports s = Inr status"
proof -
  obtain hc pc where hc: "new_HttpClient (FLAGS_server_url fl) = (hc, pc)" by fastforce
  obtain cacheManager fs1 where start: "start_cache X sys order fl (cc_files c) = Inr (cacheManager, fs1)"
    using assms by (auto simp: confab_main_def hc fault_simps)
  with assms obtain d where d: "cc_assetDatabase c = Some d"
    by (cases "cc_assetDatabase c") (auto simp: confab_main_def hc)
  obtain p0 s0 where s0: "new_OscHandler (FLAGS_osc_listen_port fl) (FLAGS_osc_respond_port fl) d cacheManager fs1 w = (p0, s0)"
    by fastforce
  obtain p1 s1 where s1: "receive (inbox hc) s0 = Inr s1"
    and status: "(if \<not> sys_loop_ends sys then Inr (Receiving p1 s1) else confab_finish sys c pc p1 s1) = Inr status"
    using assms start d s0 by (auto simp: confab_main_def hc fault_simps receive_def)
  show ?thesis
  proof (rule that)
    show "start_cache X sys order fl (cc_files c) = Inr (m_cacheManager s0, os_files s0)"
      using start s0 by (auto simp: new_OscHandler_def)
    show "receive (inbox (fst (new_HttpClient (FLAGS_server_url fl)))) s0 = Inr s1" using s1 by (simp add: hc)
    show "if \<not> sys_loop_ends sys then status = Receiving p1 s1 else confab_finish sys c pc p1 s1 = Inr status"
      using status by (auto split: if_splits)
  qed
qed

text \<open>The statements behind the loop: the wait, or an end with 0 that takes the sentinel away.\<close>

lemma confab_finish_cases:
  assumes "confab_finish sys c client ports s = Inr status"
  obtains "status = Waiting ports s" | fs' where "status = Exited 0 fs'" "umap_find fs' (m_pidPath c) = None"
  using assms
  by (auto simp: confab_finish_def common_shutdown_def fs_remove_def umap.find_erase fault_simps Let_def split: option.splits)

lemma start_cache_paths:
  assumes "start_cache X sys order fl fs = Inr (cacheManager, fs')" "iteration_order order"
  shows "m_cachePath cacheManager = FLAGS_data_directory fl @ ''/cache''"
    and "\<not> prefix (FLAGS_data_directory fl @ ''/cache'') p \<Longrightarrow> umap_find fs' p = umap_find fs p"
proof -
  let ?c = "new_CacheManager (FLAGS_data_directory fl @ ''/cache'') (max_cache_bytes fl)"
  have path: "m_cachePath ?c = FLAGS_data_directory fl @ ''/cache''" by (simp add: new_CacheManager_def)
  let ?check = "checkExistingEntries X (sys_opens sys) order (FLAGS_validate_file_cache fl) ?c fs"
  have "cacheManager = ?c \<and> fs' = fs \<or> ?check = Inr (cacheManager, fs')"
    using assms(1) by (cases ?check) (auto simp: start_cache_def Let_def split: fault.splits)
  then have "m_cachePath cacheManager = FLAGS_data_directory fl @ ''/cache'' \<and>
      (\<forall>p. \<not> prefix (FLAGS_data_directory fl @ ''/cache'') p \<longrightarrow> umap_find fs' p = umap_find fs p)"
    using checkExistingEntries_paths(1) [OF _ assms(2), of X "sys_opens sys" "FLAGS_validate_file_cache fl" ?c fs cacheManager fs']
      path by auto
  then show "m_cachePath cacheManager = FLAGS_data_directory fl @ ''/cache''"
    and "\<not> prefix (FLAGS_data_directory fl @ ''/cache'') p \<Longrightarrow> umap_find fs' p = umap_find fs p"
    by simp_all
qed

text \<open>The sentinel outlives everything the program does before it ends.\<close>

lemma running_keeps_sentinel:
  assumes "initialize ldb sys fl (new_ConfabCommon fs) = Inr (True, c)"
    and "confab_main ldb X sys order fl inbox fs w = Inr status"
    and "status = Receiving ports s \<or> status = Waiting ports s"
    and "iteration_order order" "hash_ok X" "\<forall>hc. \<forall>(e, m) \<in> set (inbox hc). env_hash e = X"
  shows "umap_find (os_files s) (FLAGS_data_directory fl @ ''/pid'') = umap_find (cc_files c) (FLAGS_data_directory fl @ ''/pid'')"
proof -
  let ?pid = "FLAGS_data_directory fl @ ''/pid''"
  have elsewhere: "\<not> prefix (FLAGS_data_directory fl @ ''/cache'') ?pid" by simp
  obtain s0 s1 p1 client where r: "start_cache X sys order fl (cc_files c) = Inr (m_cacheManager s0, os_files s0)"
    "receive (inbox (fst (new_HttpClient (FLAGS_server_url fl)))) s0 = Inr s1"
    "if \<not> sys_loop_ends sys then status = Receiving p1 s1 else confab_finish sys c client p1 s1 = Inr status"
    by (rule confab_main_reached [OF assms(1,2)]) blast
  have "s1 = s"
    using r(3) assms(3) by (auto split: if_splits elim!: confab_finish_cases)
  note cache = start_cache_paths [OF r(1) assms(4)]
  have "umap_find (os_files s1) ?pid = umap_find (os_files s0) ?pid"
    using receive_elsewhere [OF r(2) assms(5)] assms(6) elsewhere cache(1) by simp
  also have "\<dots> = umap_find (cc_files c) ?pid" using cache(2) [OF elsewhere] .
  finally show ?thesis by (simp add: \<open>s1 = s\<close>)
qed

lemma confab_main_exits:
  assumes "initialize ldb sys fl (new_ConfabCommon fs) = Inr (ok, c)"
    and "confab_main ldb X sys order fl inbox fs w = Inr (Exited n fs')"
  shows "if ok then n = 0 \<and> umap_find fs' (m_pidPath c) = None else n = -1 \<and> fs' = cc_files c"
proof (cases ok)
  case False
  with assms show ?thesis by (simp add: confab_main_def)
next
  case True
  show ?thesis
    by (rule confab_main_reached [OF assms(1) [unfolded True [THEN eqTrueI]] assms(2)])
      (auto simp: True split: if_splits elim!: confab_finish_cases)
qed

text \<open>
  C27: A start that gets past the sentinel check excludes every later one in the same data
  directory, whatever the other flags of the later one are: it ends with \<open>-1\<close> and changes no
  file. That holds from the check on and for as long as the program runs, whatever messages it
  receives and whatever it does with its cache. An end with 0 takes the sentinel away again.
  A start whose database does not open ends with \<open>-1\<close> as well, but leaves its
  sentinel, so that it excludes later starts for good.
\<close>

theorem one_program_per_directory:
  assumes "initialize ldb sys fl (new_ConfabCommon fs) = Inr (ok, c)"
    and "sys_opens sys (FLAGS_data_directory fl @ ''/pid'')" "umap_find fs (FLAGS_data_directory fl @ ''/pid'') = None"
    and "FLAGS_data_directory fl' = FLAGS_data_directory fl"
    and "iteration_order order" "hash_ok X" "\<forall>hc. \<forall>(e, m) \<in> set (inbox hc). env_hash e = X"
    and "confab_main ldb X sys order fl inbox fs w = Inr status"
  shows "confab_main ldb' X' sys' order' fl' inbox' (cc_files c) w' = Inr (Exited (-1) (cc_files c)) \<and>
    (case status of
       Exited n fs' \<Rightarrow>
         if ok then n = 0 \<and> umap_find fs' (FLAGS_data_directory fl @ ''/pid'') = None
         else n = -1 \<and> confab_main ldb' X' sys' order' fl' inbox' fs' w' = Inr (Exited (-1) fs')
     | Receiving ports s \<Rightarrow> confab_main ldb' X' sys' order' fl' inbox' (os_files s) w' = Inr (Exited (-1) (os_files s))
     | Waiting ports s \<Rightarrow> confab_main ldb' X' sys' order' fl' inbox' (os_files s) w' = Inr (Exited (-1) (os_files s)))"
proof -
  note c = initialize_sentinel [OF assms(1-3)]
  have there: "umap_find (cc_files c) (FLAGS_data_directory fl' @ ''/pid'') \<noteq> None"
    by (simp add: c(1) assms(4) umap.find_assign_same)
  have stays: "umap_find (os_files s) (FLAGS_data_directory fl' @ ''/pid'') \<noteq> None"
    if status: "status = Receiving ports s \<or> status = Waiting ports s" for ports s
  proof -
    have ok using assms(1,8) status by (cases ok) (auto simp: confab_main_def)
    then show ?thesis
      using running_keeps_sentinel [OF _ assms(8) status assms(5-7)] assms(1,4) there by simp
  qed
  have ended: "if ok then n = 0 \<and> umap_find fs' (m_pidPath c) = None else n = -1 \<and> fs' = cc_files c"
    if "status = Exited n fs'" for n fs'
    using confab_main_exits [OF assms(1) assms(8) [unfolded that]] .
  show ?thesis
  proof (cases status)
    case (Exited n fs')
    with ended show ?thesis by (auto simp: c(2) sentinel_refuses [OF there])
  next
    case (Receiving ports s)
    then show ?thesis by (simp add: sentinel_refuses [OF there] sentinel_refuses [OF stays [of ports s]])
  next
    case (Waiting ports s)
    then show ?thesis by (simp add: sentinel_refuses [OF there] sentinel_refuses [OF stays [of ports s]])
  qed
qed

section \<open>The cache of the program\<close>

lemma tidy_dir_assign:
  assumes "tidy_dir dir fs" "path_parent p \<noteq> dir"
  shows "tidy_dir dir (umap_assign p n fs)"
proof -
  have "umap_find (umap_assign p n fs) q \<noteq> None \<and> path_parent q = dir \<longleftrightarrow> umap_find fs q \<noteq> None \<and> path_parent q = dir" for q
    using assms(2) by (auto simp: umap.find_assign)
  with assms(1) show ?thesis unfolding tidy_dir_def by simp
qed

text \<open>
  From a tidy cache directory, or none, to the last message: in a program that validates
  its cache the books are right at every moment at which it runs, and the contents of the files
  are those their names promise, whatever the network and SuperCollider send.
\<close>

lemma program_keeps_cache:
  assumes "initialize ldb sys fl (new_ConfabCommon fs) = Inr (ok, c)"
    and "sys_opens sys (FLAGS_data_directory fl @ ''/pid'')" "umap_find fs (FLAGS_data_directory fl @ ''/pid'') = None"
    and "iteration_order order" "hash_ok X" "\<forall>hc. \<forall>(e, m) \<in> set (inbox hc). env_hash e = X"
    and "confab_main ldb X sys order fl inbox fs w = Inr status" "status = Receiving ports s \<or> status = Waiting ports s"
    and "FLAGS_validate_file_cache fl" "umap_ok fs" "tidy_dir (FLAGS_data_directory fl @ ''/cache'') fs"
    and "sum_list (map (node_bytes \<circ> snd) (cc_files c)) < 2 ^ 64"
  shows "cache_kept X (m_cacheManager s) (os_files s)"
proof -
  let ?pid = "FLAGS_data_directory fl @ ''/pid''" and ?dir = "FLAGS_data_directory fl @ ''/cache''"
  let ?c = "new_CacheManager ?dir (max_cache_bytes fl)"
  have ok: ok using assms(1,7,8) by (cases ok) (auto simp: confab_main_def)
  obtain s0 s1 p1 client where r: "start_cache X sys order fl (cc_files c) = Inr (m_cacheManager s0, os_files s0)"
    "receive (inbox (fst (new_HttpClient (FLAGS_server_url fl)))) s0 = Inr s1"
    "if \<not> sys_loop_ends sys then status = Receiving p1 s1 else confab_finish sys c client p1 s1 = Inr status"
    by (rule confab_main_reached [OF assms(1) [unfolded ok [THEN eqTrueI]] assms(7)]) blast
  have s1: "s1 = s" using r(3) assms(8) by (auto split: if_splits elim!: confab_finish_cases)
  have "path_parent ?pid = FLAGS_data_directory fl"
    using path_filename_join [of "''pid''" "FLAGS_data_directory fl"] by (simp add: path_parent_def)
  then have tidy: "tidy_dir ?dir (cc_files c)" "umap_ok (cc_files c)"
    using initialize_sentinel(1) [OF assms(1-3)] tidy_dir_assign [OF assms(11)] assms(10) by (simp_all add: umap.invar_assign)
  let ?check = "checkExistingEntries X (sys_opens sys) order True ?c (cc_files c)"
  have "cache_kept X (m_cacheManager s0) (os_files s0)"
  proof (cases ?check)
    case (Inl err)
    then have "m_cacheManager s0 = ?c" using r(1) assms(9) by (cases err) (auto simp: start_cache_def)
    then show ?thesis by (simp add: cache_kept_def queued_def new_CacheManager_def pq_ok_def queue_bytes_def)
  next
    case (Inr r')
    then have check: "?check = Inr (m_cacheManager s0, os_files s0)" using r(1) assms(9) by (simp add: start_cache_def)
    then have "umap_find (cc_files c) ?dir = Some NonRegular"
      by (auto simp: checkExistingEntries_def directory_def new_CacheManager_def fault_simps Let_def split: if_splits)
    then show ?thesis
      using start_kept [OF assms(5,4) tidy(2) _ assms(12) _ check] tidy(1) by (simp add: new_CacheManager_def)
  qed
  then show ?thesis
    using cache_steps_keep [OF receive_steps [OF r(2) assms(5)]] assms(6) by (simp add: s1)
qed

text \<open>A first start without a database, and one that makes it, on a machine that opens every file.\<close>

definition sample_flags :: "bool \<Rightarrow> flags" where
  "sample_flags create =
     \<lparr>FLAGS_chatty = False, FLAGS_data_directory = ''data'', FLAGS_create_new_database = create,
      FLAGS_database_cache_size_mb = 4, FLAGS_validate_file_cache = True, FLAGS_max_cache_size_gb = 4,
      FLAGS_osc_listen_port = 4248, FLAGS_osc_respond_port = 4249, FLAGS_server_url = ''localhost:9080''\<rparr>"

definition sample_machine :: surroundings where
  "sample_machine =
     \<lparr>sys_pid = 7, sys_time = 0, sys_opens = \<lambda>_. True, sys_binds = \<lambda>_. True, sys_sigmask = True,
      sys_sigwait = \<lambda>_. Some (Inr SIGTERM), sys_loop_ends = False\<rparr>"

definition sample_common :: "bool \<Rightarrow> mem confab_common" where
  "sample_common create =
     \<lparr>m_pidPath = ''data/pid'',
      cc_assetDatabase = Some (if create then \<lparr>m_database = Some []\<rparr> else new_AssetDatabase),
      cc_log = Some \<lparr>FLAGS_log_dir = ''data/log'', FLAGS_alsologtostderr = False\<rparr>,
      cc_blocked = [SIGHUP, SIGINT, SIGTERM], cc_files = [(''data/pid'', Regular (of_chars (show_dec 7)) 0)]\<rparr>"

lemma sample_start:
  "initialize mem_store sample_machine (sample_flags create) (new_ConfabCommon []) = Inr (create, sample_common create)"
  by (cases create)
    (simp_all add: initialize_def initializeLogging_def checkSentinelFile_def setThreadMask_def openDatabase_def
      new_ConfabCommon_def sample_flags_def sample_machine_def sample_common_def db_open_def mem_store_def
      new_AssetDatabase_def chk_i32_def in_i32_def Let_def)

lemma sample_alone:
  "sys_opens sample_machine (FLAGS_data_directory (sample_flags create) @ ''/pid'')"
  "umap_find [] (FLAGS_data_directory (sample_flags create) @ ''/pid'') = None"
  "FLAGS_data_directory (sample_flags True) = FLAGS_data_directory (sample_flags create)"
  by (simp_all add: sample_machine_def sample_flags_def)

text \<open>The second start reaches its receive loop; no cache directory is there yet.\<close>

definition sample_running :: "mem \<Rightarrow> (mem, unit) osc_handler" where
  "sample_running db =
     \<lparr>m_assetDatabase = \<lparr>m_database = Some db\<rparr>,
      m_cacheManager = new_CacheManager ''data/cache'' (max_cache_bytes (sample_flags True)),
      os_files = cc_files (sample_common True), os_world = (), m_transmitSocket = []\<rparr>"

definition sample_ports :: osc_sockets where
  "sample_ports = \<lparr>m_listenPort = 4248, m_sendPort = 4249, sends_to = Some (''127.0.0.1'', 4249),
     listens_on = Some 4248, break_asked = False\<rparr>"

definition sample_status :: "bool \<Rightarrow> (mem, unit) confab_status" where
  "sample_status create =
     (if create then Receiving sample_ports (sample_running []) else Exited (-1) (cc_files (sample_common False)))"

lemma sample_main:
  "confab_main mem_store sample_hash sample_machine id (sample_flags create) (\<lambda>_. []) [] () = Inr (sample_status create)"
proof (cases create)
  case False
  then show ?thesis using sample_start [of False] by (simp add: confab_main_def sample_status_def)
next
  case True
  have "start_cache sample_hash sample_machine id (sample_flags True) (cc_files (sample_common True)) =
      Inr (new_CacheManager ''data/cache'' (max_cache_bytes (sample_flags True)), cc_files (sample_common True))"
    by (simp add: start_cache_def checkExistingEntries_def directory_def new_CacheManager_def sample_common_def
        sample_flags_def)
  with True sample_start [of True] show ?thesis
    by (simp add: confab_main_def sample_status_def new_HttpClient_def sample_running_def sample_ports_def)
      (simp add: sample_common_def sample_flags_def sample_machine_def new_OscHandler_def osc_run_def)
qed

lemma one_program_per_directory_witness:
  "confab_main mem_store sample_hash sample_machine id (sample_flags True) (\<lambda>_. []) (cc_files (sample_common False)) () =
     Inr (Exited (-1) (cc_files (sample_common False))) \<and>
   confab_main mem_store sample_hash sample_machine id (sample_flags True) (\<lambda>_. []) (os_files (sample_running [])) () =
     Inr (Exited (-1) (os_files (sample_running [])))"
proof -
  have libs: "iteration_order id" "\<forall>hc. \<forall>(e, m) \<in> set ((\<lambda>_. []) hc). env_hash e = sample_hash"
    by (simp_all add: iteration_order_def)
  note failed = one_program_per_directory [OF sample_start [of False] sample_alone libs(1) sample_hash_ok libs(2) sample_main]
    and running = one_program_per_directory [OF sample_start [of True] sample_alone libs(1) sample_hash_ok libs(2) sample_main]
  from running [THEN conjunct2] show ?thesis
    by (intro conjI failed [THEN conjunct1]) (simp add: sample_status_def)
qed

end
