(* ===== verification/Unit_Tests.thy ===== *)
theory Unit_Tests
  imports Version Records
begin

text \<open>
  The unit tests of the repository, \<open>common/Version_test.cpp\<close> and \<open>confab/Asset_test.cpp\<close>,
  hold of the model: each lemma is one test, with its expectations in the order of the code.
  They tie the definitions to what the authors checked of the program.
\<close>

section \<open>Versions\<close>

lemma test_Constructor:
  "m_major (mk_version 1 2 3) = 1" "m_minor (mk_version 1 2 3) = 2" "m_patch (mk_version 1 2 3) = 3"
  "m_major (mk_version 9 (-3) 6) = 9" "m_minor (mk_version 9 (-3) 6) = 0" "m_patch (mk_version 9 (-3) 6) = 6"
  by (simp_all add: mk_version_def)

lemma test_CopyConstructor: "copy_version (mk_version 7 8 9) = mk_version 7 8 9"
  by (simp add: copy_version_def)

lemma test_Assignment:
  fixes v1 v2 v3 :: version
  assumes "v3 = mk_version 8 (-7) 1" "v2 = copy_version v3" "v1 = copy_version v2"
    and "v \<in> {v1, v2, v3}"
  shows "[m_major v, m_minor v, m_patch v] = [8, 0, 1]"
  using assms(4) by (auto simp: assms(1-3) copy_version_def mk_version_def)

lemma test_ToString:
  "toString (mk_version 4 10 111) = ''4.10.111''" "toString (mk_version 8 0 0) = ''8.0.0''"
  by code_simp+

lemma test_ComparisonLessThan:
  fixes v0 v1 v2 v3 v4 :: version
  assumes "v0 = mk_version 10 10 11" "v1 = mk_version 10 10 11" "v2 = mk_version 10 10 9"
    "v3 = mk_version 10 1 11" "v4 = mk_version 9 20 25"
  shows "\<not> ver_less v0 v1" "\<not> ver_less v1 v0" "\<not> ver_less v0 v0" "\<not> ver_less v1 v1"
    "ver_less v2 v1" "\<not> ver_less v1 v2" "\<not> ver_less v2 v2"
    "ver_less v3 v1" "ver_less v3 v2" "\<not> ver_less v1 v3" "\<not> ver_less v2 v3" "\<not> ver_less v3 v3"
    "ver_less v4 v3" "ver_less v4 v2" "ver_less v4 v1" "\<not> ver_less v3 v4" "\<not> ver_less v2 v4" "\<not> ver_less v1 v4"
  by (simp_all add: assms mk_version_def ver_less_def)

text \<open>The other five operators, on the versions of their tests, all against all.\<close>

lemma test_ComparisonEquality:
  assumes "vs = [mk_version 1 2 3, mk_version 1 2 4, mk_version 1 3 3, mk_version 8 2 3, mk_version 127 127 127]"
    and "i < length vs" "j < length vs"
  shows "ver_eq (vs ! i) (vs ! j) \<longleftrightarrow> i = j"
  using assms(2,3) by (auto simp: assms(1) less_Suc_eq ver_eq_def mk_version_def)

lemma test_ComparisonInequality:
  assumes "vs = [mk_version 6 2 9, mk_version 7 2 9, mk_version 6 3 9, mk_version 6 2 3, mk_version 0 0 0]"
    and "i < length vs" "j < length vs"
  shows "ver_ne (vs ! i) (vs ! j) \<longleftrightarrow> i \<noteq> j"
  using assms(2,3) by (auto simp: assms(1) less_Suc_eq ver_ne_def mk_version_def)

lemma test_ComparisonGreaterThan:
  assumes "vs = [mk_version 9 7 5, mk_version 9 7 8, mk_version 9 9 5, mk_version 11 7 5]"
    and "i < length vs" "j < length vs"
  shows "ver_greater (vs ! i) (vs ! j) \<longleftrightarrow> i > j"
  using assms(2,3) by (auto simp: assms(1) less_Suc_eq ver_greater_def ver_less_def ver_ne_def mk_version_def)

lemma test_ComparisonLessThanOrEqualTo:
  assumes "vs = [mk_version 0 1 7, mk_version 1 0 7, mk_version 1 1 6, mk_version 1 1 7]"
    and "i < length vs" "j < length vs"
  shows "ver_le (vs ! i) (vs ! j) \<longleftrightarrow> i \<le> j"
  using assms(2,3) by (auto simp: assms(1) less_Suc_eq ver_le_def ver_greater_def ver_less_def ver_ne_def mk_version_def)

lemma test_ComparisonGreaterThanOrEqualTo:
  assumes "vs = [mk_version 100 1000 10000, mk_version 100 1000 10001, mk_version 100 1001 10000, mk_version 101 1000 10000]"
    and "i < length vs" "j < length vs"
  shows "ver_ge (vs ! i) (vs ! j) \<longleftrightarrow> i \<ge> j"
  using assms(2,3) by (auto simp: assms(1) less_Suc_eq ver_ge_def ver_less_def mk_version_def)

section \<open>Assets\<close>

text \<open>Flatten, finish the buffer, verify it, read the table and copy it into an asset.\<close>

definition through_buffer :: "flat_lib \<Rightarrow> asset \<Rightarrow> bytes option \<Rightarrow> fault + asset" where
  "through_buffer F a inlineData =
     rbind (flatten a inlineData) (\<lambda>t.
       let buffer = asset_bytes F t
       in if asset_valid F buffer then rbind (GetFlatAsset F buffer) Asset_of_flat else Inl CheckFailed)"

lemma through_buffer_eq:
  assumes "flat_ok F" "flatten a inlineData = Inr t" "asset_fits t"
  shows "through_buffer F a inlineData = Asset_of_flat t"
  using assms by (simp add: through_buffer_def flat_ok_def GetFlatAsset_def Let_def)

lemma test_MinimalSerialization:
  assumes "flat_ok F"
  shows "through_buffer F (new_Asset kSnippet) None = Inr (new_Asset kSnippet)"
    and "m_key (new_Asset kSnippet) = 0" "m_name (new_Asset kSnippet) = []" "m_fileExtension (new_Asset kSnippet) = []"
    "m_author (new_Asset kSnippet) = 0" "m_deprecatedBy (new_Asset kSnippet) = 0" "m_deprecates (new_Asset kSnippet) = 0"
    "m_size (new_Asset kSnippet) = 0" "m_chunks (new_Asset kSnippet) = 0" "m_salt (new_Asset kSnippet) = 0"
    "m_inlineData (new_Asset kSnippet) = None"
proof -
  obtain t where t: "flatten (new_Asset kSnippet) None = Inr t" "asset_fits t" "Asset_of_flat t = Inr (new_Asset kSnippet)"
    by (simp add: flatten_eq new_Asset_def asset_fits_def opt_length_def Asset_of_flat_def copy_lists_def)
  from through_buffer_eq [OF assms t(1,2)] t(3)
  show "through_buffer F (new_Asset kSnippet) None = Inr (new_Asset kSnippet)" by simp
qed (simp_all add: new_Asset_def)

definition all_fields :: asset where
  "all_fields = setChunks 25 (setInlineData (\<lambda>i. of_nat (99 - i)) 100 (setSalt 12345678 (setDeprecates 3 (setDeprecatedBy 2
     (setAuthor 1 (setFileExtension ''scd'' (setName ''test asset not for serialization''
       (setKey 0xdeadbeef1bad1dea (new_Asset kSnippet)))))))))"

lemma test_AllFieldsSet:
  assumes "flat_ok F"
  shows "through_buffer F all_fields None = Inr all_fields"
proof -
  obtain t where t: "flatten all_fields None = Inr t" "asset_fits t" "Asset_of_flat t = Inr all_fields"
    by (simp add: all_fields_def setInlineData_def setter_defs flatten_eq new_Asset_def asset_fits_def opt_length_def
        Asset_of_flat_def copy_lists_def copy_out_def c_str_def)
  from through_buffer_eq [OF assms t(1,2)] t(3) show ?thesis by simp
qed

lemma test_InlineDataOverride:
  assumes "flat_ok F" "testInline = of_chars ''blah blah blah''"
  shows "\<exists>a. through_buffer F (setSize (of_nat (length testInline)) (setKey 1 (new_Asset kSnippet))) (Some testInline) = Inr a \<and>
    m_inlineData a = Some testInline"
proof -
  let ?a = "setSize (of_nat (length testInline)) (setKey 1 (new_Asset kSnippet))"
  obtain t a where t: "flatten ?a (Some testInline) = Inr t" "asset_fits t" "Asset_of_flat t = Inr a" "m_inlineData a = Some testInline"
    by (simp add: setter_defs flatten_eq new_Asset_def asset_fits_def opt_length_def
        Asset_of_flat_def copy_lists_def copy_out_def assms(2))
  from through_buffer_eq [OF assms(1) t(1,2)] t(3,4) show ?thesis by simp
qed

end
