(* ===== verification/Spec2Isabelle.thy ===== *)
theory Spec2Isabelle
  imports Version Chat_Properties Chat_Main AssetDatabase_Properties File_Properties
    Cache_Properties Http_Properties Osc_Properties Find_Properties Asset_Service Osc_Answers Cache_Runs Clients
    Server_Threads Shared_Server Busy_Server
    Config ConfabCommon Unit_Tests
begin

text \<open>
  A model of the C++ programs of SCLOrkTools, under \<open>src/src\<close> of the repository: \<open>confab\<close>, the
  asset client every performer runs beside SuperCollider, the asset server it talks to, and
  \<open>confab-server\<close>, the chat server. Paths below are relative to that directory.

  The parts and how they interact. SuperCollider sends OSC messages to \<open>confab\<close>. Its handler
  (\<open>confab/OscHandler.cpp\<close>) turns a message into a task. A task looks an asset up in the local
  database (\<open>AssetDatabase.cpp\<close>, a layer over LevelDB whose values are flatbuffer tables), asks
  the asset server over HTTP when it is not there (\<open>HttpClient.cpp\<close>), keeps downloaded files in
  a cache directory (\<open>CacheManager.cpp\<close>), and answers with an OSC packet. The asset server
  (\<open>HttpEndpoint.cpp\<close>) answers the requests from a database of the same class. The chat server
  (\<open>ChatServer.cpp\<close>) is separate: clients sign in, send messages and poll for those they have
  not seen; the messages stay in a ring of 128.

  Theories and what they model.
  \<^item> \<open>Confab_Prelude\<close>: faults as values (\<open>fault + 'a\<close>, with \<open>rbind\<close>, \<open>rfold\<close>, \<open>rmap\<close>), 32-bit
    arithmetic that faults on overflow, 64-bit words and their bytes, association lists for
    the hash maps, decimal text; the locales \<open>codec\<close>, \<open>fixed_codec\<close> and \<open>keyed_map\<close>.
  \<^item> \<open>Version\<close>: \<open>common/Version.cpp\<close>. The six comparisons are one linear order.
  \<^item> \<open>Chat_Server\<close>: \<open>ChatServer.cpp\<close> and the command table. One definition per branch of
    \<open>handleMessage\<close>; message objects live in an explicit store, so that freeing, leaking and
    reading a freed one can be told apart. \<open>Chat_Ring\<close> shows that the ring is a bounded log
    (locale \<open>bounded_log\<close>), \<open>Chat_Spec\<close> states the chat protocol as a step relation without
    slots and pointers and shows that every call of the handler is one of its steps,
    \<open>Chat_Properties\<close> has the properties, \<open>Chat_Main\<close> the start and stop of the server and the
    program \<open>confab-server.cpp\<close>.
  \<^item> \<open>C_Text\<close>: \<open>strtoull\<close>, \<open>c_str\<close> and hexadecimal printing as the asset code uses them.
  \<^item> \<open>Asset\<close>: \<open>Asset.hpp\<close>, \<open>Asset.cpp\<close>. Types, keys and their text, the setters, the copy from
    and to a table, and the list of ids.
  \<^item> \<open>Records\<close>: \<open>SizedPointer.hpp\<close>, \<open>Record.hpp\<close>, the iterator interface of LevelDB and the
    flatbuffer accessors.
  \<^item> \<open>AssetDatabase\<close>: \<open>AssetDatabase.cpp\<close>, every method. \<open>AssetDatabase_Spec\<close> gives the
    database its abstract view, a map from typed keys to bytes, and shows that each method
    is an update or lookup of it (locale \<open>record_table\<close>); \<open>AssetDatabase_Lists\<close> shows that a
    page of a list is a segment of its items; \<open>AssetDatabase_Runs\<close> has the invariant \<open>db_wf\<close>
    and its preservation by every history; \<open>AssetDatabase_Properties\<close> the properties.
  \<^item> \<open>Http\<close>, \<open>HttpEndpoint\<close>, \<open>HttpClient\<close>: \<open>HttpEndpoint.cpp\<close> (routes, the nine handlers, the
    life of the server) and \<open>HttpClient.cpp\<close> (every request, the two passes over an uploaded
    file). \<open>Server_Network\<close> connects them: a network that hands each request to \<open>serve\<close>.
    \<open>Http_Properties\<close> has the properties of client, server and database together, and
    \<open>Server_Threads\<close> those of requests that interleave on the server's threads (\<open>server_run\<close>).
  \<^item> \<open>CacheManager\<close>: \<open>CacheManager.cpp\<close> over a file system that maps paths to files.
    \<open>Cache_Spec\<close> has its invariant (\<open>cache_ok\<close>) and the queue as an interface (locale
    \<open>priority_queue\<close>), \<open>Cache_Properties\<close> the properties. \<open>File_Transfer\<close>, \<open>File_Service\<close> and
    \<open>File_Properties\<close> follow a file from one client through the server to the cache of another;
    what upload and download need of the server is an interface (locale \<open>file_service\<close>).
  \<^item> \<open>OscHandler\<close>: \<open>OscHandler.cpp\<close>, the parsing of the eight messages, the eight tasks and the
    answers. \<open>Osc_Properties\<close> and \<open>Find_Properties\<close> have the properties of the whole client;
    \<open>Asset_Service\<close> states what the client relies on as an interface (locale \<open>asset_service\<close>)
    and shows that the HTTP client over the asset server provides it. \<open>Osc_Answers\<close> gives every
    answer the type its receiver expects. \<open>Cache_Runs\<close> describes a message's work on the cache
    as one of four steps and follows the cache along whole runs. \<open>Clients\<close> lets any number of
    clients take turns on one server; where a client's assets can come from is an interface
    (locale \<open>asset_source\<close>).
  \<^item> \<open>Shared_Server\<close>, \<open>Busy_Server\<close>: a network whose server answers requests of others before
    each request of this client. \<open>Shared_Server\<close> is a second provider of \<open>file_service\<close>,
    \<open>Busy_Server\<close> one of \<open>asset_source\<close>, with every exchange a run of the server's threads.
  \<^item> \<open>Config\<close>: \<open>Config.cpp\<close>, the version record of a database.
  \<^item> \<open>ConfabCommon\<close>: \<open>ConfabCommon.cpp\<close> and \<open>confab.cpp\<close>: sentinel file, signal mask, database,
    cache, OSC ports, the receive loop, the wait for a signal and the end of the program.
  \<^item> \<open>Library_Instances\<close>, \<open>Network_Instances\<close>: concrete libraries that meet the laws below, so
    that every property with a hypothesis about a library is applied at one. \<open>Unit_Tests\<close> replays
    the expectations of the repository's unit tests of versions and assets on the model.

  State and operations. A class is a record with the code's field names, a method a function
  from the state to \<open>fault + result\<close> with the new state in the result. A branch of the code that
  logs and returns is a value; a branch that is undefined behaviour, throws out of the program
  or aborts is a fault (\<open>Inl\<close>) that names what goes wrong. A theorem that a call is \<open>Inr\<close>
  therefore says that none of this happens, and a theorem that it is \<open>Inl NullDeref\<close> is a crash.

  Parameters and their laws. Code that is not in the repository is an argument of the
  definitions, with its documented behaviour as a predicate: \<open>leveldb_ok\<close> (an iterator yields
  the entries in the order of their keys, a write batch is atomic), \<open>flat_ok\<close> and \<open>config_ok\<close> (a
  finished table verifies and reads back), \<open>http_ok\<close> (routes match segment by segment, base64
  decodes what it encoded and has the length it documents), \<open>hash_ok\<close> (hashing in pieces is
  hashing at once), \<open>iteration_order\<close> (a hash map is iterated in some order), \<open>env_ok\<close> (a new
  message object has a fresh address). No law is assumed about what a network, a peer or a
  stored table of another writer contains: it is an arbitrary value in the theorems about it.

  What the groups of lemmas show.
  \<^item> Chat: every run is a run of the abstract protocol with the same replies; polls deliver
    consecutive messages without gap or repetition; ids are fresh; which messages leak, which
    clients time out and which request reads outside the ring.
  \<^item> Assets and database: keys of different kinds never collide; the invariant holds along every
    history; a lookup follows deprecations to their end and ends exactly when there is no
    cycle; what is stored is found; a list is read completely in pages; where records in no
    list, in more than eight lists, or missing ones go wrong.
  \<^item> HTTP: no sequence of requests breaks the invariant of the database; a lookup over the network
    is the lookup in the server's database; posted assets come back; an oversized or unlisted
    asset brings the server down; when requests interleave, the database is that of requests
    served in turn, and a lookup by name finds the record of the key it has read.
  \<^item> Files: an uploaded file comes back byte for byte, except when its size is a multiple of the
    chunk size, also through a server that others use meanwhile for other keys; whatever
    the network answers, a file in the cache has the hash that is its key; start-up makes the
    records of the cache agree with its directory and bounds it, and every run of the client
    keeps them right, though no longer bounded.
  \<^item> Client: no OSC message breaks the local database or is answered twice; an answer has the
    type that belongs to its request and repeats its key, name or number; a user is sent
    what the server holds; what one user adds another user finds; a found asset is answered
    locally from then on; a second load of a file, or the load of a replaced one, gets no file;
    one program runs per data directory.
  \<^item> Clients and server: along any sequence of turns all databases stay well formed and no asset
    appears anywhere that no user added; behind a server whose threads interleave a client with
    others, the database is still that of requests in turn, and what a client keeps the server
    has held.

  Bounds and fuel. No definition uses fuel. Loops over data are structural; the loops of the
  file transfer and of eviction are functions with a measure (bytes left, entries of the queue,
  those that are out of date). The loop of \<open>findAsset\<close> need not end and is a \<open>partial_function\<close>:
  \<open>None\<close> becomes the fault \<open>Diverges\<close>, and \<open>findAsset_diverges_iff\<close> says exactly when. Where a
  theorem has the bound 3069, it is the number of bytes whose base64 text is below a page of
  4096; the widths 32 and 64 of the code's integers are kept, and wrap or fault as they do.

  Threads. The handlers of the asset server run on several threads, of which only the lookups by
  name use the store more than once: a LevelDB iterator reads one snapshot and a write batch is
  atomic. \<open>server_run\<close> interleaves them at this grain; the theorems about one request, and about
  networks that call \<open>serve\<close>, take a request as a whole. In \<open>shared_net\<close> the requests of others,
  each taken as a whole, fall before a client's request, and before the second half of a lookup
  by name; one of them that brings the server down leaves the database as it was, as a restart
  finds it. The client runs OSC tasks one after the other, because a discarded future waits for
  its task, and the chat server takes its messages on one thread.

  Not modelled. The mutex of the cache manager, which has one user at a time. Logging, log files
  and command-line parsing (the flags are a parameter, their defaults \<open>default_flags\<close> and
  \<open>default_server_flags\<close>). The bytes of an OSC packet (its size is a parameter) and of a flatbuffer (a parameter). Whether the receive loop of the OSC
  library ends, and which signal arrives, are parameters; the code that runs after the loop is
  modelled. Paths are compared as texts, so links and dots in a path have no meaning.
  What Pistache does with a route that is registered twice. The sclang classes under \<open>classes\<close> and
  \<open>scide_scqt\<close>, which are another program in another language, and the code that
  is commented out (\<open>openDatabase\<close> and parts of the tests).
\<close>

end
